(* ===== verification/Prelude.thy ===== *)
theory Prelude
  imports Main "HOL-Library.Word" "HOL-Library.AList"
begin

unbundle bit_operations_syntax

text \<open>
  Shared vocabulary of the development.

  \<^item> The integer types of the crate are words of their width: \<open>u64\<close>, \<open>u256\<close>
    (\<open>alloy_primitives::U256\<close>), \<open>b256\<close> and \<open>address\<close> (160 bits). Lengths and
    counts of collections (\<open>usize\<close>) are \<open>nat\<close>.
  \<^item> A \<open>std::collections::HashMap\<close> is an association list. Every statement of the
    development quantifies over the list, so over every iteration order the map can have.
    \<open>hm_ok\<close> says that keys are distinct, which every operation keeps.
  \<^item> A \<open>HashSet\<close> that the code iterates is a list extended with \<open>List.insert\<close>.
  \<^item> A loop over a map that inserts into another map is a \<open>fold\<close> of \<open>hm_insert\<close>;
    \<open>hm_get_fold_upd\<close> characterises its result by lookup.
\<close>

section \<open>Types\<close>

type_synonym u8 = "8 word"
type_synonym u32 = "32 word"
type_synonym u64 = "64 word"
type_synonym u256 = "256 word"
type_synonym b256 = "256 word"
type_synonym address = "160 word"
type_synonym bytes = "u8 list"
type_synonym slot_key = "address \<times> u256"

type_synonym ('k, 'v) hashmap = "('k \<times> 'v) list"
type_synonym 'a hashset = "'a list"

named_theorems hm_simps \<open>lookup equations of map operations\<close>
named_theorems hm_intros \<open>distinctness of keys kept by map operations\<close>

section \<open>Hash maps as association lists\<close>

abbreviation hm_get :: "('k, 'v) hashmap \<Rightarrow> 'k \<Rightarrow> 'v option" where
  "hm_get m k \<equiv> map_of m k"

abbreviation hm_insert :: "'k \<Rightarrow> 'v \<Rightarrow> ('k, 'v) hashmap \<Rightarrow> ('k, 'v) hashmap" where
  "hm_insert k v m \<equiv> AList.update k v m"

abbreviation hm_remove :: "'k \<Rightarrow> ('k, 'v) hashmap \<Rightarrow> ('k, 'v) hashmap" where
  "hm_remove k m \<equiv> AList.delete k m"

abbreviation hm_contains :: "('k, 'v) hashmap \<Rightarrow> 'k \<Rightarrow> bool" where
  "hm_contains m k \<equiv> hm_get m k \<noteq> None"

abbreviation hm_len :: "('k, 'v) hashmap \<Rightarrow> nat" where
  "hm_len m \<equiv> length m"

definition hm_retain :: "('k \<Rightarrow> bool) \<Rightarrow> ('k, 'v) hashmap \<Rightarrow> ('k, 'v) hashmap" where
  "hm_retain P m = filter (\<lambda>(k, v). P k) m"

definition hm_map_values :: "('v \<Rightarrow> 'w) \<Rightarrow> ('k, 'v) hashmap \<Rightarrow> ('k, 'w) hashmap" where
  "hm_map_values f m = map (\<lambda>(k, v). (k, f v)) m"

definition hm_ok :: "('k, 'v) hashmap \<Rightarrow> bool" where
  "hm_ok m \<longleftrightarrow> distinct (map fst m)"

lemma hm_get_insert [simp, hm_simps]:
  "map_of (AList.update k v m) = (map_of m)(k \<mapsto> v)"
  by (rule update_conv')

lemma hm_get_remove [simp, hm_simps]:
  "map_of (AList.delete k m) = (map_of m)(k := None)"
  by (rule delete_conv')

lemma hm_get_retain [simp, hm_simps]:
  "map_of (hm_retain P m) k = (if P k then map_of m k else None)"
  by (induction m) (auto simp: hm_retain_def)

lemma hm_get_map_values [simp, hm_simps]:
  "map_of (hm_map_values f m) k = map_option f (map_of m k)"
  by (induction m) (auto simp: hm_map_values_def)

lemma hm_keys_map_values [simp]: "map fst (hm_map_values f m) = map fst m"
  by (induction m) (auto simp: hm_map_values_def)

lemma hm_ok_Nil [simp, hm_intros]: "hm_ok []"
  by (simp add: hm_ok_def)

lemma hm_ok_insert [simp, hm_intros]: "hm_ok m \<Longrightarrow> hm_ok (AList.update k v m)"
  by (simp add: hm_ok_def distinct_update)

lemma hm_ok_remove [simp, hm_intros]: "hm_ok m \<Longrightarrow> hm_ok (AList.delete k m)"
  by (simp add: hm_ok_def distinct_delete)

lemma hm_ok_retain [simp, hm_intros]: "hm_ok m \<Longrightarrow> hm_ok (hm_retain P m)"
  by (induction m) (auto simp: hm_ok_def hm_retain_def)

lemma hm_ok_map_values [simp, hm_intros]: "hm_ok (hm_map_values f m) = hm_ok m"
  by (simp add: hm_ok_def)

lemma hm_get_iff_mem: "hm_ok m \<Longrightarrow> map_of m k = Some v \<longleftrightarrow> (k, v) \<in> set m"
  by (simp add: hm_ok_def)

lemma hm_get_None_iff: "map_of m k = None \<longleftrightarrow> k \<notin> fst ` set m"
  by (rule map_of_eq_None_iff)

text \<open>\<open>map.get_mut(k)\<close> followed by an in-place change of the value.\<close>

definition hm_modify :: "'k \<Rightarrow> ('v \<Rightarrow> 'v) \<Rightarrow> ('k, 'v) hashmap \<Rightarrow> ('k, 'v) hashmap" where
  "hm_modify k f m = (case hm_get m k of None \<Rightarrow> m | Some v \<Rightarrow> hm_insert k (f v) m)"

lemma hm_get_modify [simp, hm_simps]:
  "map_of (hm_modify k f m) k' = (if k' = k then map_option f (map_of m k) else map_of m k')"
  by (simp add: hm_modify_def split: option.splits)

lemma hm_ok_modify [simp, hm_intros]: "hm_ok m \<Longrightarrow> hm_ok (hm_modify k f m)"
  by (simp add: hm_modify_def split: option.splits)

text \<open>\<open>map.entry(k).or_default()\<close> for a map whose values are maps.\<close>

definition hm_or_default :: "('k, ('a, 'b) hashmap) hashmap \<Rightarrow> 'k \<Rightarrow> ('a, 'b) hashmap" where
  "hm_or_default m k = (case hm_get m k of None \<Rightarrow> [] | Some v \<Rightarrow> v)"

subsection \<open>Loops over a map\<close>

text \<open>
  One step of a loop that looks at an entry \<open>(k, v)\<close> and either stores \<open>f k v\<close> under \<open>k\<close>
  or leaves the target map alone.
\<close>

definition upd_step ::
  "('k \<Rightarrow> 'v \<Rightarrow> 'w option) \<Rightarrow> 'k \<times> 'v \<Rightarrow> ('k, 'w) hashmap \<Rightarrow> ('k, 'w) hashmap" where
  "upd_step f kv m = (case f (fst kv) (snd kv) of None \<Rightarrow> m | Some w \<Rightarrow> hm_insert (fst kv) w m)"

lemma hm_get_fold_upd:
  assumes "distinct (map fst xs)"
  shows "map_of (fold (upd_step f) xs m) k =
    (case map_of xs k of
       None \<Rightarrow> map_of m k
     | Some v \<Rightarrow> (case f k v of None \<Rightarrow> map_of m k | Some w \<Rightarrow> Some w))"
  using assms
proof (induction xs arbitrary: m)
  case Nil
  then show ?case by simp
next
  case (Cons x xs)
  then have fresh: "map_of xs (fst x) = None"
    by (simp add: map_of_eq_None_iff)
  show ?case
    using Cons fresh by (cases x) (auto simp: upd_step_def split: option.splits)
qed

lemma hm_ok_fold_upd [simp, hm_intros]:
  "hm_ok m \<Longrightarrow> hm_ok (fold (upd_step f) xs m)"
  by (induction xs arbitrary: m) (auto simp: upd_step_def split: option.splits)

text \<open>Inserting the entries of one map into another, \<open>for (k, v) in xs { m.insert(k, v) }\<close>.\<close>

definition hm_extend :: "('k, 'v) hashmap \<Rightarrow> ('k, 'v) hashmap \<Rightarrow> ('k, 'v) hashmap" where
  "hm_extend m xs = fold (\<lambda>(k, v). hm_insert k v) xs m"

lemma hm_ok_extend [simp, hm_intros]: "hm_ok m \<Longrightarrow> hm_ok (hm_extend m xs)"
  unfolding hm_extend_def by (induction xs arbitrary: m) auto

lemma hm_get_extend:
  "distinct (map fst xs) \<Longrightarrow>
   map_of (hm_extend m xs) k = (case map_of xs k of None \<Rightarrow> map_of m k | Some v \<Rightarrow> Some v)"
proof (induction xs arbitrary: m)
  case (Cons x xs)
  then have "map_of xs (fst x) = None" by (simp add: map_of_eq_None_iff)
  with Cons show ?case by (cases x) (auto simp: hm_extend_def split: option.splits)
qed (simp add: hm_extend_def)

text \<open>Two maps that agree on every key have the same length.\<close>

lemma hm_len_cong:
  assumes "hm_ok m" and "hm_ok m'" and "map_of m = map_of m'"
  shows "length m = length m'"
proof -
  have "card (dom (map_of m)) = length m" and "card (dom (map_of m')) = length m'"
    using assms(1,2) by (simp_all add: hm_ok_def dom_map_of_conv_image_fst
        card_image distinct_map distinct_card inj_on_def flip: set_map)
  with assms(3) show ?thesis by simp
qed

section \<open>Hash sets as lists\<close>

definition hs_extend :: "'a hashset \<Rightarrow> 'a list \<Rightarrow> 'a hashset" where
  "hs_extend s xs = fold List.insert xs s"

lemma set_hs_extend [simp]: "set (hs_extend s xs) = set s \<union> set xs"
  unfolding hs_extend_def by (induction xs arbitrary: s) auto

lemma distinct_hs_extend [simp]: "distinct s \<Longrightarrow> distinct (hs_extend s xs)"
  unfolding hs_extend_def by (induction xs arbitrary: s) auto

lemma hs_extend_Nil [simp]: "hs_extend s [] = s"
  by (simp add: hs_extend_def)

section \<open>Saturating arithmetic\<close>

definition saturating_add :: "'a::len word \<Rightarrow> 'a word \<Rightarrow> 'a word" where
  "saturating_add x y = (if x \<le> x + y then x + y else - 1)"

definition saturating_sub :: "'a::len word \<Rightarrow> 'a word \<Rightarrow> 'a word" where
  "saturating_sub x y = (if y \<le> x then x - y else 0)"

lemma unat_max_word: "unat (- 1 :: 'a::len word) = 2 ^ LENGTH('a) - 1"
  by (simp add: unsigned_minus_1_eq_mask mask_eq_exp_minus_1)

lemma unat_saturating_add:
  "unat (saturating_add x y) = min (unat x + unat y) (2 ^ LENGTH('a) - 1)"
  for x y :: "'a::len word"
proof (cases "x \<le> x + y")
  case True
  then have "unat (x + y) = unat x + unat y"
    by (simp add: unat_plus_simple)
  moreover have "unat (x + y) < 2 ^ LENGTH('a)" by (rule unsigned_less)
  ultimately have "unat x + unat y \<le> 2 ^ LENGTH('a) - 1" by simp
  with True \<open>unat (x + y) = unat x + unat y\<close> show ?thesis
    by (simp only: saturating_add_def if_True min_def)
next
  case False
  then have "2 ^ LENGTH('a) \<le> unat x + unat y"
    by (metis no_olen_add_nat not_le)
  moreover have "0 < (2::nat) ^ LENGTH('a)" by simp
  ultimately have "\<not> unat x + unat y \<le> 2 ^ LENGTH('a) - 1" by linarith
  with False show ?thesis
    by (simp only: saturating_add_def if_False unat_max_word min_def)
qed

lemma unat_saturating_sub: "unat (saturating_sub x y) = unat x - unat y"
  by (auto simp: saturating_sub_def unat_sub word_le_nat_alt)

section \<open>Results\<close>

text \<open>\<open>Result<T, E>\<close> is \<open>'e + 'a\<close>: \<open>Inl\<close> is \<open>Err\<close>, \<open>Inr\<close> is \<open>Ok\<close>.\<close>

abbreviation Err :: "'e \<Rightarrow> 'e + 'a" where "Err \<equiv> Inl"
abbreviation Okay :: "'a \<Rightarrow> 'e + 'a" where "Okay \<equiv> Inr"

definition unwrap_or :: "'a option \<Rightarrow> 'a \<Rightarrow> 'a" where
  "unwrap_or x d = (case x of None \<Rightarrow> d | Some v \<Rightarrow> v)"

lemma unwrap_or_simps [simp]: "unwrap_or None d = d" "unwrap_or (Some v) d = v"
  by (simp_all add: unwrap_or_def)

definition then_some :: "bool \<Rightarrow> 'a \<Rightarrow> 'a option" where
  "then_some b x = (if b then Some x else None)"

lemma then_some_simps [simp]:
  "then_some True x = Some x" "then_some False x = None"
  "then_some b x = None \<longleftrightarrow> \<not> b" "then_some b x = Some y \<longleftrightarrow> b \<and> x = y"
  by (auto simp: then_some_def)

end
