(* ===== verification/State_Update.thy ===== *)
theory State_Update
  imports Prelude
begin

text \<open>
  The mutation vocabulary of \<^verbatim>\<open>src/state_update.rs\<close>: \<open>StateUpdate\<close> and its parts
  (\<open>SlotDelta\<close>, \<open>AccountPatch\<close>, \<open>PurgeScope\<close>), and the record of what an apply
  changed (\<open>StateDiff\<close> with its change and skip entries), with the operations that file
  defines on them. \<open>SlotChange\<close> is declared in \<^verbatim>\<open>src/freshness.rs\<close>.
\<close>

section \<open>Relative updates\<close>

datatype slot_delta = Add u256 | Sub u256

fun slot_delta_apply :: "slot_delta \<Rightarrow> u256 \<Rightarrow> u256" where
  "slot_delta_apply (Add amount) current = saturating_add current amount"
| "slot_delta_apply (Sub amount) current = saturating_sub current amount"

section \<open>Account patches and purge scopes\<close>

record account_patch =
  ap_balance :: "u256 option"
  ap_nonce :: "u64 option"
  ap_code :: "bytes option"

definition account_patch_default :: account_patch where
  "account_patch_default = \<lparr>ap_balance = None, ap_nonce = None, ap_code = None\<rparr>"

definition patch_balance :: "account_patch \<Rightarrow> u256 \<Rightarrow> account_patch" where
  "patch_balance p b = p\<lparr>ap_balance := Some b\<rparr>"

definition patch_nonce :: "account_patch \<Rightarrow> u64 \<Rightarrow> account_patch" where
  "patch_nonce p n = p\<lparr>ap_nonce := Some n\<rparr>"

definition patch_code :: "account_patch \<Rightarrow> bytes \<Rightarrow> account_patch" where
  "patch_code p c = p\<lparr>ap_code := Some c\<rparr>"

datatype purge_scope = PurgeAccount | AllStorage | Slots "u256 list"

section \<open>Updates\<close>

datatype state_update =
    Slot address u256 u256
  | SlotDelta address u256 slot_delta
  | BalanceDelta address slot_delta
  | SlotMasked address u256 u256 u256
  | Account address account_patch
  | AccountUpsert address account_patch
  | Purge address purge_scope

definition update_balance :: "address \<Rightarrow> u256 \<Rightarrow> state_update" where
  "update_balance a v = Account a (patch_balance account_patch_default v)"

definition update_nonce :: "address \<Rightarrow> u64 \<Rightarrow> state_update" where
  "update_nonce a n = Account a (patch_nonce account_patch_default n)"

definition update_code :: "address \<Rightarrow> bytes \<Rightarrow> state_update" where
  "update_code a c = Account a (patch_code account_patch_default c)"

text \<open>The address an update is about.\<close>

fun update_address :: "state_update \<Rightarrow> address" where
  "update_address (Slot a _ _) = a"
| "update_address (SlotDelta a _ _) = a"
| "update_address (BalanceDelta a _) = a"
| "update_address (SlotMasked a _ _ _) = a"
| "update_address (Account a _) = a"
| "update_address (AccountUpsert a _) = a"
| "update_address (Purge a _) = a"

text \<open>The pattern \<open>StateUpdate::Slot \{..\} | StateUpdate::SlotDelta \{..\}\<close>.\<close>

fun is_slot_run :: "state_update \<Rightarrow> bool" where
  "is_slot_run (Slot _ _ _) = True"
| "is_slot_run (SlotDelta _ _ _) = True"
| "is_slot_run _ = False"

section \<open>Diffs\<close>

record slot_change =
  sc_address :: address
  sc_slot :: u256
  sc_old :: u256
  sc_new :: u256

record account_change =
  ac_address :: address
  ac_balance :: "(u256 \<times> u256) option"
  ac_nonce :: "(u64 \<times> u64) option"
  ac_code_hash :: "(b256 \<times> b256) option"

record purge_record =
  pr_address :: address
  pr_scope :: purge_scope
  pr_slots_removed :: nat
  pr_account_removed :: bool

record skipped_delta =
  sd_address :: address
  sd_slot :: u256
  sd_delta :: slot_delta

record skipped_balance_delta =
  sb_address :: address
  sb_delta :: slot_delta

record skipped_mask =
  sm_address :: address
  sm_slot :: u256
  sm_mask :: u256
  sm_value :: u256

record skipped_account_patch =
  sa_address :: address
  sa_patch :: account_patch

record state_diff =
  slots :: "slot_change list"
  accounts :: "account_change list"
  purged :: "purge_record list"
  skipped :: "skipped_delta list"
  skipped_balances :: "skipped_balance_delta list"
  skipped_masks :: "skipped_mask list"
  skipped_accounts :: "skipped_account_patch list"

definition empty_diff :: state_diff where
  "empty_diff = \<lparr>slots = [], accounts = [], purged = [], skipped = [],
     skipped_balances = [], skipped_masks = [], skipped_accounts = []\<rparr>"

definition diff_is_empty :: "state_diff \<Rightarrow> bool" where
  "diff_is_empty d \<longleftrightarrow> slots d = [] \<and> accounts d = [] \<and> purged d = []"

definition diff_len :: "state_diff \<Rightarrow> nat" where
  "diff_len d = length (slots d) + length (accounts d) + length (purged d)"

definition has_skipped :: "state_diff \<Rightarrow> bool" where
  "has_skipped d \<longleftrightarrow> skipped d \<noteq> [] \<or> skipped_balances d \<noteq> [] \<or> skipped_masks d \<noteq> []
     \<or> skipped_accounts d \<noteq> []"

definition skipped_len :: "state_diff \<Rightarrow> nat" where
  "skipped_len d = length (skipped d) + length (skipped_balances d)
     + length (skipped_masks d) + length (skipped_accounts d)"

definition is_fully_applied :: "state_diff \<Rightarrow> bool" where
  "is_fully_applied d \<longleftrightarrow> \<not> has_skipped d"

definition diff_merge :: "state_diff \<Rightarrow> state_diff \<Rightarrow> state_diff" where
  "diff_merge d e = d\<lparr>
     slots := slots d @ slots e,
     accounts := accounts d @ accounts e,
     purged := purged d @ purged e,
     skipped := skipped d @ skipped e,
     skipped_balances := skipped_balances d @ skipped_balances e,
     skipped_masks := skipped_masks d @ skipped_masks e,
     skipped_accounts := skipped_accounts d @ skipped_accounts e\<rparr>"

section \<open>Laws\<close>

lemmas diff_defs = empty_diff_def diff_merge_def

lemma diff_merge_empty [simp]: "diff_merge d empty_diff = d" "diff_merge empty_diff d = d"
  by (simp_all add: diff_defs)

lemma diff_merge_assoc: "diff_merge (diff_merge a b) c = diff_merge a (diff_merge b c)"
  by (simp add: diff_defs)

lemma empty_diff_accessors [simp]:
  "diff_is_empty empty_diff" "diff_len empty_diff = 0" "\<not> has_skipped empty_diff"
  by (simp_all add: empty_diff_def diff_is_empty_def diff_len_def has_skipped_def)

lemma empty_diff_fields [simp]:
  "slots empty_diff = []" "accounts empty_diff = []" "purged empty_diff = []"
  "skipped empty_diff = []" "skipped_balances empty_diff = []"
  "skipped_masks empty_diff = []" "skipped_accounts empty_diff = []"
  by (simp_all add: empty_diff_def)

lemma diff_merge_fields [simp]:
  "slots (diff_merge d e) = slots d @ slots e"
  "accounts (diff_merge d e) = accounts d @ accounts e"
  "purged (diff_merge d e) = purged d @ purged e"
  "skipped (diff_merge d e) = skipped d @ skipped e"
  "skipped_balances (diff_merge d e) = skipped_balances d @ skipped_balances e"
  "skipped_masks (diff_merge d e) = skipped_masks d @ skipped_masks e"
  "skipped_accounts (diff_merge d e) = skipped_accounts d @ skipped_accounts e"
  by (simp_all add: diff_merge_def)

lemma diff_len_merge: "diff_len (diff_merge d e) = diff_len d + diff_len e"
  by (simp add: diff_len_def)

lemma skipped_len_merge: "skipped_len (diff_merge d e) = skipped_len d + skipped_len e"
  by (simp add: skipped_len_def)

lemma diff_is_empty_len: "diff_is_empty d \<longleftrightarrow> diff_len d = 0"
  by (simp add: diff_is_empty_def diff_len_def)

lemma has_skipped_len: "has_skipped d \<longleftrightarrow> 0 < skipped_len d"
  by (auto simp: has_skipped_def skipped_len_def)

lemma slot_delta_apply_bounds:
  "unat (slot_delta_apply d x) =
     (case d of Add n \<Rightarrow> min (unat x + unat n) (2 ^ 256 - 1) | Sub n \<Rightarrow> unat x - unat n)"
  by (cases d) (simp_all add: unat_saturating_add unat_saturating_sub)

end
