(* ===== verification/Evm_Cache.thy ===== *)
theory Evm_Cache
  imports State_Update
begin

text \<open>
  The state of \<open>EvmCache\<close> (\<^verbatim>\<open>src/cache/mod.rs\<close>) and its primitive reads and writes.

  The cache has two layers: layer 1 is the \<open>CacheDB\<close> overlay (\<open>self.db.cache\<close>), layer 2 the
  \<open>BlockchainDb\<close> backend (\<open>self.blockchain_db\<close>). Reads take the overlay first; a
  storage-cleared or not-existing overlay account answers zero for a missing slot and never
  consults the backend.

  Code outside the repository is a parameter. \<open>revm_ext\<close> holds what the crate calls of
  \<open>revm\<close>: the constant \<open>KECCAK_EMPTY\<close>, \<open>Bytecode::hash_slow\<close>, \<open>AccountInfo::default\<close>,
  \<open>CacheDB::insert_account_info\<close>. What the crate relies on of them is \<open>revm_ok\<close>. A
  \<open>Bytecode\<close> is represented by the raw bytes it was made from. The fetcher closures that a
  caller installs are fields of the state.
\<close>

section \<open>Accounts and layers\<close>

record account_info =
  ai_balance :: u256
  ai_nonce :: u64
  ai_code_hash :: b256
  ai_code :: "bytes option"

datatype account_state = NotExisting | Touched | StorageCleared | StateNone

fun reads_missing_as_zero :: "account_state \<Rightarrow> bool" where
  "reads_missing_as_zero StorageCleared = True"
| "reads_missing_as_zero NotExisting = True"
| "reads_missing_as_zero _ = False"

record db_account =
  da_info :: account_info
  da_state :: account_state
  da_storage :: "(u256, u256) hashmap"

type_synonym overlay_map = "(address, db_account) hashmap"
type_synonym storage_map = "(address, (u256, u256) hashmap) hashmap"
type_synonym account_map = "(address, account_info) hashmap"

record revm_ext =
  keccak_empty :: b256
  hash_slow :: "bytes \<Rightarrow> b256"
  default_info :: account_info
  insert_account_info :: "address \<Rightarrow> account_info \<Rightarrow> overlay_map \<Rightarrow> overlay_map"

text \<open>
  The documented behaviour of \<open>CacheDB::insert_account_info\<close> that the crate relies on: it stores
  the info under the address (the code hash it is given is already normalised, and is the empty hash
  only beside empty code, where revm would otherwise rehash the code) and overrides
  neither the storage of that account, nor the state of an account that exists, nor any other
  account; an entry it creates is empty and lets a missing slot fall through to the backend.
\<close>

definition insert_account_info_ok :: "revm_ext \<Rightarrow> bool" where
  "insert_account_info_ok ext \<longleftrightarrow>
     (\<forall>a i m. hm_ok m \<longrightarrow> hm_ok (insert_account_info ext a i m)) \<and>
     (\<forall>a b i m. b \<noteq> a \<longrightarrow> hm_get (insert_account_info ext a i m) b = hm_get m b) \<and>
     (\<forall>a i m. ai_code_hash i \<noteq> 0 \<longrightarrow>
        (\<exists>d. hm_get (insert_account_info ext a i m) a = Some d \<and> da_info d = i \<and>
             (case hm_get m a of
                None \<Rightarrow> da_storage d = [] \<and> \<not> reads_missing_as_zero (da_state d)
              | Some d0 \<Rightarrow> da_storage d = da_storage d0 \<and>
                  (da_state d0 \<noteq> NotExisting \<longrightarrow> da_state d = da_state d0))))"

definition revm_ok :: "revm_ext \<Rightarrow> bool" where
  "revm_ok ext \<longleftrightarrow> insert_account_info_ok ext \<and> keccak_empty ext \<noteq> 0 \<and>
     ai_code_hash (default_info ext) = keccak_empty ext \<and> (\<forall>c. hash_slow ext c \<noteq> 0)"

section \<open>Block identity and context\<close>

datatype block_number_or_tag = Latest | Finalized | Safe | Earliest | PendingTag | NumberTag u64

datatype block_id = HashId b256 "bool option" | NumberId block_number_or_tag

fun as_block_hash :: "block_id \<Rightarrow> b256 option" where
  "as_block_hash (HashId h _) = Some h"
| "as_block_hash (NumberId _) = None"

record block_context_requirements =
  require_number :: bool
  require_basefee :: bool
  require_coinbase :: bool
  require_prevrandao :: bool
  require_gas_limit :: bool

datatype block_env_source = HeaderNumber u64 | VerifiedHash u64 b256

section \<open>Code seeds\<close>

datatype code_seed_state = CsPending b256 | CsVerified b256 u64 | CsEtched b256

fun seed_code_hash :: "code_seed_state \<Rightarrow> b256" where
  "seed_code_hash (CsPending h) = h"
| "seed_code_hash (CsVerified h _) = h"
| "seed_code_hash (CsEtched h) = h"

section \<open>The memoised snapshot base\<close>

record base_state =
  bs_accounts :: account_map
  bs_storage :: storage_map
  bs_code_by_hash :: "(b256, bytes) hashmap"

section \<open>The cache\<close>

text \<open>The fetchers are closures of the caller; \<open>None\<close> is a call that panics.\<close>

type_synonym storage_fetcher =
  "slot_key list \<Rightarrow> block_id \<Rightarrow> (address \<times> u256 \<times> (string + u256)) list option"

record account_fields_sample =
  af_balance :: u256
  af_code_hash :: b256

type_synonym account_fields_fetcher =
  "address list \<Rightarrow> block_id \<Rightarrow> (string + (address \<times> account_fields_sample) list) option"

record evm_cache =
  db_accounts :: overlay_map
  db_block_hashes :: "(u256, b256) hashmap"
  bk_accounts :: account_map
  bk_storage :: storage_map
  bk_block_hashes :: "(u256, b256) hashmap"
  bk_pinned :: block_id
  block :: block_id
  timestamp_override :: "u64 option"
  chain_id :: u64
  block_number :: "u64 option"
  basefee :: "u64 option"
  coinbase :: "address option"
  prevrandao :: "b256 option"
  block_gas_limit :: "u64 option"
  context_requirements :: block_context_requirements
  env_source :: "block_env_source option"
  snapshot_generation :: u64
  storage_batch_fetcher :: "storage_fetcher option"
  account_fields_fetcher :: "account_fields_fetcher option"
  code_seeds :: "(address, code_seed_state) hashmap"
  spec_id :: nat
  base :: "base_state option"
  base_dirty :: "address hashset"
  base_full_rebuild :: bool
  base_storage_lens :: "(address, nat) hashmap"
  shared_memory_capacity :: nat

definition mark_base_dirty :: "address \<Rightarrow> evm_cache \<Rightarrow> evm_cache" where
  "mark_base_dirty a c = c\<lparr>base_dirty := List.insert a (base_dirty c)\<rparr>"

definition invalidate_base :: "evm_cache \<Rightarrow> evm_cache" where
  "invalidate_base c = c\<lparr>base_full_rebuild := True\<rparr>"

definition bump_snapshot_generation :: "evm_cache \<Rightarrow> evm_cache" where
  "bump_snapshot_generation c = c\<lparr>snapshot_generation := snapshot_generation c + 1\<rparr>"

section \<open>Reads\<close>

definition backend_slot :: "storage_map \<Rightarrow> address \<Rightarrow> u256 \<Rightarrow> u256 option" where
  "backend_slot storage a s = Option.bind (hm_get storage a) (\<lambda>m. hm_get m s)"

definition read_slot_account_state_aware ::
  "overlay_map \<Rightarrow> storage_map \<Rightarrow> address \<Rightarrow> u256 \<Rightarrow> u256 option" where
  "read_slot_account_state_aware overlay storage a s =
     (case hm_get overlay a of
        Some d \<Rightarrow>
          (case hm_get (da_storage d) s of
             Some v \<Rightarrow> Some v
           | None \<Rightarrow> if reads_missing_as_zero (da_state d) then Some 0
                     else backend_slot storage a s)
      | None \<Rightarrow> backend_slot storage a s)"

definition cached_storage_value :: "evm_cache \<Rightarrow> address \<Rightarrow> u256 \<Rightarrow> u256 option" where
  "cached_storage_value c a s =
     (case hm_get (db_accounts c) a of
        Some d \<Rightarrow>
          (case hm_get (da_storage d) s of
             Some v \<Rightarrow> Some v
           | None \<Rightarrow> if reads_missing_as_zero (da_state d) then Some 0
                     else backend_slot (bk_storage c) a s)
      | None \<Rightarrow> backend_slot (bk_storage c) a s)"

definition normalize_code_hash :: "revm_ext \<Rightarrow> account_info \<Rightarrow> account_info" where
  "normalize_code_hash ext i =
     (if ai_code_hash i = 0 then i\<lparr>ai_code_hash := keccak_empty ext\<rparr> else i)"

definition loaded_account_info :: "revm_ext \<Rightarrow> evm_cache \<Rightarrow> address \<Rightarrow> account_info option" where
  "loaded_account_info ext c a =
     (case hm_get (db_accounts c) a of
        Some d \<Rightarrow>
          if da_state d = NotExisting then None
          else Some (normalize_code_hash ext (da_info d))
      | None \<Rightarrow> map_option (normalize_code_hash ext) (hm_get (bk_accounts c) a))"

section \<open>Writes\<close>

definition insert_slot :: "u256 \<Rightarrow> u256 \<Rightarrow> db_account \<Rightarrow> db_account" where
  "insert_slot s v d = d\<lparr>da_storage := hm_insert s v (da_storage d)\<rparr>"

definition write_backend_slot :: "address \<Rightarrow> u256 \<Rightarrow> u256 \<Rightarrow> storage_map \<Rightarrow> storage_map" where
  "write_backend_slot a s v storage = hm_insert a (hm_insert s v (hm_or_default storage a)) storage"

definition write_slot_into ::
  "overlay_map \<Rightarrow> storage_map \<Rightarrow> address \<Rightarrow> u256 \<Rightarrow> u256 \<Rightarrow> overlay_map \<times> storage_map" where
  "write_slot_into overlay storage a s v =
     (hm_modify a (insert_slot s v) overlay, write_backend_slot a s v storage)"

definition write_slot_through :: "address \<Rightarrow> u256 \<Rightarrow> u256 \<Rightarrow> evm_cache \<Rightarrow> evm_cache" where
  "write_slot_through a s v c =
     mark_base_dirty a
       (c\<lparr>bk_storage := write_backend_slot a s v (bk_storage c),
          db_accounts := hm_modify a (insert_slot s v) (db_accounts c)\<rparr>)"

definition write_account_info_through ::
  "revm_ext \<Rightarrow> address \<Rightarrow> account_info \<Rightarrow> evm_cache \<Rightarrow> evm_cache" where
  "write_account_info_through ext a info c =
     (let info = normalize_code_hash ext info;
          overlay_present = hm_contains (db_accounts c) a;
          c1 = c\<lparr>bk_accounts := hm_insert a info (bk_accounts c)\<rparr>;
          c2 = (if overlay_present
                then c1\<lparr>db_accounts := insert_account_info ext a info (db_accounts c1)\<rparr> else c1)
      in mark_base_dirty a c2)"

section \<open>Single-target helpers\<close>

definition apply_slot :: "address \<Rightarrow> u256 \<Rightarrow> u256 \<Rightarrow> evm_cache \<Rightarrow> slot_change option \<times> evm_cache" where
  "apply_slot a s v c =
     (let old = unwrap_or (cached_storage_value c a s) 0;
          c' = write_slot_through a s v c
      in (then_some (old \<noteq> v) \<lparr>sc_address = a, sc_slot = s, sc_old = old, sc_new = v\<rparr>, c'))"

definition modify_slot ::
  "address \<Rightarrow> u256 \<Rightarrow> (u256 option \<Rightarrow> u256 option) \<Rightarrow> evm_cache \<Rightarrow> slot_change option \<times> evm_cache" where
  "modify_slot a s f c =
     (let current = cached_storage_value c a s
      in case f current of
           None \<Rightarrow> (None, c)
         | Some new \<Rightarrow>
             (let c' = write_slot_through a s new (bump_snapshot_generation c);
                  old = unwrap_or current 0
              in (then_some (old \<noteq> new) \<lparr>sc_address = a, sc_slot = s, sc_old = old, sc_new = new\<rparr>, c')))"

definition balance_change :: "address \<Rightarrow> u256 \<Rightarrow> u256 \<Rightarrow> account_change" where
  "balance_change a old new =
     \<lparr>ac_address = a, ac_balance = Some (old, new), ac_nonce = None, ac_code_hash = None\<rparr>"

definition modify_account_balance ::
  "revm_ext \<Rightarrow> address \<Rightarrow> (u256 option \<Rightarrow> u256 option) \<Rightarrow> evm_cache
     \<Rightarrow> account_change option \<times> evm_cache" where
  "modify_account_balance ext a f c =
     (let base = loaded_account_info ext c a
      in case f (map_option ai_balance base) of
           None \<Rightarrow> (None, c)
         | Some new_balance \<Rightarrow>
             (let info = unwrap_or base (default_info ext);
                  old_balance = ai_balance info;
                  c' = write_account_info_through ext a (info\<lparr>ai_balance := new_balance\<rparr>) c
              in (then_some (old_balance \<noteq> new_balance) (balance_change a old_balance new_balance), c')))"

definition apply_balance_delta ::
  "revm_ext \<Rightarrow> address \<Rightarrow> slot_delta \<Rightarrow> evm_cache
     \<Rightarrow> (skipped_balance_delta + account_change option) \<times> evm_cache" where
  "apply_balance_delta ext a delta c =
     (case loaded_account_info ext c a of
        None \<Rightarrow> (Err \<lparr>sb_address = a, sb_delta = delta\<rparr>, c)
      | Some info \<Rightarrow>
          (let old_balance = ai_balance info;
               new_balance = slot_delta_apply delta old_balance;
               c' = write_account_info_through ext a (info\<lparr>ai_balance := new_balance\<rparr>) c
           in (Okay (then_some (old_balance \<noteq> new_balance)
                       (balance_change a old_balance new_balance)), c')))"

definition account_patch_is_empty :: "account_patch \<Rightarrow> bool" where
  "account_patch_is_empty p \<longleftrightarrow> ap_balance p = None \<and> ap_nonce p = None \<and> ap_code p = None"

definition patch_info :: "revm_ext \<Rightarrow> account_patch \<Rightarrow> account_info \<Rightarrow> account_info" where
  "patch_info ext p i0 =
     (let i1 = (case ap_balance p of None \<Rightarrow> i0 | Some b \<Rightarrow> i0\<lparr>ai_balance := b\<rparr>);
          i2 = (case ap_nonce p of None \<Rightarrow> i1 | Some n \<Rightarrow> i1\<lparr>ai_nonce := n\<rparr>)
      in (case ap_code p of None \<Rightarrow> i2
          | Some code \<Rightarrow> i2\<lparr>ai_code_hash := hash_slow ext code, ai_code := Some code\<rparr>))"

definition info_change :: "address \<Rightarrow> account_info \<Rightarrow> account_info \<Rightarrow> account_change" where
  "info_change a old new =
     \<lparr>ac_address = a,
      ac_balance = then_some (ai_balance old \<noteq> ai_balance new) (ai_balance old, ai_balance new),
      ac_nonce = then_some (ai_nonce old \<noteq> ai_nonce new) (ai_nonce old, ai_nonce new),
      ac_code_hash = then_some (ai_code_hash old \<noteq> ai_code_hash new)
                       (ai_code_hash old, ai_code_hash new)\<rparr>"

definition apply_account_patch ::
  "revm_ext \<Rightarrow> address \<Rightarrow> account_patch \<Rightarrow> bool \<Rightarrow> evm_cache
     \<Rightarrow> (skipped_account_patch + account_change option) \<times> evm_cache" where
  "apply_account_patch ext a patch allow_cold_upsert c =
     (let patch_onto = (\<lambda>old.
            let new = patch_info ext patch old;
                change = info_change a old new
            in if ac_balance change = None \<and> ac_nonce change = None \<and> ac_code_hash change = None
               then (Okay None, c)
               else (Okay (Some change), write_account_info_through ext a new c))
      in case loaded_account_info ext c a of
           Some info \<Rightarrow> patch_onto info
         | None \<Rightarrow>
             if account_patch_is_empty patch then (Okay None, c)
             else if allow_cold_upsert then patch_onto (default_info ext)
             else (Err \<lparr>sa_address = a, sa_patch = patch\<rparr>, c))"

section \<open>Purges\<close>

definition purge_account_inner :: "address \<Rightarrow> evm_cache \<Rightarrow> (nat \<times> bool) \<times> evm_cache" where
  "purge_account_inner a c =
     (let overlay_removed = hm_contains (db_accounts c) a;
          backend_account_removed = hm_contains (bk_accounts c) a;
          slots_removed = (case hm_get (bk_storage c) a of None \<Rightarrow> 0 | Some m \<Rightarrow> hm_len m);
          c' = c\<lparr>code_seeds := hm_remove a (code_seeds c),
                 db_accounts := hm_remove a (db_accounts c),
                 bk_accounts := hm_remove a (bk_accounts c),
                 bk_storage := hm_remove a (bk_storage c)\<rparr>
      in ((slots_removed, overlay_removed \<or> backend_account_removed), mark_base_dirty a c'))"

definition clear_slots :: "db_account \<Rightarrow> db_account" where
  "clear_slots d = d\<lparr>da_storage := []\<rparr>"

definition purge_contract_storage_inner :: "address \<Rightarrow> evm_cache \<Rightarrow> nat \<times> evm_cache" where
  "purge_contract_storage_inner a c =
     (let backend_cleared = (case hm_get (bk_storage c) a of None \<Rightarrow> 0 | Some m \<Rightarrow> hm_len m);
          c' = c\<lparr>db_accounts := hm_modify a clear_slots (db_accounts c),
                 bk_storage := hm_remove a (bk_storage c)\<rparr>
      in (backend_cleared, mark_base_dirty a c'))"

fun remove_counting ::
  "u256 list \<Rightarrow> (u256, u256) hashmap \<Rightarrow> nat \<Rightarrow> (u256, u256) hashmap \<times> nat" where
  "remove_counting [] m n = (m, n)"
| "remove_counting (s # ss) m n =
     remove_counting ss (hm_remove s m) (if hm_contains m s then Suc n else n)"

definition remove_slots :: "u256 list \<Rightarrow> db_account \<Rightarrow> db_account" where
  "remove_slots ss d = d\<lparr>da_storage := fst (remove_counting ss (da_storage d) 0)\<rparr>"

definition purge_contract_slots_inner :: "address \<Rightarrow> u256 list \<Rightarrow> evm_cache \<Rightarrow> nat \<times> evm_cache" where
  "purge_contract_slots_inner a ss c =
     (let c1 = c\<lparr>db_accounts := hm_modify a (remove_slots ss) (db_accounts c)\<rparr>;
          (storage, backend_removed) =
            (case hm_get (bk_storage c1) a of
               None \<Rightarrow> (bk_storage c1, 0)
             | Some m \<Rightarrow> (let (m', n) = remove_counting ss m 0
                          in (hm_insert a m' (bk_storage c1), n)))
      in (backend_removed, mark_base_dirty a (c1\<lparr>bk_storage := storage\<rparr>)))"

definition apply_purge :: "address \<Rightarrow> purge_scope \<Rightarrow> evm_cache \<Rightarrow> purge_record \<times> evm_cache" where
  "apply_purge a scope c =
     (case scope of
        PurgeAccount \<Rightarrow>
          (let ((slots_removed, account_removed), c') = purge_account_inner a c
           in (\<lparr>pr_address = a, pr_scope = PurgeAccount, pr_slots_removed = slots_removed,
                pr_account_removed = account_removed\<rparr>, c'))
      | AllStorage \<Rightarrow>
          (let (slots_removed, c') = purge_contract_storage_inner a c
           in (\<lparr>pr_address = a, pr_scope = AllStorage, pr_slots_removed = slots_removed,
                pr_account_removed = False\<rparr>, c'))
      | Slots ss \<Rightarrow>
          (let (slots_removed, c') = purge_contract_slots_inner a ss c
           in (\<lparr>pr_address = a, pr_scope = Slots ss, pr_slots_removed = slots_removed,
                pr_account_removed = False\<rparr>, c')))"

end
