(* ===== verification/Cache_Apply.thy ===== *)
theory Cache_Apply
  imports Evm_Cache "HOL-Library.Monad_Syntax"
begin

text \<open>
  \<open>EvmCache::apply_update\<close>, \<open>apply_updates\<close> and the operations built on them
  (\<^verbatim>\<open>src/cache/mod.rs\<close>): the single-update primitive, the batched form with its slot-run
  fast path, fresh injection, slot verification and the purge wrappers.

  A Rust panic (\<open>expect\<close>, \<open>unreachable!\<close>, a panic of the caller's fetcher) is \<open>None\<close>; \<open>apply_update_total\<close> and
  \<open>apply_updates_total\<close> show that none is reached.
\<close>

section \<open>The single-update primitive\<close>

definition slot_diff :: "slot_change option \<Rightarrow> state_diff" where
  "slot_diff ch = (case ch of None \<Rightarrow> empty_diff | Some x \<Rightarrow> empty_diff\<lparr>slots := [x]\<rparr>)"

definition account_diff :: "account_change option \<Rightarrow> state_diff" where
  "account_diff ch = (case ch of None \<Rightarrow> empty_diff | Some x \<Rightarrow> empty_diff\<lparr>accounts := [x]\<rparr>)"

definition masked_word :: "u256 \<Rightarrow> u256 \<Rightarrow> u256 \<Rightarrow> u256" where
  "masked_word old bits value = (old AND NOT bits) OR (value AND bits)"

text \<open>The shared tail of the hot \<open>SlotDelta\<close> and \<open>SlotMasked\<close> arms.\<close>

definition write_hot_slot ::
  "address \<Rightarrow> u256 \<Rightarrow> u256 \<Rightarrow> u256 \<Rightarrow> evm_cache \<Rightarrow> state_diff \<times> evm_cache" where
  "write_hot_slot a s old new c =
     (slot_diff (then_some (old \<noteq> new) \<lparr>sc_address = a, sc_slot = s, sc_old = old, sc_new = new\<rparr>),
      write_slot_through a s new c)"

fun apply_update_arm ::
  "revm_ext \<Rightarrow> state_update \<Rightarrow> evm_cache \<Rightarrow> (state_diff \<times> evm_cache) option" where
  "apply_update_arm ext (Slot a s v) c =
     (let (change, c') = apply_slot a s v c in Some (slot_diff change, c'))"
| "apply_update_arm ext (SlotDelta a s delta) c =
     (case cached_storage_value c a s of
        Some current \<Rightarrow> Some (write_hot_slot a s current (slot_delta_apply delta current) c)
      | None \<Rightarrow> Some (empty_diff\<lparr>skipped := [\<lparr>sd_address = a, sd_slot = s, sd_delta = delta\<rparr>]\<rparr>, c))"
| "apply_update_arm ext (SlotMasked a s bits value) c =
     (case cached_storage_value c a s of
        Some old \<Rightarrow> Some (write_hot_slot a s old (masked_word old bits value) c)
      | None \<Rightarrow> Some (empty_diff\<lparr>skipped_masks :=
            [\<lparr>sm_address = a, sm_slot = s, sm_mask = bits, sm_value = value\<rparr>]\<rparr>, c))"
| "apply_update_arm ext (BalanceDelta a delta) c =
     (case apply_balance_delta ext a delta c of
        (Inr change, c') \<Rightarrow> Some (account_diff change, c')
      | (Inl sk, c') \<Rightarrow> Some (empty_diff\<lparr>skipped_balances := [sk]\<rparr>, c'))"
| "apply_update_arm ext (Account a patch) c =
     (case apply_account_patch ext a patch False c of
        (Inr change, c') \<Rightarrow> Some (account_diff change, c')
      | (Inl sk, c') \<Rightarrow> Some (empty_diff\<lparr>skipped_accounts := [sk]\<rparr>, c'))"
| "apply_update_arm ext (AccountUpsert a patch) c =
     (case apply_account_patch ext a patch True c of
        (Inr change, c') \<Rightarrow> Some (account_diff change, c')
      | (Inl _, _) \<Rightarrow> None)"
| "apply_update_arm ext (Purge a scope) c =
     (let (rec, c') = apply_purge a scope c in Some (empty_diff\<lparr>purged := [rec]\<rparr>, c'))"

definition apply_update ::
  "revm_ext \<Rightarrow> state_update \<Rightarrow> evm_cache \<Rightarrow> (state_diff \<times> evm_cache) option" where
  "apply_update ext u c = apply_update_arm ext u (bump_snapshot_generation c)"

section \<open>The batched form\<close>

text \<open>
  \<open>apply_slot_run\<close> works on the two layers it borrows, collects the addresses it wrote, and marks
  them dirty after the storage guard is dropped.
\<close>

record slot_run =
  run_overlay :: overlay_map
  run_storage :: storage_map
  run_dirtied :: "address list"
  run_diff :: state_diff

definition run_write :: "address \<Rightarrow> u256 \<Rightarrow> u256 \<Rightarrow> u256 \<Rightarrow> slot_run \<Rightarrow> slot_run" where
  "run_write a s old new r =
     (let (overlay, storage) = write_slot_into (run_overlay r) (run_storage r) a s new
      in r\<lparr>run_overlay := overlay, run_storage := storage,
           run_dirtied := run_dirtied r @ [a],
           run_diff := (if old \<noteq> new
              then (run_diff r)\<lparr>slots := slots (run_diff r) @
                     [\<lparr>sc_address = a, sc_slot = s, sc_old = old, sc_new = new\<rparr>]\<rparr>
              else run_diff r)\<rparr>)"

fun slot_run_step :: "state_update \<Rightarrow> slot_run \<Rightarrow> slot_run option" where
  "slot_run_step (Slot a s v) r =
     Some (run_write a s
       (unwrap_or (read_slot_account_state_aware (run_overlay r) (run_storage r) a s) 0) v r)"
| "slot_run_step (SlotDelta a s delta) r =
     (case read_slot_account_state_aware (run_overlay r) (run_storage r) a s of
        Some current \<Rightarrow> Some (run_write a s current (slot_delta_apply delta current) r)
      | None \<Rightarrow> Some (r\<lparr>run_diff := (run_diff r)\<lparr>skipped := skipped (run_diff r) @
            [\<lparr>sd_address = a, sd_slot = s, sd_delta = delta\<rparr>]\<rparr>\<rparr>))"
| "slot_run_step _ r = None"

fun slot_run_loop :: "state_update list \<Rightarrow> slot_run \<Rightarrow> slot_run option" where
  "slot_run_loop [] r = Some r"
| "slot_run_loop (u # us) r = Option.bind (slot_run_step u r) (slot_run_loop us)"

definition apply_slot_run ::
  "state_update list \<Rightarrow> state_diff \<Rightarrow> evm_cache \<Rightarrow> (state_diff \<times> evm_cache) option" where
  "apply_slot_run run diff c =
     Option.bind (slot_run_loop run
         \<lparr>run_overlay = db_accounts c, run_storage = bk_storage c, run_dirtied = [], run_diff = diff\<rparr>)
       (\<lambda>r. Some (run_diff r,
          fold mark_base_dirty (run_dirtied r)
            (c\<lparr>db_accounts := run_overlay r, bk_storage := run_storage r\<rparr>)))"

function apply_updates_loop ::
  "revm_ext \<Rightarrow> state_update list \<Rightarrow> state_diff \<Rightarrow> evm_cache \<Rightarrow> (state_diff \<times> evm_cache) option" where
  "apply_updates_loop ext [] diff c = Some (diff, c)"
| "apply_updates_loop ext (u # us) diff c =
     (if is_slot_run u
      then Option.bind (apply_slot_run (takeWhile is_slot_run (u # us)) diff c)
             (\<lambda>(diff', c'). apply_updates_loop ext (dropWhile is_slot_run (u # us)) diff' c')
      else Option.bind (apply_update ext u c)
             (\<lambda>(d, c'). apply_updates_loop ext us (diff_merge diff d) c'))"
  by pat_completeness auto
termination
  by (relation "measure (\<lambda>(ext, us, diff, c). length us)")
    (auto simp: le_imp_less_Suc length_dropWhile_le)

definition apply_updates ::
  "revm_ext \<Rightarrow> state_update list \<Rightarrow> evm_cache \<Rightarrow> (state_diff \<times> evm_cache) option" where
  "apply_updates ext us c =
     apply_updates_loop ext us empty_diff (if us \<noteq> [] then bump_snapshot_generation c else c)"

section \<open>Injection and verification\<close>

definition inject_storage_batch :: "(address \<times> u256 \<times> u256) list \<Rightarrow> evm_cache \<Rightarrow> evm_cache" where
  "inject_storage_batch results c =
     fold (\<lambda>(a, _, _). mark_base_dirty a) results
       (c\<lparr>bk_storage := fold (\<lambda>(a, s, v). write_backend_slot a s v) results (bk_storage c)\<rparr>)"

definition inject_storage_batch_fresh ::
  "revm_ext \<Rightarrow> (address \<times> u256 \<times> u256) list \<Rightarrow> evm_cache \<Rightarrow> evm_cache option" where
  "inject_storage_batch_fresh ext results c =
     map_option snd (apply_updates ext (map (\<lambda>(a, s, v). Slot a s v) results) c)"

record prewarm_report =
  pw_loaded :: nat
  pw_failed :: "(address \<times> u256 \<times> string) list"

fun split_fetched ::
  "(address \<times> u256 \<times> (string + u256)) list
     \<Rightarrow> (address \<times> u256 \<times> u256) list \<times> (address \<times> u256 \<times> string) list" where
  "split_fetched [] = ([], [])"
| "split_fetched ((a, s, r) # rs) =
     (let (oks, errs) = split_fetched rs
      in case r of Inr v \<Rightarrow> ((a, s, v) # oks, errs) | Inl e \<Rightarrow> (oks, (a, s, e) # errs))"

definition prewarm_slots :: "slot_key list \<Rightarrow> evm_cache \<Rightarrow> (prewarm_report \<times> evm_cache) option" where
  "prewarm_slots requests c =
     (case storage_batch_fetcher c of
        None \<Rightarrow> Some (\<lparr>pw_loaded = 0,
                  pw_failed = map (\<lambda>(a, s). (a, s, ''no storage batch fetcher installed'')) requests\<rparr>, c)
      | Some fetcher \<Rightarrow>
          (case fetcher requests (block c) of
             None \<Rightarrow> None
           | Some results \<Rightarrow>
               (let (to_inject, failed) = split_fetched results
                in Some (\<lparr>pw_loaded = length to_inject, pw_failed = failed\<rparr>, inject_storage_batch to_inject c))))"

datatype slot_fetch = FetchValue u256 | FetchZero | FetchFailed string | NotAttempted

record slot_outcome =
  so_address :: address
  so_slot :: u256
  so_fetch :: slot_fetch

datatype cache_error =
    MissingStorageBatchFetcher
  | ReconcileFetchFailed nat
  | MissingAccountFieldsFetcher
  | CodeSeedEmpty address
  | CodeSeedConflict address b256 b256
  | MissingSourceBytecode address
  | MissingRuntimeCode string address
  | MissingTargetAccount address
  | TargetAccountFetch address string

fun classify :: "string + u256 \<Rightarrow> slot_fetch" where
  "classify (Inr v) = (if v \<noteq> 0 then FetchValue v else FetchZero)"
| "classify (Inl e) = FetchFailed e"

definition fetch_outcome :: "address \<times> u256 \<times> (string + u256) \<Rightarrow> slot_outcome" where
  "fetch_outcome r = \<lparr>so_address = fst r, so_slot = fst (snd r), so_fetch = classify (snd (snd r))\<rparr>"

text \<open>The change-detection half of the loop body of \<open>verify_slots_core\<close>.\<close>

fun detect_change ::
  "(slot_key \<times> u256 option) list \<Rightarrow> address \<times> u256 \<times> (string + u256) \<Rightarrow> slot_change option" where
  "detect_change cached (a, s, Inl _) = None"
| "detect_change cached (a, s, Inr fresh) =
     (let old = unwrap_or (Option.bind (hm_get cached (a, s)) id) 0
      in then_some (fresh \<noteq> old) \<lparr>sc_address = a, sc_slot = s, sc_old = old, sc_new = fresh\<rparr>)"

definition verify_slots_core ::
  "revm_ext \<Rightarrow> slot_key list \<Rightarrow> evm_cache
     \<Rightarrow> (cache_error + (slot_change list \<times> slot_outcome list) \<times> evm_cache) option" where
  "verify_slots_core ext keys c =
     (if keys = [] then Some (Okay (([], []), c))
      else case storage_batch_fetcher c of
        None \<Rightarrow> Some (Err MissingStorageBatchFetcher)
      | Some fetcher \<Rightarrow>
          (let cached = fold (\<lambda>(a, s). hm_insert (a, s) (cached_storage_value c a s)) keys []
           in case fetcher keys (block c) of
                None \<Rightarrow> None
              | Some results \<Rightarrow>
                  (let outcomes = map fetch_outcome results;
                       changed = List.map_filter (detect_change cached) results;
                       to_inject = map (\<lambda>ch. (sc_address ch, sc_slot ch, sc_new ch)) changed
                   in if to_inject \<noteq> []
                      then map_option (\<lambda>c'. Okay ((changed, outcomes), c'))
                             (inject_storage_batch_fresh ext to_inject c)
                      else Some (Okay ((changed, outcomes), c)))))"

fun fetched_ok :: "slot_outcome \<Rightarrow> bool" where
  "fetched_ok o' = (case so_fetch o' of FetchValue _ \<Rightarrow> True | FetchZero \<Rightarrow> True | _ \<Rightarrow> False)"

definition verify_slots_inner ::
  "revm_ext \<Rightarrow> slot_key list \<Rightarrow> evm_cache \<Rightarrow> (cache_error + (slot_change list \<times> nat) \<times> evm_cache) option" where
  "verify_slots_inner ext keys c =
     map_option (\<lambda>r. case r of Inl e \<Rightarrow> Err e
       | Inr ((changed, outcomes), c') \<Rightarrow> Okay ((changed, length (filter fetched_ok outcomes)), c'))
       (verify_slots_core ext keys c)"

definition verify_slots ::
  "revm_ext \<Rightarrow> slot_key list \<Rightarrow> evm_cache \<Rightarrow> (cache_error + slot_change list \<times> evm_cache) option" where
  "verify_slots ext keys c =
     map_option (\<lambda>r. case r of Inl e \<Rightarrow> Err e | Inr ((changed, _), c') \<Rightarrow> Okay (changed, c'))
       (verify_slots_inner ext keys c)"

text \<open>
  On the error path of \<open>reconcile_slots\<close> the cache keeps what \<open>verify_slots_inner\<close> did, so the
  result carries the cache in both cases.
\<close>

definition reconcile_slots ::
  "revm_ext \<Rightarrow> slot_key list \<Rightarrow> evm_cache \<Rightarrow> ((cache_error + slot_change list) \<times> evm_cache) option" where
  "reconcile_slots ext keys c =
     map_option (\<lambda>r. case r of
         Inl e \<Rightarrow> (Err e, c)
       | Inr ((changed, ok), c') \<Rightarrow>
           (if keys \<noteq> [] \<and> ok = 0 then Err (ReconcileFetchFailed (length keys)) else Okay changed, c'))
       (verify_slots_inner ext keys c)"

section \<open>Purge wrappers and inspection\<close>

definition purge_account :: "revm_ext \<Rightarrow> address \<Rightarrow> evm_cache \<Rightarrow> evm_cache option" where
  "purge_account ext a c = map_option snd (apply_update ext (Purge a PurgeAccount) c)"

definition first_slots_removed :: "state_diff \<Rightarrow> nat" where
  "first_slots_removed d = (case purged d of [] \<Rightarrow> 0 | rec # _ \<Rightarrow> pr_slots_removed rec)"

definition purge_contract_storage :: "revm_ext \<Rightarrow> address \<Rightarrow> evm_cache \<Rightarrow> (nat \<times> evm_cache) option" where
  "purge_contract_storage ext a c =
     map_option (\<lambda>(d, c'). (first_slots_removed d, c')) (apply_update ext (Purge a AllStorage) c)"

definition purge_contract_slots ::
  "revm_ext \<Rightarrow> address \<Rightarrow> u256 list \<Rightarrow> evm_cache \<Rightarrow> (nat \<times> evm_cache) option" where
  "purge_contract_slots ext a ss c =
     map_option (\<lambda>(d, c'). (first_slots_removed d, c')) (apply_update ext (Purge a (Slots ss)) c)"

fun purge_contracts_loop :: "address list \<Rightarrow> nat \<Rightarrow> evm_cache \<Rightarrow> nat \<times> evm_cache" where
  "purge_contracts_loop [] purged_n c = (purged_n, c)"
| "purge_contracts_loop (a # rest) purged_n c =
     purge_contracts_loop rest
       (purged_n + (case hm_get (bk_storage c) a of None \<Rightarrow> 0 | Some m \<Rightarrow> hm_len m))
       (c\<lparr>db_accounts := hm_modify a clear_slots (db_accounts c),
          bk_storage := hm_remove a (bk_storage c)\<rparr>)"

definition purge_contracts_storage :: "address list \<Rightarrow> evm_cache \<Rightarrow> nat \<times> evm_cache" where
  "purge_contracts_storage as c =
     (let (purged_n, c') = purge_contracts_loop as 0 c in (purged_n, invalidate_base c'))"

definition purge_all_storage :: "evm_cache \<Rightarrow> nat \<times> evm_cache" where
  "purge_all_storage c =
     (sum_list (map (hm_len \<circ> snd) (bk_storage c)),
      invalidate_base (c\<lparr>db_accounts := hm_map_values clear_slots (db_accounts c), bk_storage := []\<rparr>))"

definition has_contract_storage :: "evm_cache \<Rightarrow> address \<Rightarrow> bool" where
  "has_contract_storage c a =
     (case hm_get (bk_storage c) a of None \<Rightarrow> False | Some m \<Rightarrow> m \<noteq> [])"

definition contract_storage_slot_count :: "evm_cache \<Rightarrow> address \<Rightarrow> nat" where
  "contract_storage_slot_count c a = (case hm_get (bk_storage c) a of None \<Rightarrow> 0 | Some m \<Rightarrow> hm_len m)"

definition cache_db_storage_slot_count :: "evm_cache \<Rightarrow> address \<Rightarrow> nat" where
  "cache_db_storage_slot_count c a =
     (case hm_get (db_accounts c) a of None \<Rightarrow> 0 | Some d \<Rightarrow> hm_len (da_storage d))"

definition enumerate_contract_slots :: "evm_cache \<Rightarrow> address \<Rightarrow> u256 list" where
  "enumerate_contract_slots c a =
     hs_extend
       (hs_extend [] (case hm_get (db_accounts c) a of None \<Rightarrow> [] | Some d \<Rightarrow> map fst (da_storage d)))
       (case hm_get (bk_storage c) a of None \<Rightarrow> [] | Some m \<Rightarrow> map fst m)"

definition all_cached_contract_addresses :: "evm_cache \<Rightarrow> address list" where
  "all_cached_contract_addresses c =
     hs_extend
       (hs_extend [] (map fst (filter (\<lambda>(a, d). da_storage d \<noteq> []) (db_accounts c))))
       (map fst (bk_storage c))"

definition checkpoint :: "evm_cache \<Rightarrow> overlay_map \<times> (u256, b256) hashmap" where
  "checkpoint c = (db_accounts c, db_block_hashes c)"

definition restore :: "overlay_map \<times> (u256, b256) hashmap \<Rightarrow> evm_cache \<Rightarrow> evm_cache" where
  "restore cp c = c\<lparr>db_accounts := fst cp, db_block_hashes := snd cp\<rparr>"

end
