(* ===== verification/Cache_Laws.thy ===== *)
theory Cache_Laws
  imports Cache_Apply
begin

text \<open>
  Laws of the two-layer cache. \<open>slot_store\<close> is the interface the update path needs of a layered
  store (a write is what the next read of that slot returns, and no other slot moves); it is
  interpreted on the cache, on the pair of borrowed layers of a slot run and on the backend
  alone. \<open>storage_view\<close> is the abstract state: what a read of each slot returns, and which
  accounts answer zero for a missing slot. \<open>spec_update\<close> is the specification of an update on
  that abstract state, which \<open>apply_update\<close> implements.
\<close>

section \<open>The store interface\<close>

locale slot_store =
  fixes read :: "'s \<Rightarrow> address \<Rightarrow> u256 \<Rightarrow> u256 option"
    and "write" :: "address \<Rightarrow> u256 \<Rightarrow> u256 \<Rightarrow> 's \<Rightarrow> 's"
  assumes read_write: "read (write a s v st) b t = (if b = a \<and> t = s then Some v else read st b t)"
begin

lemma read_own_write: "read (write a s v st) a s = Some v"
  by (simp add: read_write)

lemma read_other_write: "(b, t) \<noteq> (a, s) \<Longrightarrow> read (write a s v st) b t = read st b t"
  by (auto simp: read_write)

lemma write_same_value: "read st a s = Some v \<Longrightarrow> read (write a s v st) = read st"
  by (auto simp: fun_eq_iff read_write)

lemma read_writes:
  "read (fold (\<lambda>(a, s, v). write a s v) ws st) b t =
     (case map_of (rev (map (\<lambda>(a, s, v). ((a, s), v)) ws)) (b, t) of
        Some v \<Rightarrow> Some v | None \<Rightarrow> read st b t)"
proof (induction ws rule: rev_induct)
  case Nil
  then show ?case by simp
next
  case (snoc w ws)
  then show ?case by (cases w) (auto simp: read_write)
qed

end

lemma backend_slot_write:
  "backend_slot (write_backend_slot a s v m) b t =
     (if b = a \<and> t = s then Some v else backend_slot m b t)"
  by (auto simp: backend_slot_def write_backend_slot_def hm_or_default_def split: option.splits)

lemma read_slot_write:
  "read_slot_account_state_aware (hm_modify a (insert_slot s v) ov) (write_backend_slot a s v m) b t =
     (if b = a \<and> t = s then Some v else read_slot_account_state_aware ov m b t)"
  by (auto simp: read_slot_account_state_aware_def backend_slot_write insert_slot_def
      split: option.splits)

text \<open>The accessor of the cache and the read over borrowed layers are the same function.\<close>

lemma cached_storage_value_eq:
  "cached_storage_value c a s = read_slot_account_state_aware (db_accounts c) (bk_storage c) a s"
  by (simp add: cached_storage_value_def read_slot_account_state_aware_def)

lemma mark_base_dirty_fields [simp]:
  "db_accounts (mark_base_dirty a c) = db_accounts c"
  "bk_storage (mark_base_dirty a c) = bk_storage c"
  "bk_accounts (mark_base_dirty a c) = bk_accounts c"
  "snapshot_generation (mark_base_dirty a c) = snapshot_generation c"
  "base_dirty (mark_base_dirty a c) = List.insert a (base_dirty c)"
  by (simp_all add: mark_base_dirty_def)

lemma bump_fields [simp]:
  "db_accounts (bump_snapshot_generation c) = db_accounts c"
  "bk_storage (bump_snapshot_generation c) = bk_storage c"
  "bk_accounts (bump_snapshot_generation c) = bk_accounts c"
  "base_dirty (bump_snapshot_generation c) = base_dirty c"
  "snapshot_generation (bump_snapshot_generation c) = snapshot_generation c + 1"
  by (simp_all add: bump_snapshot_generation_def)

lemma write_slot_through_fields [simp]:
  "db_accounts (write_slot_through a s v c) = hm_modify a (insert_slot s v) (db_accounts c)"
  "bk_storage (write_slot_through a s v c) = write_backend_slot a s v (bk_storage c)"
  "bk_accounts (write_slot_through a s v c) = bk_accounts c"
  "snapshot_generation (write_slot_through a s v c) = snapshot_generation c"
  by (simp_all add: write_slot_through_def)

interpretation cache_store: slot_store cached_storage_value write_slot_through
  by unfold_locales (simp add: cached_storage_value_eq read_slot_write)

interpretation layer_store: slot_store
  "\<lambda>(ov, m). read_slot_account_state_aware ov m" "\<lambda>a s v (ov, m). write_slot_into ov m a s v"
  by unfold_locales (auto simp: write_slot_into_def read_slot_write)

interpretation backend_store: slot_store backend_slot write_backend_slot
  by unfold_locales (rule backend_slot_write)

section \<open>The abstract storage view\<close>

type_synonym storage_view = "(address \<Rightarrow> u256 \<Rightarrow> u256 option) \<times> (address \<Rightarrow> bool)"

definition reads_zero_at :: "evm_cache \<Rightarrow> address \<Rightarrow> bool" where
  "reads_zero_at c a =
     (case hm_get (db_accounts c) a of None \<Rightarrow> False | Some d \<Rightarrow> reads_missing_as_zero (da_state d))"

definition storage_view :: "evm_cache \<Rightarrow> storage_view" where
  "storage_view c = (cached_storage_value c, reads_zero_at c)"

definition view_set :: "address \<Rightarrow> u256 \<Rightarrow> u256 option \<Rightarrow> storage_view \<Rightarrow> storage_view" where
  "view_set a s v w = ((fst w)(a := (fst w a)(s := v)), snd w)"

text \<open>What a missing slot of an account answers.\<close>

definition view_missing :: "storage_view \<Rightarrow> address \<Rightarrow> u256 option" where
  "view_missing w a = (if snd w a then Some 0 else None)"

fun spec_update :: "state_update \<Rightarrow> storage_view \<Rightarrow> storage_view" where
  "spec_update (Slot a s v) w = view_set a s (Some v) w"
| "spec_update (SlotDelta a s d) w = view_set a s (map_option (slot_delta_apply d) (fst w a s)) w"
| "spec_update (SlotMasked a s m v) w =
     view_set a s (map_option (\<lambda>old. masked_word old m v) (fst w a s)) w"
| "spec_update (Purge a PurgeAccount) w = ((fst w)(a := \<lambda>_. None), (snd w)(a := False))"
| "spec_update (Purge a AllStorage) w = ((fst w)(a := \<lambda>_. view_missing w a), snd w)"
| "spec_update (Purge a (Slots ss)) w =
     ((fst w)(a := \<lambda>s. if s \<in> set ss then view_missing w a else fst w a s), snd w)"
| "spec_update (BalanceDelta _ _) w = w"
| "spec_update (Account _ _) w = w"
| "spec_update (AccountUpsert _ _) w = w"

lemma view_set_same: "fst w a s = v \<Longrightarrow> view_set a s v w = w"
  by (cases w) (auto simp: view_set_def fun_eq_iff)

lemma storage_view_bump [simp]: "storage_view (bump_snapshot_generation c) = storage_view c"
  by (simp add: storage_view_def cached_storage_value_eq reads_zero_at_def fun_eq_iff)

lemma storage_view_dirty [simp]: "storage_view (mark_base_dirty a c) = storage_view c"
  by (simp add: storage_view_def cached_storage_value_eq reads_zero_at_def fun_eq_iff)

lemma storage_view_write_slot [simp]:
  "storage_view (write_slot_through a s v c) = view_set a s (Some v) (storage_view c)"
proof -
  have "reads_zero_at (write_slot_through a s v c) = reads_zero_at c"
    by (auto simp: fun_eq_iff reads_zero_at_def insert_slot_def split: option.splits)
  then show ?thesis
    by (auto simp: storage_view_def view_set_def fun_eq_iff cache_store.read_write)
qed

lemma fst_storage_view [simp]: "fst (storage_view c) = cached_storage_value c"
  by (simp add: storage_view_def)

lemma write_hot_slot_simps [simp]:
  "snd (write_hot_slot a s old new c) = write_slot_through a s new c"
  by (simp add: write_hot_slot_def)

subsection \<open>Purges on the view\<close>

lemma remove_counting_get:
  "map_of (fst (remove_counting ss m n)) t = (if t \<in> set ss then None else map_of m t)"
  by (induction ss arbitrary: m n) auto

lemma remove_counting_ok [simp]: "hm_ok m \<Longrightarrow> hm_ok (fst (remove_counting ss m n))"
  by (induction ss arbitrary: m n) auto

lemma storage_view_purge_account:
  "storage_view (snd (purge_account_inner a c)) = spec_update (Purge a PurgeAccount) (storage_view c)"
  by (auto simp: purge_account_inner_def Let_def storage_view_def fun_eq_iff
      cached_storage_value_def reads_zero_at_def backend_slot_def split: option.splits)

lemma storage_view_purge_storage:
  "storage_view (snd (purge_contract_storage_inner a c)) = spec_update (Purge a AllStorage) (storage_view c)"
  by (auto simp: purge_contract_storage_inner_def Let_def storage_view_def fun_eq_iff view_missing_def
      cached_storage_value_def reads_zero_at_def backend_slot_def clear_slots_def split: option.splits)

lemma purge_slots_fields:
  "db_accounts (snd (purge_contract_slots_inner a ss c)) = hm_modify a (remove_slots ss) (db_accounts c)"
  "hm_get (bk_storage (snd (purge_contract_slots_inner a ss c))) b =
     (if b = a then map_option (\<lambda>m. fst (remove_counting ss m 0)) (hm_get (bk_storage c) a)
      else hm_get (bk_storage c) b)"
  by (auto simp: purge_contract_slots_inner_def Let_def split: option.splits prod.splits)

lemma storage_view_purge_slots:
  "storage_view (snd (purge_contract_slots_inner a ss c)) = spec_update (Purge a (Slots ss)) (storage_view c)"
  by (auto simp: storage_view_def fun_eq_iff view_missing_def purge_slots_fields remove_counting_get
      cached_storage_value_def reads_zero_at_def backend_slot_def remove_slots_def
      split: option.splits bind_splits)

lemma snd_apply_purge:
  "snd (apply_purge a scope c) =
     (case scope of
        PurgeAccount \<Rightarrow> snd (purge_account_inner a c)
      | AllStorage \<Rightarrow> snd (purge_contract_storage_inner a c)
      | Slots ss \<Rightarrow> snd (purge_contract_slots_inner a ss c))"
  by (cases scope) (auto simp: apply_purge_def split: prod.splits)

lemma storage_view_purge:
  "storage_view (snd (apply_purge a scope c)) = spec_update (Purge a scope) (storage_view c)"
  by (cases scope) (simp_all only: snd_apply_purge purge_scope.case storage_view_purge_account
      storage_view_purge_storage storage_view_purge_slots)

subsection \<open>Account writes on the view\<close>

definition overlay_not_existing :: "evm_cache \<Rightarrow> address \<Rightarrow> bool" where
  "overlay_not_existing c a \<longleftrightarrow> (\<exists>d. hm_get (db_accounts c) a = Some d \<and> da_state d = NotExisting)"

lemma normalize_nonzero [simp]:
  "revm_ok ext \<Longrightarrow> ai_code_hash (normalize_code_hash ext i) \<noteq> 0"
  by (auto simp: normalize_code_hash_def revm_ok_def)

lemma insert_account_info_other:
  "revm_ok ext \<Longrightarrow> b \<noteq> a \<Longrightarrow> hm_get (insert_account_info ext a i m) b = hm_get m b"
  unfolding revm_ok_def insert_account_info_ok_def by blast

lemma insert_account_info_hm_ok:
  "revm_ok ext \<Longrightarrow> hm_ok m \<Longrightarrow> hm_ok (insert_account_info ext a i m)"
  unfolding revm_ok_def insert_account_info_ok_def by blast

lemma insert_account_info_same:
  assumes "revm_ok ext" and "ai_code_hash i \<noteq> 0"
  obtains d where "hm_get (insert_account_info ext a i m) a = Some d" and "da_info d = i"
    and "hm_get m a = None \<Longrightarrow> da_storage d = [] \<and> \<not> reads_missing_as_zero (da_state d)"
    and "\<And>d0. hm_get m a = Some d0 \<Longrightarrow>
           da_storage d = da_storage d0 \<and> (da_state d0 \<noteq> NotExisting \<longrightarrow> da_state d = da_state d0)"
proof -
  from assms obtain d where d: "hm_get (insert_account_info ext a i m) a = Some d" "da_info d = i"
    and c: "case hm_get m a of
                None \<Rightarrow> da_storage d = [] \<and> \<not> reads_missing_as_zero (da_state d)
              | Some d0 \<Rightarrow> da_storage d = da_storage d0 \<and>
                  (da_state d0 \<noteq> NotExisting \<longrightarrow> da_state d = da_state d0)"
    unfolding revm_ok_def insert_account_info_ok_def by meson
  show ?thesis
    by (rule that [OF d]) (use c in auto)
qed

lemma storage_view_write_info:
  assumes ext: "revm_ok ext" and ne: "\<not> overlay_not_existing c a"
  shows "storage_view (write_account_info_through ext a i c) = storage_view c"
proof (cases "hm_get (db_accounts c) a")
  case None
  then show ?thesis
    by (simp add: write_account_info_through_def Let_def storage_view_def fun_eq_iff
        cached_storage_value_eq reads_zero_at_def)
next
  case (Some d0)
  with ne have st: "da_state d0 \<noteq> NotExisting" by (simp add: overlay_not_existing_def)
  obtain d where "hm_get (insert_account_info ext a (normalize_code_hash ext i) (db_accounts c)) a = Some d"
    and "da_storage d = da_storage d0" and "da_state d = da_state d0"
    using insert_account_info_same [OF ext normalize_nonzero [OF ext]] Some st by metis
  then have "hm_get (insert_account_info ext a (normalize_code_hash ext i) (db_accounts c)) b =
      (if b = a then Some d else hm_get (db_accounts c) b)" for b
    using insert_account_info_other [OF ext] by simp
  with Some \<open>da_storage d = _\<close> \<open>da_state d = _\<close> show ?thesis
    by (auto simp: write_account_info_through_def Let_def storage_view_def fun_eq_iff
        cached_storage_value_def reads_zero_at_def split: option.splits)
qed

lemma loaded_hot_not_missing:
  "loaded_account_info ext c a = Some i \<Longrightarrow> \<not> overlay_not_existing c a"
  by (auto simp: loaded_account_info_def overlay_not_existing_def split: option.splits if_splits)

lemma storage_view_balance_delta:
  "revm_ok ext \<Longrightarrow> storage_view (snd (apply_balance_delta ext a d c)) = storage_view c"
  by (auto simp: apply_balance_delta_def Let_def storage_view_write_info loaded_hot_not_missing
      split: option.splits)

lemma storage_view_account_patch:
  "revm_ok ext \<Longrightarrow> \<not> (up \<and> overlay_not_existing c a) \<Longrightarrow>
   storage_view (snd (apply_account_patch ext a p up c)) = storage_view c"
  by (auto simp: apply_account_patch_def Let_def storage_view_write_info loaded_hot_not_missing
      split: option.splits)

section \<open>Totality\<close>

lemma upsert_never_skips: "\<exists>ch. fst (apply_account_patch ext a p True c) = Inr ch"
  by (auto simp: apply_account_patch_def Let_def split: option.splits)

lemma apply_update_arm_total: "\<exists>d c'. apply_update_arm ext u c = Some (d, c')"
proof (cases u)
  case (AccountUpsert a p)
  then show ?thesis
    using upsert_never_skips [of ext a p c]
    by (cases "apply_account_patch ext a p True c") auto
qed (auto split: option.splits prod.splits sum.splits)

lemma apply_update_is_Some: "\<exists>d c'. apply_update ext u c = Some (d, c')"
  by (simp add: apply_update_def apply_update_arm_total)

end
