(* ===== verification/Cache_Batch.thy ===== *)
theory Cache_Batch
  imports Cache_Laws
begin

text \<open>
  The batched \<open>apply_updates\<close> against its reference, one \<open>apply_update\<close> per element in order
  (\<open>apply_each\<close>). The two differ only in how often they advance the snapshot generation, so the
  comparison is made under \<open>forget_gen\<close>.
\<close>

section \<open>The reference\<close>

fun apply_each ::
  "revm_ext \<Rightarrow> state_update list \<Rightarrow> state_diff \<Rightarrow> evm_cache \<Rightarrow> (state_diff \<times> evm_cache) option" where
  "apply_each ext [] diff c = Some (diff, c)"
| "apply_each ext (u # us) diff c =
     Option.bind (apply_update ext u c) (\<lambda>(d, c'). apply_each ext us (diff_merge diff d) c')"

definition set_gen :: "u64 \<Rightarrow> evm_cache \<Rightarrow> evm_cache" where
  "set_gen g c = c\<lparr>snapshot_generation := g\<rparr>"

definition forget_gen :: "(state_diff \<times> evm_cache) option \<Rightarrow> (state_diff \<times> evm_cache) option" where
  "forget_gen r = map_option (\<lambda>(d, c). (d, set_gen 0 c)) r"

section \<open>Updates do not look at the generation\<close>

lemma set_gen_fields [simp]:
  "db_accounts (set_gen g c) = db_accounts c" "bk_storage (set_gen g c) = bk_storage c"
  "bk_accounts (set_gen g c) = bk_accounts c" "base_dirty (set_gen g c) = base_dirty c"
  "code_seeds (set_gen g c) = code_seeds c"
  by (simp_all add: set_gen_def)

lemma set_gen_set_gen [simp]: "set_gen g (set_gen h c) = set_gen g c"
  by (simp add: set_gen_def)

lemma set_gen_bump [simp]: "set_gen g (bump_snapshot_generation c) = set_gen g c"
  by (simp add: set_gen_def bump_snapshot_generation_def)

lemma bump_as_set_gen: "bump_snapshot_generation c = set_gen (snapshot_generation c + 1) c"
  by (simp add: set_gen_def bump_snapshot_generation_def)

lemma set_gen_own: "set_gen (snapshot_generation c) c = c"
  by (simp add: set_gen_def)

lemma cached_storage_value_set_gen [simp]: "cached_storage_value (set_gen g c) = cached_storage_value c"
  by (simp add: fun_eq_iff cached_storage_value_eq)

lemma loaded_account_info_set_gen [simp]: "loaded_account_info ext (set_gen g c) = loaded_account_info ext c"
  by (simp add: fun_eq_iff loaded_account_info_def split: option.splits)

lemma write_slot_through_set_gen [simp]:
  "write_slot_through a s v (set_gen g c) = set_gen g (write_slot_through a s v c)"
  by (simp add: write_slot_through_def mark_base_dirty_def set_gen_def)

lemma write_info_set_gen [simp]:
  "write_account_info_through ext a i (set_gen g c) = set_gen g (write_account_info_through ext a i c)"
  by (simp add: write_account_info_through_def mark_base_dirty_def set_gen_def Let_def)

lemma apply_purge_set_gen:
  "apply_purge a scope (set_gen g c) = map_prod id (set_gen g) (apply_purge a scope c)"
  by (cases scope)
    (auto simp: apply_purge_def purge_account_inner_def purge_contract_storage_inner_def
      purge_contract_slots_inner_def mark_base_dirty_def set_gen_def Let_def
      split: option.splits prod.splits)

lemma apply_balance_delta_set_gen:
  "apply_balance_delta ext a d (set_gen g c) = map_prod id (set_gen g) (apply_balance_delta ext a d c)"
  by (simp add: apply_balance_delta_def Let_def split: option.splits)

lemma apply_account_patch_set_gen:
  "apply_account_patch ext a p up (set_gen g c) = map_prod id (set_gen g) (apply_account_patch ext a p up c)"
  by (simp add: apply_account_patch_def Let_def split: option.splits)

lemma apply_update_arm_set_gen:
  "apply_update_arm ext u (set_gen g c) =
     map_option (\<lambda>(d, c'). (d, set_gen g c')) (apply_update_arm ext u c)"
  by (cases u)
    (auto simp: apply_slot_def write_hot_slot_def Let_def apply_purge_set_gen
      apply_balance_delta_set_gen apply_account_patch_set_gen split: option.splits prod.splits sum.splits)

lemma apply_update_forget:
  "apply_update_arm ext u c = Some (d, c') \<Longrightarrow>
   \<exists>g. apply_update ext u c = Some (d, set_gen g c')"
  by (auto simp: apply_update_def bump_as_set_gen apply_update_arm_set_gen)

lemma apply_each_set_gen:
  "forget_gen (apply_each ext us diff (set_gen g c)) = forget_gen (apply_each ext us diff c)"
proof (induction us arbitrary: diff c g)
  case Nil
  then show ?case by (simp add: forget_gen_def)
next
  case (Cons u us)
  obtain d c' where arm: "apply_update_arm ext u c = Some (d, c')"
    using apply_update_arm_total by blast
  then obtain h k where "apply_update ext u c = Some (d, set_gen h c')"
    and "apply_update ext u (set_gen g c) = Some (d, set_gen k c')"
    using apply_update_forget [OF arm] apply_update_forget [of ext u "set_gen g c"]
    by (fastforce simp: apply_update_arm_set_gen)
  then show ?case
    using Cons.IH [of "diff_merge diff d" h c'] Cons.IH [of "diff_merge diff d" k c'] by simp
qed

section \<open>Slot runs\<close>

definition run_cache :: "evm_cache \<Rightarrow> slot_run \<Rightarrow> evm_cache" where
  "run_cache c r = fold mark_base_dirty (run_dirtied r)
     (c\<lparr>db_accounts := run_overlay r, bk_storage := run_storage r\<rparr>)"

lemma fold_mark_base_dirty:
  "fold mark_base_dirty ds c = c\<lparr>base_dirty := fold List.insert ds (base_dirty c)\<rparr>"
  by (induction ds arbitrary: c) (simp_all add: mark_base_dirty_def)

lemma run_cache_fields [simp]:
  "db_accounts (run_cache c r) = run_overlay r" "bk_storage (run_cache c r) = run_storage r"
  by (simp_all add: run_cache_def fold_mark_base_dirty)

lemma run_cache_set_diff [simp]: "run_cache c (r\<lparr>run_diff := d\<rparr>) = run_cache c r"
  by (simp add: run_cache_def)

lemma write_run_cache:
  "write_slot_through a s v (run_cache c r) = run_cache c (run_write a s old v r)"
  by (simp add: write_slot_through_def run_cache_def run_write_def write_slot_into_def
      fold_mark_base_dirty mark_base_dirty_def)

lemma run_write_diff:
  "run_diff (run_write a s old v r) =
     diff_merge (run_diff r)
       (slot_diff (then_some (old \<noteq> v) \<lparr>sc_address = a, sc_slot = s, sc_old = old, sc_new = v\<rparr>))"
  by (simp add: run_write_def write_slot_into_def slot_diff_def diff_merge_def then_some_def)

lemma slot_run_step_arm:
  assumes "is_slot_run u"
  shows "\<exists>d r'. apply_update_arm ext u (run_cache c r) = Some (d, run_cache c r') \<and>
     slot_run_step u r = Some r' \<and> run_diff r' = diff_merge (run_diff r) d"
proof (cases u)
  case (Slot a s v)
  then show ?thesis
    by (simp add: apply_slot_def Let_def cached_storage_value_eq write_run_cache [symmetric] run_write_diff)
next
  case (SlotDelta a s d)
  show ?thesis
  proof (cases "read_slot_account_state_aware (run_overlay r) (run_storage r) a s")
    case None
    let ?d = "empty_diff\<lparr>skipped := [\<lparr>sd_address = a, sd_slot = s, sd_delta = d\<rparr>]\<rparr>"
    let ?r = "r\<lparr>run_diff := diff_merge (run_diff r) ?d\<rparr>"
    from None SlotDelta have "apply_update_arm ext u (run_cache c r) = Some (?d, run_cache c ?r)"
      and "slot_run_step u r = Some ?r"
      by (simp_all add: cached_storage_value_eq run_cache_set_diff diff_merge_def)
    then show ?thesis by fastforce
  next
    case (Some v)
    with SlotDelta show ?thesis
      by (simp add: cached_storage_value_eq write_hot_slot_def write_run_cache [symmetric] run_write_diff)
  qed
qed (use assms in auto)

lemma slot_run_loop_each:
  assumes "list_all is_slot_run us"
  shows "\<exists>r'. slot_run_loop us r = Some r' \<and>
     forget_gen (apply_each ext us (run_diff r) (run_cache c r)) =
     forget_gen (Some (run_diff r', run_cache c r'))"
  using assms
proof (induction us arbitrary: r)
  case Nil
  then show ?case by simp
next
  case (Cons u us)
  then obtain d r1 where arm: "apply_update_arm ext u (run_cache c r) = Some (d, run_cache c r1)"
    and step: "slot_run_step u r = Some r1" and diff: "run_diff r1 = diff_merge (run_diff r) d"
    using slot_run_step_arm [of u ext c r] by auto
  from Cons.prems Cons.IH [of r1] obtain r' where "slot_run_loop us r1 = Some r'"
    and "forget_gen (apply_each ext us (run_diff r1) (run_cache c r1)) =
      forget_gen (Some (run_diff r', run_cache c r'))" by auto
  with apply_update_forget [OF arm] step diff show ?case
    by (auto simp: apply_each_set_gen)
qed

lemma apply_slot_run_each:
  assumes "list_all is_slot_run us"
  shows "\<exists>d c'. apply_slot_run us diff c = Some (d, c') \<and>
     forget_gen (apply_each ext us diff c) = forget_gen (Some (d, c'))"
proof -
  let ?r = "\<lparr>run_overlay = db_accounts c, run_storage = bk_storage c, run_dirtied = [], run_diff = diff\<rparr>"
  have "run_cache c ?r = c" by (simp add: run_cache_def)
  then show ?thesis
    using slot_run_loop_each [OF assms, of ?r ext c]
    by (auto simp: apply_slot_run_def run_cache_def)
qed

section \<open>Equivalence\<close>

lemma apply_each_append:
  "apply_each ext (us @ vs) diff c =
     Option.bind (apply_each ext us diff c) (\<lambda>(d, c'). apply_each ext vs d c')"
  by (induction us arbitrary: diff c) (auto split: bind_splits)

lemma apply_each_forget_cong:
  assumes "forget_gen (Some (d, c)) = forget_gen (Some (d', c'))"
  shows "forget_gen (apply_each ext us d c) = forget_gen (apply_each ext us d' c')"
proof -
  from assms have "d = d'" and "set_gen 0 c = set_gen 0 c'" by (simp_all add: forget_gen_def)
  then show ?thesis by (metis apply_each_set_gen)
qed

lemma forget_gen_cases:
  "forget_gen x = forget_gen (Some y) \<Longrightarrow> \<exists>d c. x = Some (d, c) \<and> forget_gen (Some (d, c)) = forget_gen (Some y)"
  by (cases x) (auto simp: forget_gen_def)

lemma apply_updates_loop_each:
  "forget_gen (apply_updates_loop ext us diff c) = forget_gen (apply_each ext us diff c) \<and>
   (\<exists>d c'. apply_updates_loop ext us diff c = Some (d, c'))"
proof (induction ext us diff c rule: apply_updates_loop.induct)
  case (1 ext diff c)
  then show ?case by simp
next
  case (2 ext u us diff c)
  show ?case
  proof (cases "is_slot_run u")
    case True
    let ?run = "takeWhile is_slot_run (u # us)" and ?rest = "dropWhile is_slot_run (u # us)"
    have run: "list_all is_slot_run ?run" by (auto simp: list_all_iff dest: set_takeWhileD)
    obtain d c' where r: "apply_slot_run ?run diff c = Some (d, c')"
      and e: "forget_gen (apply_each ext ?run diff c) = forget_gen (Some (d, c'))"
      using apply_slot_run_each [OF run] by blast
    then obtain d2 c2 where run2: "apply_each ext ?run diff c = Some (d2, c2)"
      and eq: "forget_gen (Some (d2, c2)) = forget_gen (Some (d, c'))"
      using forget_gen_cases [OF e] by auto
    have "apply_each ext (?run @ ?rest) diff c = apply_each ext ?rest d2 c2"
      by (simp only: apply_each_append run2 bind.bind_lunit prod.case)
    then have "forget_gen (apply_each ext (u # us) diff c) = forget_gen (apply_each ext ?rest d c')"
      by (simp only: takeWhile_dropWhile_id apply_each_forget_cong [OF eq])
    moreover have "forget_gen (apply_updates_loop ext ?rest d c') = forget_gen (apply_each ext ?rest d c') \<and>
        (\<exists>d2 c2. apply_updates_loop ext ?rest d c' = Some (d2, c2))"
      by (rule "2.IH"(1) [OF True r refl])
    ultimately show ?thesis using True r by simp
  next
    case False
    obtain d c' where "apply_update ext u c = Some (d, c')"
      using apply_update_is_Some by blast
    with False "2.IH"(2) [OF False this refl] show ?thesis by simp
  qed
qed

lemma apply_updates_each:
  "forget_gen (apply_updates ext us c) = forget_gen (apply_each ext us empty_diff c)"
proof -
  have "forget_gen (apply_updates_loop ext us empty_diff c') = forget_gen (apply_each ext us empty_diff c')" for c'
    using apply_updates_loop_each by blast
  then show ?thesis
    by (simp add: apply_updates_def bump_as_set_gen apply_each_set_gen del: apply_each.simps)
qed

lemma apply_updates_is_Some: "\<exists>d c'. apply_updates ext us c = Some (d, c')"
  using apply_updates_loop_each by (auto simp: apply_updates_def)

end
