(* ===== verification/Cache_Props.thy ===== *)
theory Cache_Props
  imports Cache_Batch
begin

text \<open>
  The properties of the two-layer update path: refinement of the abstract storage view, exactness
  of the returned diff, cold-awareness, idempotence, the account path, purge accounting, the
  snapshot generation, fresh injection and slot verification.
\<close>

section \<open>A concrete instance of the external library\<close>

text \<open>Used by the witnesses only: it shows that the hypotheses about \<open>revm\<close> can hold.\<close>

definition sample_ext :: revm_ext where
  "sample_ext = \<lparr>keccak_empty = 1, hash_slow = (\<lambda>c. if c = [] then 1 else 2),
     default_info = \<lparr>ai_balance = 0, ai_nonce = 0, ai_code_hash = 1, ai_code = None\<rparr>,
     insert_account_info = (\<lambda>a i m. hm_insert a
       (case hm_get m a of
          None \<Rightarrow> \<lparr>da_info = i, da_state = StateNone, da_storage = []\<rparr>
        | Some d \<Rightarrow> d\<lparr>da_info := i,
            da_state := (if da_state d = NotExisting then StateNone else da_state d)\<rparr>) m)\<rparr>"

lemma sample_ext_ok: "revm_ok sample_ext"
  by (auto simp: revm_ok_def insert_account_info_ok_def sample_ext_def split: option.splits)

definition lenient_requirements :: block_context_requirements where
  "lenient_requirements = \<lparr>require_number = False, require_basefee = False, require_coinbase = False,
     require_prevrandao = False, require_gas_limit = False\<rparr>"

definition empty_cache :: evm_cache where
  "empty_cache = \<lparr>db_accounts = [], db_block_hashes = [], bk_accounts = [], bk_storage = [],
     bk_block_hashes = [], bk_pinned = NumberId Latest, block = NumberId Latest,
     timestamp_override = None, chain_id = 1, block_number = None, basefee = None, coinbase = None,
     prevrandao = None, block_gas_limit = None, context_requirements = lenient_requirements,
     env_source = None, snapshot_generation = 0, storage_batch_fetcher = None,
     account_fields_fetcher = None, code_seeds = [], spec_id = 0, base = None, base_dirty = [],
     base_full_rebuild = False, base_storage_lens = [], shared_memory_capacity = 4096\<rparr>"

text \<open>A cache with account 1 in both layers and slot 5 of it holding 100 in the backend.\<close>

definition sample_info :: account_info where
  "sample_info = \<lparr>ai_balance = 10, ai_nonce = 1, ai_code_hash = 2, ai_code = Some [96]\<rparr>"

definition sample_cache :: evm_cache where
  "sample_cache = empty_cache\<lparr>
     db_accounts := [(1, \<lparr>da_info = sample_info, da_state = StateNone, da_storage = []\<rparr>)],
     bk_accounts := [(1, sample_info)],
     bk_storage := [(1, [(5, 100)])]\<rparr>"

lemmas sample_defs = sample_cache_def sample_info_def empty_cache_def sample_ext_def

section \<open>Single updates\<close>

definition upsert_of_not_existing :: "state_update \<Rightarrow> evm_cache \<Rightarrow> bool" where
  "upsert_of_not_existing u c \<longleftrightarrow> (\<exists>a p. u = AccountUpsert a p \<and> overlay_not_existing c a)"

lemma apply_update_arm_view:
  assumes ext: "revm_ok ext" and arm: "apply_update_arm ext u c = Some (d, c')"
    and up: "\<not> upsert_of_not_existing u c"
  shows "storage_view c' = spec_update u (storage_view c)"
proof (cases u)
  case (Slot a s v)
  with arm show ?thesis by (auto simp: apply_slot_def Let_def)
next
  case (SlotDelta a s dl)
  with arm show ?thesis
    by (auto simp: view_set_same write_hot_slot_def split: option.splits)
next
  case (SlotMasked a s m v)
  with arm show ?thesis
    by (auto simp: view_set_same write_hot_slot_def split: option.splits)
next
  case (BalanceDelta a dl)
  with arm storage_view_balance_delta [OF ext, of a dl c] show ?thesis
    by (auto split: prod.splits sum.splits)
next
  case (Account a p)
  with arm storage_view_account_patch [OF ext, of False c a p] show ?thesis
    by (auto split: prod.splits sum.splits)
next
  case (AccountUpsert a p)
  with arm up storage_view_account_patch [OF ext, of True c a p] show ?thesis
    by (auto simp: upsert_of_not_existing_def split: prod.splits sum.splits)
next
  case (Purge a scope)
  with arm storage_view_purge [of a scope c] show ?thesis
    by (auto simp del: spec_update.simps split: prod.splits)
qed

lemma overlay_not_existing_bump [simp]:
  "overlay_not_existing (bump_snapshot_generation c) a = overlay_not_existing c a"
  by (simp add: overlay_not_existing_def)

lemma apply_update_view:
  assumes "revm_ok ext" and "apply_update ext u c = Some (d, c')" and "\<not> upsert_of_not_existing u c"
  shows "storage_view c' = spec_update u (storage_view c)"
  using apply_update_arm_view [of ext u "bump_snapshot_generation c" d c'] assms
  by (simp add: apply_update_def upsert_of_not_existing_def)

text \<open>
  \<^bold>\<open>C1.\<close> A single update implements its specification on the abstract storage view: after
  \<open>apply_update\<close>, every slot of every account reads exactly what the update's meaning says
  (absolute write, saturating delta, masked write, purge at any scope), and no other slot moves.
  The one case left out is \<open>AccountUpsert\<close> of an account the overlay marks \<open>NotExisting\<close>, where
  the account comes back into existence.
\<close>

theorem apply_update_refines_spec:
  assumes "revm_ok ext" and "apply_update ext u c = Some (d, c')" and "\<not> upsert_of_not_existing u c"
  shows "storage_view c' = spec_update u (storage_view c)"
  by (rule apply_update_view [OF assms])

theorem apply_update_refines_spec_witness:
  "\<exists>d c'. apply_update sample_ext (SlotDelta 1 5 (Sub 30)) sample_cache = Some (d, c') \<and>
     cached_storage_value c' 1 5 = Some 70 \<and> cached_storage_value c' 1 6 = None"
proof -
  obtain d c' where r: "apply_update sample_ext (SlotDelta 1 5 (Sub 30)) sample_cache = Some (d, c')"
    using apply_update_is_Some by blast
  have "storage_view c' = spec_update (SlotDelta 1 5 (Sub 30)) (storage_view sample_cache)"
    by (rule apply_update_refines_spec [OF sample_ext_ok r]) (simp add: upsert_of_not_existing_def)
  then have "cached_storage_value c' = fst (spec_update (SlotDelta 1 5 (Sub 30)) (storage_view sample_cache))"
    by (metis fst_storage_view)
  moreover have "cached_storage_value sample_cache 1 5 = Some 100" "cached_storage_value sample_cache 1 6 = None"
    by (simp_all add: sample_defs cached_storage_value_def backend_slot_def)
  ultimately have "cached_storage_value c' 1 5 = Some 70" and "cached_storage_value c' 1 6 = None"
    by (simp_all add: view_set_def saturating_sub_def)
  with r show ?thesis by blast
qed

section \<open>Batches\<close>

text \<open>
  \<^bold>\<open>C6.\<close> The batched \<open>apply_updates\<close>, with its slot-run fast path under one storage guard,
  produces the same diff and the same cache as applying the updates one at a time with
  \<open>apply_update\<close> and merging their diffs; only the opaque snapshot generation may differ.
\<close>

theorem apply_updates_equals_sequential:
  "forget_gen (apply_updates ext us c) = forget_gen (apply_each ext us empty_diff c)"
  by (rule apply_updates_each)

text \<open>
  \<^bold>\<open>C15.\<close> Applying updates never panics: the \<open>expect\<close> of the \<open>AccountUpsert\<close> arm and the
  \<open>unreachable!\<close> of the slot run are never reached, for any list of updates and any cache.
\<close>

theorem apply_updates_never_panics:
  "(\<exists>d c'. apply_update ext u c = Some (d, c')) \<and> (\<exists>d c'. apply_updates ext us c = Some (d, c'))"
  using apply_update_is_Some apply_updates_is_Some by blast

section \<open>The returned diff\<close>

lemma account_diff_fields [simp]:
  "slots (account_diff ch) = []" "\<not> has_skipped (account_diff ch)" "purged (account_diff ch) = []"
  by (simp_all add: account_diff_def empty_diff_def has_skipped_def split: option.splits)

lemma slot_diff_fields [simp]:
  "slots (slot_diff None) = []" "slots (slot_diff (Some x)) = [x]" "\<not> has_skipped (slot_diff ch)"
  "accounts (slot_diff ch) = []" "purged (slot_diff ch) = []"
  by (simp_all add: slot_diff_def empty_diff_def has_skipped_def split: option.splits)

definition slot_changes_between :: "evm_cache \<Rightarrow> evm_cache \<Rightarrow> slot_change set" where
  "slot_changes_between c c' = {ch.
     sc_old ch = unwrap_or (cached_storage_value c (sc_address ch) (sc_slot ch)) 0 \<and>
     sc_new ch = unwrap_or (cached_storage_value c' (sc_address ch) (sc_slot ch)) 0 \<and>
     sc_old ch \<noteq> sc_new ch}"

lemma slot_changes_same_view:
  "storage_view c' = storage_view c \<Longrightarrow> slot_changes_between c c' = {}"
  by (auto simp: slot_changes_between_def storage_view_def)

lemma slot_changes_write:
  assumes "cached_storage_value c' = fst (view_set a s (Some v) (storage_view c))"
  shows "slot_changes_between c c' = set (slots (slot_diff (then_some
     (unwrap_or (cached_storage_value c a s) 0 \<noteq> v)
     \<lparr>sc_address = a, sc_slot = s, sc_old = unwrap_or (cached_storage_value c a s) 0, sc_new = v\<rparr>)))"
proof -
  have eq: "ch = \<lparr>sc_address = a, sc_slot = s, sc_old = x, sc_new = y\<rparr> \<longleftrightarrow>
      sc_address ch = a \<and> sc_slot ch = s \<and> sc_old ch = x \<and> sc_new ch = y" for ch :: slot_change and x y
    by (cases ch) auto
  show ?thesis
    using assms by (auto simp: slot_changes_between_def view_set_def then_some_def eq split: if_splits)
qed

fun is_purge :: "state_update \<Rightarrow> bool" where
  "is_purge (Purge _ _) = True"
| "is_purge _ = False"

lemma apply_update_arm_diff:
  assumes ext: "revm_ok ext" and arm: "apply_update_arm ext u c = Some (d, c')"
    and up: "\<not> upsert_of_not_existing u c" and np: "\<not> is_purge u"
  shows "set (slots d) = slot_changes_between c c'"
proof -
  note view = apply_update_arm_view [OF ext arm up]
  have csv: "cached_storage_value c' = fst (spec_update u (storage_view c))"
    using view by (metis fst_storage_view)
  show ?thesis
  proof (cases u)
    case (Slot a s v)
    with csv arm show ?thesis by (simp add: apply_slot_def Let_def slot_changes_write)
  next
    case (SlotDelta a s dl)
    with csv arm view show ?thesis
      by (auto simp: write_hot_slot_def slot_changes_write slot_changes_same_view view_set_same
          split: option.splits)
  next
    case (SlotMasked a s m v)
    with csv arm view show ?thesis
      by (auto simp: write_hot_slot_def slot_changes_write slot_changes_same_view view_set_same
          split: option.splits)
  qed (use arm view np in \<open>auto simp: slot_changes_same_view split: prod.splits sum.splits\<close>)
qed

lemma slot_changes_bump [simp]:
  "slot_changes_between (bump_snapshot_generation c) c' = slot_changes_between c c'"
  by (simp add: slot_changes_between_def cached_storage_value_eq)

text \<open>
  \<^bold>\<open>C17.\<close> The slot changes in the diff of a (non-purge) update are exactly the slots whose readable
  value changed, each with its true old and new value: no change is missed and none is invented. The one
  exception is \<open>AccountUpsert\<close> of an account the overlay marks \<open>NotExisting\<close>: the account comes back into
  existence, slots that read as zero because it did not exist may read otherwise, and the diff lists no
  slot at all.
\<close>

theorem diff_slots_exact:
  assumes "revm_ok ext" and "apply_update ext u c = Some (d, c')" and "\<not> is_purge u"
  shows "if upsert_of_not_existing u c then slots d = [] else set (slots d) = slot_changes_between c c'"
proof (cases "upsert_of_not_existing u c")
  case True
  with assms(2) show ?thesis
    by (auto simp: upsert_of_not_existing_def apply_update_def account_diff_def empty_diff_def
        split: prod.splits sum.splits option.splits)
next
  case False
  then have "\<not> upsert_of_not_existing u (bump_snapshot_generation c)" by (simp add: upsert_of_not_existing_def)
  with apply_update_arm_diff [of ext u "bump_snapshot_generation c" d c'] assms False show ?thesis
    by (simp add: apply_update_def)
qed

theorem diff_slots_exact_witness:
  "\<exists>d c'. apply_update sample_ext (SlotDelta 1 5 (Add 7)) sample_cache = Some (d, c') \<and>
     set (slots d) = slot_changes_between sample_cache c' \<and>
     slots d = [\<lparr>sc_address = 1, sc_slot = 5, sc_old = 100, sc_new = 107\<rparr>]"
proof -
  obtain d c' where r: "apply_update sample_ext (SlotDelta 1 5 (Add 7)) sample_cache = Some (d, c')"
    using apply_update_is_Some by blast
  have "set (slots d) = slot_changes_between sample_cache c'"
    using diff_slots_exact [OF sample_ext_ok r] by (simp add: upsert_of_not_existing_def)
  moreover have "slots d = [\<lparr>sc_address = 1, sc_slot = 5, sc_old = 100, sc_new = 107\<rparr>]"
    using r by (auto simp: apply_update_def bump_snapshot_generation_def write_hot_slot_def saturating_add_def
        cached_storage_value_def backend_slot_def sample_defs slot_diff_def empty_diff_def)
  ultimately show ?thesis using r by blast
qed

section \<open>Cold targets\<close>

fun cold_target :: "revm_ext \<Rightarrow> state_update \<Rightarrow> evm_cache \<Rightarrow> bool" where
  "cold_target ext (SlotDelta a s _) c = (cached_storage_value c a s = None)"
| "cold_target ext (SlotMasked a s _ _) c = (cached_storage_value c a s = None)"
| "cold_target ext (BalanceDelta a _) c = (loaded_account_info ext c a = None)"
| "cold_target ext (Account a p) c = (loaded_account_info ext c a = None \<and> \<not> account_patch_is_empty p)"
| "cold_target ext _ c = False"

lemma cached_storage_value_bump [simp]:
  "cached_storage_value (bump_snapshot_generation c) = cached_storage_value c"
  by (simp add: fun_eq_iff cached_storage_value_eq)

lemma loaded_account_info_bump [simp]:
  "loaded_account_info ext (bump_snapshot_generation c) = loaded_account_info ext c"
  by (simp add: bump_as_set_gen)

lemma apply_update_arm_skip:
  assumes "apply_update_arm ext u c = Some (d, c')"
  shows "(has_skipped d \<longleftrightarrow> cold_target ext u c) \<and>
     (cold_target ext u c \<longrightarrow> c' = c \<and> diff_is_empty d \<and> skipped_len d = 1)"
proof (cases u)
  case (AccountUpsert a p)
  with assms show ?thesis by (auto split: prod.splits sum.splits)
next
  case (Account a p)
  with assms show ?thesis
    by (auto simp: apply_account_patch_def Let_def has_skipped_def diff_is_empty_def skipped_len_def
        empty_diff_def account_diff_def split: option.splits if_splits)
next
  case (BalanceDelta a dl)
  with assms show ?thesis
    by (auto simp: apply_balance_delta_def Let_def has_skipped_def diff_is_empty_def skipped_len_def
        empty_diff_def account_diff_def split: option.splits if_splits)
qed (use assms in \<open>auto simp: apply_slot_def write_hot_slot_def Let_def has_skipped_def diff_is_empty_def
      skipped_len_def empty_diff_def slot_diff_def split: option.splits prod.splits\<close>)

text \<open>
  \<^bold>\<open>C20.\<close> Cold-awareness: an update is skipped exactly when it is relative (or partial) and its
  target is unknown to both layers; a skipped update is recorded once, reports no change and leaves
  the cache as it was but for the generation. \<open>Slot\<close>, \<open>AccountUpsert\<close> and \<open>Purge\<close> never skip.
\<close>

theorem cold_updates_are_skipped:
  assumes "apply_update ext u c = Some (d, c')"
  shows "(has_skipped d \<longleftrightarrow> cold_target ext u c) \<and>
     (cold_target ext u c \<longrightarrow> c' = bump_snapshot_generation c \<and> diff_is_empty d \<and> skipped_len d = 1)"
proof -
  have "cold_target ext u (bump_snapshot_generation c) = cold_target ext u c" by (cases u) auto
  with apply_update_arm_skip [of ext u "bump_snapshot_generation c" d c'] assms show ?thesis
    by (simp add: apply_update_def)
qed

theorem cold_updates_are_skipped_witness:
  "\<exists>d c'. apply_update sample_ext (SlotMasked 1 6 255 66) sample_cache = Some (d, c') \<and>
     cold_target sample_ext (SlotMasked 1 6 255 66) sample_cache \<and> has_skipped d \<and> diff_is_empty d \<and>
     c' = bump_snapshot_generation sample_cache"
proof -
  obtain d c' where r: "apply_update sample_ext (SlotMasked 1 6 255 66) sample_cache = Some (d, c')"
    using apply_update_is_Some by blast
  moreover have "cold_target sample_ext (SlotMasked 1 6 255 66) sample_cache"
    by (simp add: sample_defs cached_storage_value_def backend_slot_def)
  ultimately show ?thesis using cold_updates_are_skipped [OF r] by blast
qed

section \<open>Hot values\<close>

lemma bit_masked_word:
  "bit (masked_word old m v) n = (if bit m n then bit v n \<and> n < 256 else bit old n)"
  by (auto simp: masked_word_def bit_simps dest: bit_imp_le_length)

lemma masked_word_idem: "masked_word (masked_word old m v) m v = masked_word old m v"
  by (rule bit_word_eqI) (simp add: bit_masked_word)

text \<open>
  \<^bold>\<open>C35.\<close> A masked write to a known slot replaces exactly the bits of the mask: afterwards the slot
  reads a word whose masked bits are those of the value and whose other bits are the old ones.
\<close>

theorem masked_write_keeps_other_bits:
  assumes "cached_storage_value c a s = Some old"
    and "apply_update ext (SlotMasked a s m v) c = Some (d, c')"
  shows "\<exists>new. cached_storage_value c' a s = Some new \<and>
     (\<forall>n. n < 256 \<longrightarrow> bit new n = (if bit m n then bit v n else bit old n))"
  using assms by (auto simp: apply_update_def write_hot_slot_def cache_store.read_own_write bit_masked_word)

theorem masked_write_keeps_other_bits_witness:
  "\<exists>d c' new. apply_update sample_ext (SlotMasked 1 5 15 9) sample_cache = Some (d, c') \<and>
     cached_storage_value c' 1 5 = Some new \<and> bit new 0 \<and> bit new 6 \<and> \<not> bit new 2"
proof -
  obtain d c' where r: "apply_update sample_ext (SlotMasked 1 5 15 9) sample_cache = Some (d, c')"
    using apply_update_is_Some by blast
  have old: "cached_storage_value sample_cache 1 5 = Some 100"
    by (simp add: sample_defs cached_storage_value_def backend_slot_def)
  obtain new where new: "cached_storage_value c' 1 5 = Some new"
    and b: "\<forall>n. n < 256 \<longrightarrow> bit new n = (if bit (15::u256) n then bit (9::u256) n else bit (100::u256) n)"
    using masked_write_keeps_other_bits [OF old r] by blast
  from b [rule_format, of 0] b [rule_format, of 6] b [rule_format, of 2]
  have "bit new 0 \<and> bit new 6 \<and> \<not> bit new 2"
    by (simp add: bit_numeral_rec)
  with r new show ?thesis by blast
qed

text \<open>
  \<^bold>\<open>C36.\<close> A relative update of a known slot saturates: the value read afterwards is the exact sum
  clamped at \<open>2 ^ 256 - 1\<close>, or the exact difference clamped at zero; it never wraps around.
\<close>

theorem slot_delta_saturates:
  assumes "cached_storage_value c a s = Some x"
    and "apply_update ext (SlotDelta a s dl) c = Some (d, c')"
  shows "\<exists>y. cached_storage_value c' a s = Some y \<and>
     unat y = (case dl of Add n \<Rightarrow> min (unat x + unat n) (2 ^ 256 - 1) | Sub n \<Rightarrow> unat x - unat n)"
  using assms slot_delta_apply_bounds
  by (auto simp: apply_update_def write_hot_slot_def cache_store.read_own_write)

theorem slot_delta_saturates_witness:
  "\<exists>d c'. apply_update sample_ext (SlotDelta 1 5 (Sub 101)) sample_cache = Some (d, c') \<and>
     cached_storage_value c' 1 5 = Some 0"
proof -
  obtain d c' where r: "apply_update sample_ext (SlotDelta 1 5 (Sub 101)) sample_cache = Some (d, c')"
    using apply_update_is_Some by blast
  have old: "cached_storage_value sample_cache 1 5 = Some 100"
    by (simp add: sample_defs cached_storage_value_def backend_slot_def)
  from slot_delta_saturates [OF old r] obtain y where "cached_storage_value c' 1 5 = Some y" "unat y = 0"
    by auto
  then show ?thesis using r by (auto simp: unat_eq_zero)
qed

end
