(* ===== verification/Cache_Props2.thy ===== *)
theory Cache_Props2
  imports Cache_Props
begin

text \<open>
  The account path, idempotence, purge accounting, the snapshot generation, fresh injection and
  slot verification of the two-layer cache.
\<close>

section \<open>The account path\<close>

lemma patch_info_fields [simp]:
  "ai_balance (patch_info ext p i) = unwrap_or (ap_balance p) (ai_balance i)"
  "ai_nonce (patch_info ext p i) = unwrap_or (ap_nonce p) (ai_nonce i)"
  "ai_code_hash (patch_info ext p i) =
     (case ap_code p of None \<Rightarrow> ai_code_hash i | Some code \<Rightarrow> hash_slow ext code)"
  by (auto simp: patch_info_def Let_def split: option.splits)

lemma loaded_code_hash_nonzero:
  "revm_ok ext \<Longrightarrow> loaded_account_info ext c a = Some i \<Longrightarrow> ai_code_hash i \<noteq> 0"
  by (auto simp: loaded_account_info_def split: option.splits if_splits)

lemma normalize_id: "ai_code_hash i \<noteq> 0 \<Longrightarrow> normalize_code_hash ext i = i"
  by (simp add: normalize_code_hash_def)

lemma patch_info_nonzero:
  "revm_ok ext \<Longrightarrow> ai_code_hash i \<noteq> 0 \<Longrightarrow> ai_code_hash (patch_info ext p i) \<noteq> 0"
  by (auto simp: revm_ok_def split: option.splits)

lemma loaded_write_info:
  assumes ext: "revm_ok ext" and ne: "\<not> overlay_not_existing c a" and nz: "ai_code_hash i \<noteq> 0"
  shows "loaded_account_info ext (write_account_info_through ext a i c) b =
     (if b = a then Some i else loaded_account_info ext c b)"
proof (cases "hm_get (db_accounts c) a")
  case None
  then show ?thesis using nz
    by (auto simp: write_account_info_through_def Let_def loaded_account_info_def normalize_id
        split: option.splits)
next
  case (Some d0)
  with ne have st: "da_state d0 \<noteq> NotExisting" by (simp add: overlay_not_existing_def)
  obtain d where d: "hm_get (insert_account_info ext a i (db_accounts c)) a = Some d"
    "da_info d = i" "da_state d = da_state d0"
    using insert_account_info_same [OF ext nz] Some st by metis
  have "hm_get (insert_account_info ext a i (db_accounts c)) b =
      (if b = a then Some d else hm_get (db_accounts c) b)"
    using insert_account_info_other [OF ext] d by simp
  with d Some st nz show ?thesis
    by (auto simp: write_account_info_through_def Let_def loaded_account_info_def normalize_id
        split: option.splits)
qed

text \<open>The three outcomes of a patch: skipped, nothing to change, written.\<close>

definition same_account :: "account_info \<Rightarrow> account_info \<Rightarrow> bool" where
  "same_account i j \<longleftrightarrow> ai_balance i = ai_balance j \<and> ai_nonce i = ai_nonce j \<and> ai_code_hash i = ai_code_hash j"

lemma info_change_none:
  "(ac_balance (info_change a i j) = None \<and> ac_nonce (info_change a i j) = None \<and>
    ac_code_hash (info_change a i j) = None) \<longleftrightarrow> same_account i j"
  by (auto simp: info_change_def same_account_def)

lemma same_account_patch_twice:
  "same_account j (patch_info ext p i) \<Longrightarrow> same_account j (patch_info ext p j)"
  by (cases "ap_balance p"; cases "ap_nonce p"; cases "ap_code p") (auto simp: same_account_def)

lemma apply_account_patch_base:
  assumes "loaded_account_info ext c a = Some i \<or>
     loaded_account_info ext c a = None \<and> up \<and> \<not> account_patch_is_empty p \<and> i = default_info ext"
  shows "apply_account_patch ext a p up c =
     (if same_account i (patch_info ext p i) then (Okay None, c)
      else (Okay (Some (info_change a i (patch_info ext p i))),
            write_account_info_through ext a (patch_info ext p i) c))"
  using assms by (auto simp: apply_account_patch_def Let_def info_change_none)

lemma loaded_after_patch:
  assumes ext: "revm_ok ext" and i: "loaded_account_info ext c a = Some i"
  shows "\<exists>j. loaded_account_info ext (snd (apply_account_patch ext a p up c)) a = Some j \<and>
     same_account j (patch_info ext p i) \<and>
     (\<forall>b. b \<noteq> a \<longrightarrow> loaded_account_info ext (snd (apply_account_patch ext a p up c)) b =
                      loaded_account_info ext c b)"
proof (cases "same_account i (patch_info ext p i)")
  case True
  with i show ?thesis by (simp add: apply_account_patch_base)
next
  case False
  note nz = patch_info_nonzero [OF ext loaded_code_hash_nonzero [OF ext i], of p]
  from False i show ?thesis
    using loaded_write_info [OF ext loaded_hot_not_missing [OF i] nz]
    by (simp add: apply_account_patch_base same_account_def)
qed

text \<open>
  \<^bold>\<open>C34.\<close> A patch of a known account sets exactly the fields it carries: afterwards the account reads
  the patched balance, nonce and code hash (the hash of the new code), fields the patch leaves out
  keep their value, and every other account reads what it read before.
\<close>

theorem account_patch_sets_fields:
  assumes "revm_ok ext" and "loaded_account_info ext c a = Some i"
    and "apply_update ext (Account a p) c = Some (d, c')"
  shows "\<exists>j. loaded_account_info ext c' a = Some j \<and>
     ai_balance j = unwrap_or (ap_balance p) (ai_balance i) \<and>
     ai_nonce j = unwrap_or (ap_nonce p) (ai_nonce i) \<and>
     ai_code_hash j = (case ap_code p of None \<Rightarrow> ai_code_hash i | Some code \<Rightarrow> hash_slow ext code) \<and>
     (\<forall>b. b \<noteq> a \<longrightarrow> loaded_account_info ext c' b = loaded_account_info ext c b)"
proof -
  let ?c = "bump_snapshot_generation c"
  have "c' = snd (apply_account_patch ext a p False ?c)"
    using assms(3) by (auto simp: apply_update_def split: prod.splits sum.splits)
  with loaded_after_patch [OF assms(1), of ?c a i p False] assms(2) show ?thesis
    by (auto simp: same_account_def)
qed

theorem account_patch_sets_fields_witness:
  "\<exists>d c' j. apply_update sample_ext (update_nonce 1 7) sample_cache = Some (d, c') \<and>
     loaded_account_info sample_ext c' 1 = Some j \<and> ai_nonce j = 7 \<and> ai_balance j = 10"
proof -
  obtain d c' where r: "apply_update sample_ext
      (Account 1 (patch_nonce account_patch_default 7)) sample_cache = Some (d, c')"
    using apply_update_is_Some by blast
  have "loaded_account_info sample_ext sample_cache 1 = Some sample_info"
    by (simp add: sample_defs loaded_account_info_def normalize_code_hash_def)
  from account_patch_sets_fields [OF sample_ext_ok this r] r show ?thesis
    by (auto simp: update_nonce_def patch_nonce_def account_patch_default_def sample_info_def)
qed

section \<open>Idempotence\<close>

fun is_absolute :: "state_update \<Rightarrow> bool" where
  "is_absolute (Slot _ _ _) = True"
| "is_absolute (SlotMasked _ _ _ _) = True"
| "is_absolute (Account _ _) = True"
| "is_absolute (AccountUpsert _ _) = True"
| "is_absolute _ = False"

lemma hash_default_nonzero: "revm_ok ext \<Longrightarrow> ai_code_hash (default_info ext) \<noteq> 0"
  by (simp add: revm_ok_def)

lemma apply_account_patch_twice:
  assumes ext: "revm_ok ext" and up: "\<not> (up \<and> overlay_not_existing c a)"
    and c1: "apply_account_patch ext a p up c = (r, c1)"
  shows "fst (apply_account_patch ext a p up c1) = Inr None \<or>
     (\<exists>sk. fst (apply_account_patch ext a p up c1) = Inl sk)"
proof (cases "loaded_account_info ext c a")
  case (Some i)
  from loaded_after_patch [OF ext Some, of p up] c1 obtain j
    where "loaded_account_info ext c1 a = Some j" and "same_account j (patch_info ext p i)" by auto
  then show ?thesis by (simp add: apply_account_patch_base same_account_patch_twice)
next
  case None
  show ?thesis
  proof (cases "up \<and> \<not> account_patch_is_empty p \<and>
      \<not> same_account (default_info ext) (patch_info ext p (default_info ext))")
    case True
    let ?n = "patch_info ext p (default_info ext)"
    from True None c1 have "c1 = write_account_info_through ext a ?n c"
      by (simp add: apply_account_patch_base)
    with up True have "loaded_account_info ext c1 a = Some ?n"
      using loaded_write_info [OF ext _ patch_info_nonzero [OF ext hash_default_nonzero [OF ext]], of c a p a]
      by simp
    moreover have "same_account ?n (patch_info ext p ?n)"
      by (rule same_account_patch_twice) (simp add: same_account_def)
    ultimately show ?thesis by (simp add: apply_account_patch_base)
  next
    case False
    with None c1 have "c1 = c"
      by (auto simp: apply_account_patch_def Let_def info_change_none split: if_splits)
    with None False show ?thesis
      by (auto simp: apply_account_patch_def Let_def info_change_none)
  qed
qed

lemma overlay_not_existing_set_gen [simp]: "overlay_not_existing (set_gen g c) a = overlay_not_existing c a"
  by (simp add: overlay_not_existing_def)

lemma diff_is_empty_skips [simp]:
  "diff_is_empty (account_diff None)" "diff_is_empty (empty_diff\<lparr>skipped_accounts := sk\<rparr>)"
  "diff_is_empty (empty_diff\<lparr>skipped_masks := sm\<rparr>)" "diff_is_empty (slot_diff None)"
  by (simp_all add: diff_is_empty_def account_diff_def empty_diff_def slot_diff_def)

lemma apply_update_arm_twice:
  assumes ext: "revm_ok ext" and up: "\<not> upsert_of_not_existing u c" and abs: "is_absolute u"
    and r1: "apply_update_arm ext u c = Some (d, c1)" and r2: "apply_update_arm ext u c1 = Some (d2, c2)"
  shows "diff_is_empty d2"
proof (cases u)
  case (Slot a s v)
  with r1 r2 show ?thesis
    by (auto simp: apply_slot_def Let_def cache_store.read_own_write then_some_def)
next
  case (SlotMasked a s m v)
  with r1 r2 show ?thesis
    by (cases "cached_storage_value c a s")
      (auto simp: write_hot_slot_def cache_store.read_own_write masked_word_idem then_some_def)
next
  case (Account a p)
  obtain q where q: "apply_account_patch ext a p False c = (q, c1)"
    using r1 Account by (auto split: prod.splits sum.splits)
  show ?thesis
    using apply_account_patch_twice [OF ext _ q] r2 Account by (auto split: prod.splits sum.splits)
next
  case (AccountUpsert a p)
  obtain q where q: "apply_account_patch ext a p True c = (q, c1)"
    using r1 AccountUpsert by (auto split: prod.splits sum.splits)
  show ?thesis
    using apply_account_patch_twice [OF ext _ q] r2 AccountUpsert up
    by (auto simp: upsert_of_not_existing_def split: prod.splits sum.splits)
qed (use abs in auto)

text \<open>
  Idempotence is observable: applying an absolute update (a slot write, a masked write, an
  account patch or upsert) a second time reports an empty diff.
\<close>

lemma reapply_reports_no_change:
  assumes "revm_ok ext" and "\<not> upsert_of_not_existing u c" and "is_absolute u"
    and "apply_update ext u c = Some (d, c1)" and "apply_update ext u c1 = Some (d2, c2)"
  shows "diff_is_empty d2"
proof -
  obtain c3 where "apply_update_arm ext u c = Some (d, c3)" "c1 = set_gen (snapshot_generation c + 1) c3"
    using assms(4) by (auto simp: apply_update_def bump_as_set_gen apply_update_arm_set_gen)
  moreover from this assms(5) obtain c4 where "apply_update_arm ext u c3 = Some (d2, c4)"
    by (auto simp: apply_update_def bump_as_set_gen apply_update_arm_set_gen)
  ultimately show ?thesis using apply_update_arm_twice assms(1-3) by blast
qed

lemma reapply_reports_no_change_example:
  "\<exists>d c1 d2 c2. apply_update sample_ext (Slot 1 5 42) sample_cache = Some (d, c1) \<and>
     \<not> diff_is_empty d \<and> apply_update sample_ext (Slot 1 5 42) c1 = Some (d2, c2) \<and> diff_is_empty d2"
proof -
  obtain d c1 where r1: "apply_update sample_ext (Slot 1 5 42) sample_cache = Some (d, c1)"
    using apply_update_is_Some by blast
  moreover obtain d2 c2 where r2: "apply_update sample_ext (Slot 1 5 42) c1 = Some (d2, c2)"
    using apply_update_is_Some by blast
  moreover have "diff_is_empty d2"
    by (rule reapply_reports_no_change [OF sample_ext_ok _ _ r1 r2]) (simp_all add: upsert_of_not_existing_def)
  moreover have "\<not> diff_is_empty d"
    using r1 by (auto simp: apply_update_def apply_slot_def Let_def bump_snapshot_generation_def
        cached_storage_value_def backend_slot_def sample_defs slot_diff_def diff_is_empty_def)
  ultimately show ?thesis by blast
qed

section \<open>Purge accounting\<close>

lemma length_hm_remove:
  "hm_ok m \<Longrightarrow> length m = length (hm_remove k m) + (if hm_contains m k then 1 else 0)"
proof (induction m)
  case Nil
  then show ?case by simp
next
  case (Cons x m)
  then have "hm_ok m" and "map_of m (fst x) = None"
    by (auto simp: hm_ok_def map_of_eq_None_iff)
  then have "hm_remove (fst x) m = m" by (simp add: map_of_eq_None_iff)
  then show ?case
    using Cons.IH [OF \<open>hm_ok m\<close>] by (cases x; cases "fst x = k") simp_all
qed

lemma remove_counting_length:
  "hm_ok m \<Longrightarrow> snd (remove_counting ss m n) + length (fst (remove_counting ss m n)) = n + length m"
proof (induction ss arbitrary: m n)
  case (Cons s ss)
  then show ?case using length_hm_remove [OF Cons.prems, of s] by simp
qed simp

lemma fst_purge_slots:
  "fst (purge_contract_slots_inner a ss c) =
     (case hm_get (bk_storage c) a of None \<Rightarrow> 0 | Some m \<Rightarrow> snd (remove_counting ss m 0))"
  by (auto simp: purge_contract_slots_inner_def Let_def split: option.splits prod.splits)

lemma apply_purge_slots:
  "apply_purge a (Slots ss) c =
     (\<lparr>pr_address = a, pr_scope = Slots ss, pr_slots_removed = fst (purge_contract_slots_inner a ss c),
       pr_account_removed = False\<rparr>, snd (purge_contract_slots_inner a ss c))"
  by (simp add: apply_purge_def split: prod.splits)

text \<open>
  \<^bold>\<open>C37.\<close> A purge record counts truthfully: at every scope the record names the address and the scope, and
  the slots it reports removed are exactly those the backend lost for that address.
\<close>

theorem purge_counts_removed_slots:
  assumes "\<And>m. hm_get (bk_storage c) a = Some m \<Longrightarrow> hm_ok m"
    and "apply_update ext (Purge a scope) c = Some (d, c')"
  shows "\<exists>rec. purged d = [rec] \<and> pr_address rec = a \<and> pr_scope rec = scope \<and>
     pr_slots_removed rec + contract_storage_slot_count c' a = contract_storage_slot_count c a"
proof (cases scope)
  case PurgeAccount
  with assms(2) show ?thesis
    by (auto simp: apply_update_def apply_purge_def purge_account_inner_def Let_def
        contract_storage_slot_count_def empty_diff_def)
next
  case AllStorage
  with assms(2) show ?thesis
    by (auto simp: apply_update_def apply_purge_def purge_contract_storage_inner_def Let_def
        contract_storage_slot_count_def empty_diff_def)
next
  case (Slots ss)
  let ?c = "bump_snapshot_generation c"
  have "fst (purge_contract_slots_inner a ss ?c) +
      contract_storage_slot_count (snd (purge_contract_slots_inner a ss ?c)) a = contract_storage_slot_count c a"
    using remove_counting_length [OF assms(1), of _ ss 0]
    by (cases "hm_get (bk_storage c) a")
      (simp_all add: fst_purge_slots contract_storage_slot_count_def purge_slots_fields)
  with assms(2) Slots show ?thesis
    by (auto simp: apply_update_def apply_purge_slots empty_diff_def)
qed

theorem purge_counts_removed_slots_witness:
  "\<exists>d c' rec. apply_update sample_ext (Purge 1 (Slots [5, 9, 5])) sample_cache = Some (d, c') \<and>
     purged d = [rec] \<and> pr_slots_removed rec + contract_storage_slot_count c' 1 = 1"
proof -
  obtain d c' where r: "apply_update sample_ext (Purge 1 (Slots [5, 9, 5])) sample_cache = Some (d, c')"
    using apply_update_is_Some by blast
  have "\<exists>rec. purged d = [rec] \<and> pr_address rec = 1 \<and> pr_scope rec = Slots [5, 9, 5] \<and>
     pr_slots_removed rec + contract_storage_slot_count c' 1 = contract_storage_slot_count sample_cache 1"
    by (rule purge_counts_removed_slots [OF _ r]) (simp add: sample_defs hm_ok_def)
  with r show ?thesis
    by (auto simp: contract_storage_slot_count_def sample_defs)
qed

section \<open>The snapshot generation\<close>

lemma write_info_gen [simp]:
  "snapshot_generation (write_account_info_through ext a i c) = snapshot_generation c"
  by (simp add: write_account_info_through_def Let_def)

lemma apply_update_arm_gen:
  "apply_update_arm ext u c = Some (d, c') \<Longrightarrow> snapshot_generation c' = snapshot_generation c"
proof -
  assume "apply_update_arm ext u c = Some (d, c')"
  then have "Some (d, c') = Some (d, set_gen (snapshot_generation c) c')"
    using apply_update_arm_set_gen [of ext u "snapshot_generation c" c] by (simp add: set_gen_own)
  then have "c' = set_gen (snapshot_generation c) c'" by simp
  then show ?thesis by (metis evm_cache.select_convs(17) evm_cache.surjective evm_cache.update_convs(17) set_gen_def)
qed

lemma fold_mark_gen [simp]: "snapshot_generation (fold mark_base_dirty ds c) = snapshot_generation c"
  by (simp add: fold_mark_base_dirty)

lemma apply_slot_run_gen:
  "apply_slot_run us diff c = Some (d, c') \<Longrightarrow> snapshot_generation c' = snapshot_generation c"
  by (auto simp: apply_slot_run_def bind_eq_Some_conv)

lemma apply_updates_loop_gen:
  "apply_updates_loop ext us diff c = Some (d, c') \<Longrightarrow>
   \<exists>k. k \<le> length us \<and> snapshot_generation c' = snapshot_generation c + of_nat k"
proof (induction ext us diff c rule: apply_updates_loop.induct)
  case (1 ext diff c)
  then show ?case by (intro exI [of _ 0]) simp
next
  case (2 ext u us diff c)
  show ?case
  proof (cases "is_slot_run u")
    case True
    with "2.prems" obtain d1 c1 where r: "apply_slot_run (takeWhile is_slot_run (u # us)) diff c = Some (d1, c1)"
      and l: "apply_updates_loop ext (dropWhile is_slot_run (u # us)) d1 c1 = Some (d, c')"
      by (auto simp: bind_eq_Some_conv)
    from "2.IH"(1) [OF True r refl l] obtain k where "k \<le> length (dropWhile is_slot_run (u # us))"
      and "snapshot_generation c' = snapshot_generation c1 + of_nat k" by blast
    with apply_slot_run_gen [OF r] length_dropWhile_le [of is_slot_run "u # us"] show ?thesis
      by (intro exI [of _ k]) auto
  next
    case False
    with "2.prems" obtain d1 c1 where r: "apply_update ext u c = Some (d1, c1)"
      and l: "apply_updates_loop ext us (diff_merge diff d1) c1 = Some (d, c')"
      by (auto simp: bind_eq_Some_conv)
    have "snapshot_generation c1 = snapshot_generation c + 1"
      using apply_update_arm_gen r by (fastforce simp: apply_update_def)
    moreover from "2.IH"(2) [OF False r refl l] obtain k where "k \<le> length us"
      and "snapshot_generation c' = snapshot_generation c1 + of_nat k" by blast
    ultimately show ?thesis by (intro exI [of _ "Suc k"]) simp
  qed
qed

lemma of_nat_word_nonzero: "0 < k \<Longrightarrow> k < 2 ^ 64 \<Longrightarrow> (of_nat k :: u64) \<noteq> 0"
  using nat_dvd_not_less [of k "2 ^ 64"] by (simp add: word_of_nat_eq_0_iff)

text \<open>
  A snapshot consumer that compares the generation before and after sees every batch: applying
  any non-empty list of fewer than \<open>2 ^ 64 - 1\<close> updates changes the generation, even though the
  counter wraps around.
\<close>

lemma apply_updates_changes_generation:
  assumes "us \<noteq> []" and "length us < 2 ^ 64 - 1" and "apply_updates ext us c = Some (d, c')"
  shows "snapshot_generation c' \<noteq> snapshot_generation c"
proof -
  from assms(1,3) have "apply_updates_loop ext us empty_diff (bump_snapshot_generation c) = Some (d, c')"
    by (simp add: apply_updates_def)
  from apply_updates_loop_gen [OF this] obtain k where "k \<le> length us"
    and "snapshot_generation c' = snapshot_generation c + of_nat (Suc k)" by auto
  moreover from \<open>k \<le> length us\<close> assms(2) have "(of_nat (Suc k) :: u64) \<noteq> 0"
    by (intro of_nat_word_nonzero) auto
  ultimately show ?thesis by simp
qed

lemma apply_updates_changes_generation_example:
  "\<exists>d c'. apply_updates sample_ext [Slot 1 5 1, Purge 1 AllStorage] sample_cache = Some (d, c') \<and>
     snapshot_generation c' \<noteq> snapshot_generation sample_cache"
proof -
  obtain d c' where r: "apply_updates sample_ext [Slot 1 5 1, Purge 1 AllStorage] sample_cache = Some (d, c')"
    using apply_updates_is_Some by blast
  have "snapshot_generation c' \<noteq> snapshot_generation sample_cache"
    by (rule apply_updates_changes_generation [OF _ _ r]) simp_all
  with r show ?thesis by blast
qed

text \<open>
  \<^bold>\<open>C39.\<close> Not every targeted write moves the generation: \<open>modify_slot\<close> advances it whenever it
  writes, but \<open>modify_account_balance\<close>, \<open>purge_all_storage\<close> and \<open>purge_contracts_storage\<close>, which
  change what the cache holds, leave it as it was.
\<close>

theorem generation_not_advanced_by_balance_and_bulk_purge:
  "snapshot_generation (snd (modify_slot a s f c)) =
     snapshot_generation c + (if f (cached_storage_value c a s) = None then 0 else 1) \<and>
   snapshot_generation (snd (modify_account_balance ext a g c)) = snapshot_generation c \<and>
   snapshot_generation (snd (purge_all_storage c)) = snapshot_generation c \<and>
   snapshot_generation (snd (purge_contracts_storage as c)) = snapshot_generation c"
proof -
  have "snapshot_generation (snd (purge_contracts_loop as n c)) = snapshot_generation c" for n
    by (induction as arbitrary: n c) auto
  from this [of 0] have "snapshot_generation (snd (purge_contracts_storage as c)) = snapshot_generation c"
    by (auto simp: purge_contracts_storage_def invalidate_base_def split: prod.splits)
  then show ?thesis
    by (auto simp: modify_slot_def modify_account_balance_def purge_all_storage_def invalidate_base_def
        Let_def split: option.splits)
qed

end
