(* ===== verification/Cache_Verify.thy ===== *)
theory Cache_Verify
  imports Cache_Props2
begin

text \<open>
  Fresh injection (\<open>inject_storage_batch_fresh\<close>) and slot verification (\<open>verify_slots\<close>,
  \<open>reconcile_slots\<close>) of \<^verbatim>\<open>src/cache/mod.rs\<close>: what the cache reads after a fetch round.
\<close>

section \<open>Slot batches on the abstract view\<close>

lemma apply_each_slots_view:
  assumes "list_all is_slot_run us" and "apply_each ext us diff c = Some (d, c')"
  shows "storage_view c' = fold spec_update us (storage_view c)"
  using assms
proof (induction us arbitrary: diff c)
  case Nil
  then show ?case by simp
next
  case (Cons u us)
  then obtain d1 c1 where u: "apply_update ext u c = Some (d1, c1)"
    and us: "apply_each ext us (diff_merge diff d1) c1 = Some (d, c')"
    by (auto simp: bind_eq_Some_conv)
  have "storage_view c1 = spec_update u (storage_view c)"
    using u Cons.prems(1)
    by (cases u) (auto simp: apply_update_def apply_slot_def Let_def view_set_same write_hot_slot_def
        split: option.splits)
  with Cons.IH [OF _ us] Cons.prems(1) show ?case by simp
qed

lemma storage_view_set_gen [simp]: "storage_view (set_gen g c) = storage_view c"
  by (simp add: storage_view_def cached_storage_value_eq reads_zero_at_def fun_eq_iff)

lemma apply_updates_slots_view:
  assumes slots: "list_all is_slot_run us" and r: "apply_updates ext us c = Some (d, c')"
  shows "storage_view c' = fold spec_update us (storage_view c)"
proof -
  have "forget_gen (apply_each ext us empty_diff c) = forget_gen (Some (d, c'))"
    using apply_updates_each [of ext us c] r by simp
  then obtain c2 where e: "apply_each ext us empty_diff c = Some (d, c2)" and "set_gen 0 c2 = set_gen 0 c'"
    by (auto simp: forget_gen_def)
  then have "storage_view c2 = storage_view c'" by (metis storage_view_set_gen)
  with apply_each_slots_view [OF slots e] show ?thesis by simp
qed

lemma fold_spec_slots:
  "fst (fold spec_update (map (\<lambda>(a, s, v). Slot a s v) ws) w) b t =
     (case map_of (rev (map (\<lambda>(a, s, v). ((a, s), v)) ws)) (b, t) of Some v \<Rightarrow> Some v | None \<Rightarrow> fst w b t)"
proof (induction ws rule: rev_induct)
  case (snoc x ws)
  then show ?case by (cases x) (auto simp: view_set_def)
qed simp

lemma inject_fresh_reads:
  assumes "inject_storage_batch_fresh ext ws c = Some c'"
  shows "cached_storage_value c' b t =
     (case map_of (rev (map (\<lambda>(a, s, v). ((a, s), v)) ws)) (b, t) of
        Some v \<Rightarrow> Some v | None \<Rightarrow> cached_storage_value c b t)"
proof -
  obtain d where "apply_updates ext (map (\<lambda>(a, s, v). Slot a s v) ws) c = Some (d, c')"
    using assms by (auto simp: inject_storage_batch_fresh_def)
  then have "storage_view c' = fold spec_update (map (\<lambda>(a, s, v). Slot a s v) ws) (storage_view c)"
    by (intro apply_updates_slots_view) (auto simp: list_all_iff)
  then have "cached_storage_value c' = fst (fold spec_update (map (\<lambda>(a, s, v). Slot a s v) ws) (storage_view c))"
    by (metis fst_storage_view)
  then show ?thesis by (simp add: fold_spec_slots split: option.splits)
qed

text \<open>
  Fresh injection heals both layers: afterwards every injected slot reads the last value
  injected for it, even where a stale overlay slot shadowed the backend, and every other slot reads
  what it read before.
\<close>

lemma inject_fresh_is_authoritative:
  assumes "inject_storage_batch_fresh ext ws c = Some c'"
  shows "cached_storage_value c' b t =
     (case map_of (rev (map (\<lambda>(a, s, v). ((a, s), v)) ws)) (b, t) of
        Some v \<Rightarrow> Some v | None \<Rightarrow> cached_storage_value c b t)"
  by (rule inject_fresh_reads [OF assms])

lemma inject_fresh_is_authoritative_example:
  "\<exists>c'. inject_storage_batch_fresh sample_ext [(1, 5, 7), (1, 5, 8)] sample_cache = Some c' \<and>
     cached_storage_value c' 1 5 = Some 8"
proof -
  obtain d c' where "apply_updates sample_ext [Slot 1 5 7, Slot 1 5 8] sample_cache = Some (d, c')"
    using apply_updates_is_Some by blast
  then have r: "inject_storage_batch_fresh sample_ext [(1, 5, 7), (1, 5, 8)] sample_cache = Some c'"
    by (simp add: inject_storage_batch_fresh_def)
  then show ?thesis using inject_fresh_is_authoritative [OF r, of 1 5] by simp
qed

section \<open>Verification\<close>

definition result_key :: "address \<times> u256 \<times> (string + u256) \<Rightarrow> slot_key" where
  "result_key r = (fst r, fst (snd r))"

definition answers :: "(address \<times> u256 \<times> (string + u256)) list \<Rightarrow> (slot_key \<times> (string + u256)) list" where
  "answers rs = map (\<lambda>(a, s, r). ((a, s), r)) rs"

lemma cached_baseline:
  "map_of (fold (\<lambda>(a, s). hm_insert (a, s) (cached_storage_value c a s)) keys m) k =
     (if k \<in> set keys then Some (cached_storage_value c (fst k) (snd k)) else map_of m k)"
  by (induction keys arbitrary: m) auto

definition baseline :: "evm_cache \<Rightarrow> slot_key list \<Rightarrow> (slot_key \<times> u256 option) list" where
  "baseline c keys = fold (\<lambda>(a, s). hm_insert (a, s) (cached_storage_value c a s)) keys []"

lemma baseline_get:
  "k \<in> set keys \<Longrightarrow> map_of (baseline c keys) k = Some (cached_storage_value c (fst k) (snd k))"
  by (simp add: baseline_def cached_baseline)

definition injections :: "slot_change list \<Rightarrow> (address \<times> u256 \<times> u256) list" where
  "injections changed = map (\<lambda>ch. (sc_address ch, sc_slot ch, sc_new ch)) changed"

text \<open>The lookup in the list of injected values, for a fetch with one answer per key.\<close>

lemma injections_lookup:
  assumes "distinct (map result_key results)" and "result_key ` set results \<subseteq> set keys"
  shows "map_of (rev (map (\<lambda>(a, s, v). ((a, s), v))
           (injections (List.map_filter (detect_change (baseline c keys)) results)))) (b, t) =
     (case map_of (answers results) (b, t) of
        Some (Inr v) \<Rightarrow> then_some (v \<noteq> unwrap_or (cached_storage_value c b t) 0) v
      | _ \<Rightarrow> None)"
  using assms
proof (induction results)
  case Nil
  then show ?case by (simp add: injections_def map_filter_simps answers_def)
next
  case (Cons x results)
  obtain a s r where x: "x = (a, s, r)" by (cases x)
  from Cons.prems have key: "(a, s) \<in> set keys" and fresh: "(a, s) \<notin> result_key ` set results"
    by (auto simp: x result_key_def)
  have none: "map_of (answers results) (a, s) = None"
    using fresh by (force simp: map_of_eq_None_iff result_key_def answers_def)
  have IH: "map_of (rev (map (\<lambda>(a, s, v). ((a, s), v))
           (injections (List.map_filter (detect_change (baseline c keys)) results)))) (b, t) =
     (case map_of (answers results) (b, t) of
        Some (Inr v) \<Rightarrow> then_some (v \<noteq> unwrap_or (cached_storage_value c b t) 0) v
      | _ \<Rightarrow> None)"
    using Cons by simp
  show ?case
    using IH none
    by (cases r)
      (auto simp: x answers_def map_filter_simps baseline_get [OF key] injections_def Let_def
        map_of_append map_add_def then_some_def split: option.splits if_splits)
qed

lemma verify_slots_some:
  assumes "keys \<noteq> []" and "storage_batch_fetcher c = Some fetcher" and "fetcher keys (block c) = Some results"
    and "changed = List.map_filter (detect_change (baseline c keys)) results"
  shows "verify_slots ext keys c =
     map_option (\<lambda>c'. Inr (changed, c'))
       (if changed = [] then Some c else inject_storage_batch_fresh ext (injections changed) c)"
proof -
  have "verify_slots_core ext keys c =
     map_option (\<lambda>c'. Inr ((changed, map fetch_outcome results), c'))
       (if changed = [] then Some c else inject_storage_batch_fresh ext (injections changed) c)"
    using assms by (simp add: verify_slots_core_def Let_def baseline_def injections_def)
  then show ?thesis
    by (simp add: verify_slots_def verify_slots_inner_def option.map_comp comp_def)
qed

lemma verify_slots_reads:
  assumes ok: "verify_slots ext keys c = Some (Inr (changed, c'))" and ne: "keys \<noteq> []"
    and fetcher: "storage_batch_fetcher c = Some fetcher" "fetcher keys (block c) = Some results"
    and dist: "distinct (map result_key results)"
    and sub: "result_key ` set results \<subseteq> set keys"
  shows "cached_storage_value c' b t =
     (case map_of (answers results) (b, t) of
        Some (Inr v) \<Rightarrow> (if v \<noteq> unwrap_or (cached_storage_value c b t) 0 then Some v
                          else cached_storage_value c b t)
      | _ \<Rightarrow> cached_storage_value c b t)"
proof -
  from ok verify_slots_some [OF ne fetcher refl]
  have ch: "changed = List.map_filter (detect_change (baseline c keys)) results"
    and inj: "(if changed = [] then Some c else inject_storage_batch_fresh ext (injections changed) c) = Some c'"
    by auto
  note look = injections_lookup [OF dist sub, of c b t, folded ch]
  have "cached_storage_value c' b t =
     (case map_of (rev (map (\<lambda>(a, s, v). ((a, s), v)) (injections changed))) (b, t) of
        Some v \<Rightarrow> Some v | None \<Rightarrow> cached_storage_value c b t)"
  proof (cases "changed = []")
    case True
    with inj show ?thesis by (simp add: injections_def)
  next
    case False
    with inj show ?thesis using inject_fresh_reads [of ext "injections changed" c c' b t] by simp
  qed
  then show ?thesis
    unfolding look
    by (cases "map_of (answers results) (b, t)") (auto simp: then_some_def split: sum.splits)
qed

text \<open>
  \<^bold>\<open>C9.\<close> \<open>verify_slots\<close> makes the cache agree with the chain: when the fetcher returns and answers each requested
  slot at most once and nothing else, every slot it answered reads the fetched value afterwards
  (an absent slot counts as zero), and every slot whose fetch failed or that was not asked for is
  unchanged.
\<close>

theorem verify_slots_heals:
  assumes "verify_slots ext keys c = Some (Inr (changed, c'))" and "keys \<noteq> []"
    and "storage_batch_fetcher c = Some fetcher" and "fetcher keys (block c) = Some results"
    and "distinct (map result_key results)"
    and "result_key ` set results \<subseteq> set keys"
  shows "case map_of (answers results) (b, t) of
      Some (Inr v) \<Rightarrow> unwrap_or (cached_storage_value c' b t) 0 = v
    | _ \<Rightarrow> cached_storage_value c' b t = cached_storage_value c b t"
  using verify_slots_reads [OF assms, of b t] by (auto split: option.splits sum.splits if_splits)

definition sample_fetcher :: storage_fetcher where
  "sample_fetcher keys blk = Some (map (\<lambda>(a, s). (a, s, if s = 9 then Inl ''timeout'' else Inr 55)) keys)"

theorem verify_slots_heals_witness:
  "\<exists>changed c'. verify_slots sample_ext [(1, 5), (1, 9)]
       (sample_cache\<lparr>storage_batch_fetcher := Some sample_fetcher\<rparr>) = Some (Inr (changed, c')) \<and>
     unwrap_or (cached_storage_value c' 1 5) 0 = 55 \<and>
     cached_storage_value c' 1 9 = cached_storage_value sample_cache 1 9"
proof -
  let ?c = "sample_cache\<lparr>storage_batch_fetcher := Some sample_fetcher\<rparr>"
  obtain d c1 where "apply_updates sample_ext [Slot 1 5 55] ?c = Some (d, c1)"
    using apply_updates_is_Some by blast
  moreover have "cached_storage_value ?c 1 5 = Some 100" "cached_storage_value ?c 1 9 = None"
    by (simp_all add: sample_defs cached_storage_value_def backend_slot_def)
  ultimately obtain changed c' where r: "verify_slots sample_ext [(1, 5), (1, 9)] ?c = Some (Inr (changed, c'))"
    by (auto simp: verify_slots_def verify_slots_inner_def verify_slots_core_def sample_fetcher_def Let_def
        map_filter_simps inject_storage_batch_fresh_def)
  have f: "storage_batch_fetcher ?c = Some sample_fetcher" by simp
  have "sample_fetcher [(1, 5), (1, 9)] (block ?c) = Some [(1, 5, Inr 55), (1, 9, Inl ''timeout'')]"
    by (simp add: sample_fetcher_def)
  note heal = verify_slots_heals [OF r _ f this]
  have "unwrap_or (cached_storage_value c' 1 5) 0 = 55"
    and "cached_storage_value c' 1 9 = cached_storage_value ?c 1 9"
    using heal [of 1 5] heal [of 1 9] by (simp_all add: result_key_def answers_def)
  moreover have "cached_storage_value ?c 1 9 = cached_storage_value sample_cache 1 9"
    by (simp add: cached_storage_value_eq)
  ultimately show ?thesis using r by auto
qed

text \<open>
  \<^bold>\<open>C25.\<close> The change list \<open>verify_slots\<close> returns is exact: under the same contract on the fetcher it
  holds precisely the slots whose readable value changed, with their old and new values.
\<close>

theorem verify_slots_reports_exactly:
  assumes ok: "verify_slots ext keys c = Some (Inr (changed, c'))" and ne: "keys \<noteq> []"
    and f: "storage_batch_fetcher c = Some fetcher" "fetcher keys (block c) = Some results"
    and dist: "distinct (map result_key results)"
    and sub: "result_key ` set results \<subseteq> set keys"
  shows "set changed = slot_changes_between c c'"
proof -
  let ?rs = results
  from ok verify_slots_some [OF ne f refl]
  have ch: "changed = List.map_filter (detect_change (baseline c keys)) ?rs" by auto
  have mem: "map_of (answers ?rs) (a, s) = Some r \<longleftrightarrow> (a, s, r) \<in> set ?rs" for a s r
  proof -
    have "map fst (answers ?rs) = map result_key ?rs"
      by (auto simp: result_key_def answers_def)
    with dist have "distinct (map fst (answers ?rs))" by simp
    then have "map_of (answers ?rs) (a, s) = Some r \<longleftrightarrow>
        ((a, s), r) \<in> set (answers ?rs)"
      by (rule map_of_eq_Some_iff)
    then show ?thesis by (force simp: answers_def)
  qed
  have "x \<in> set changed \<longleftrightarrow> x \<in> slot_changes_between c c'" for x :: slot_change
  proof -
    obtain a s old new where x: "x = \<lparr>sc_address = a, sc_slot = s, sc_old = old, sc_new = new\<rparr>"
      by (cases x) simp
    have det: "detect_change (baseline c keys) (a', s', r) = Some x \<longleftrightarrow> a' = a \<and> s' = s \<and> r = Inr new \<and>
        old = unwrap_or (cached_storage_value c a s) 0 \<and> old \<noteq> new" if "(a', s', r) \<in> set ?rs" for a' s' r
    proof -
      have "(a', s') \<in> set keys" using that sub by (force simp: result_key_def)
      then show ?thesis by (cases r) (auto simp: baseline_get x Let_def)
    qed
    have "x \<in> set changed \<longleftrightarrow> (\<exists>y \<in> set ?rs. detect_change (baseline c keys) y = Some x)"
      by (force simp: ch List.map_filter_def)
    also have "\<dots> \<longleftrightarrow> (a, s, Inr new) \<in> set ?rs \<and> old = unwrap_or (cached_storage_value c a s) 0 \<and> old \<noteq> new"
      using det by force
    also have "\<dots> \<longleftrightarrow> x \<in> slot_changes_between c c'"
      using verify_slots_reads [OF assms, of a s] mem [of a s "Inr new"]
      by (auto simp: slot_changes_between_def x split: option.splits sum.splits if_splits)
    finally show ?thesis .
  qed
  then show ?thesis by blast
qed

theorem verify_slots_reports_exactly_witness:
  "\<exists>changed c'. verify_slots sample_ext [(1, 5)]
       (sample_cache\<lparr>storage_batch_fetcher := Some sample_fetcher\<rparr>) = Some (Inr (changed, c')) \<and>
     set changed = slot_changes_between (sample_cache\<lparr>storage_batch_fetcher := Some sample_fetcher\<rparr>) c' \<and>
     changed = [\<lparr>sc_address = 1, sc_slot = 5, sc_old = 100, sc_new = 55\<rparr>]"
proof -
  let ?c = "sample_cache\<lparr>storage_batch_fetcher := Some sample_fetcher\<rparr>"
  obtain d c1 where "apply_updates sample_ext [Slot 1 5 55] ?c = Some (d, c1)"
    using apply_updates_is_Some by blast
  moreover have "cached_storage_value ?c 1 5 = Some 100"
    by (simp add: sample_defs cached_storage_value_def backend_slot_def)
  ultimately obtain changed c' where r: "verify_slots sample_ext [(1, 5)] ?c = Some (Inr (changed, c'))"
    and ch: "changed = [\<lparr>sc_address = 1, sc_slot = 5, sc_old = 100, sc_new = 55\<rparr>]"
    by (auto simp: verify_slots_def verify_slots_inner_def verify_slots_core_def sample_fetcher_def Let_def
        map_filter_simps inject_storage_batch_fresh_def)
  have f: "storage_batch_fetcher ?c = Some sample_fetcher" by simp
  have "set changed = slot_changes_between ?c c'"
    by (rule verify_slots_reports_exactly [OF r _ f, of "[(1, 5, Inr 55)]"]) (simp_all add: sample_fetcher_def result_key_def)
  with r ch show ?thesis by blast
qed

end
