(* ===== verification/Access_Set.thy ===== *)
theory Access_Set
  imports Prelude "HOL-Library.Multiset"
begin

text \<open>
  \<open>StorageAccessList\<close> of \<^verbatim>\<open>src/access_set.rs\<close>: the set of accounts, code hashes, storage slots and
  block numbers a simulation touched, its set operations, and its conversion to an EIP-2930 access
  list. Hash sets are lists; a \<open>BTreeMap\<close> is an association list that is sorted by key when it is
  iterated.
\<close>

record storage_access_list =
  sal_accounts :: "address hashset"
  sal_code_hashes :: "b256 hashset"
  sal_slots :: "slot_key hashset"
  sal_block_numbers :: "u64 hashset"

definition sal_empty :: storage_access_list where
  "sal_empty = \<lparr>sal_accounts = [], sal_code_hashes = [], sal_slots = [], sal_block_numbers = []\<rparr>"

definition sal_is_empty :: "storage_access_list \<Rightarrow> bool" where
  "sal_is_empty l \<longleftrightarrow> sal_accounts l = [] \<and> sal_code_hashes l = [] \<and> sal_slots l = [] \<and> sal_block_numbers l = []"

definition sal_extend :: "storage_access_list \<Rightarrow> storage_access_list \<Rightarrow> storage_access_list" where
  "sal_extend l other =
     \<lparr>sal_accounts = hs_extend (sal_accounts l) (sal_accounts other),
      sal_code_hashes = hs_extend (sal_code_hashes l) (sal_code_hashes other),
      sal_slots = hs_extend (sal_slots l) (sal_slots other),
      sal_block_numbers = hs_extend (sal_block_numbers l) (sal_block_numbers other)\<rparr>"

definition hs_difference :: "'a hashset \<Rightarrow> 'a hashset \<Rightarrow> 'a hashset" where
  "hs_difference xs ys = filter (\<lambda>x. x \<notin> set ys) xs"

definition hs_intersection :: "'a hashset \<Rightarrow> 'a hashset \<Rightarrow> 'a hashset" where
  "hs_intersection xs ys = filter (\<lambda>x. x \<in> set ys) xs"

definition hs_is_subset :: "'a hashset \<Rightarrow> 'a hashset \<Rightarrow> bool" where
  "hs_is_subset xs ys = list_all (\<lambda>x. x \<in> set ys) xs"

definition missing_from :: "storage_access_list \<Rightarrow> storage_access_list \<Rightarrow> storage_access_list" where
  "missing_from l available =
     \<lparr>sal_accounts = hs_difference (sal_accounts l) (sal_accounts available),
      sal_code_hashes = hs_difference (sal_code_hashes l) (sal_code_hashes available),
      sal_slots = hs_difference (sal_slots l) (sal_slots available),
      sal_block_numbers = hs_difference (sal_block_numbers l) (sal_block_numbers available)\<rparr>"

definition is_covered_by :: "storage_access_list \<Rightarrow> storage_access_list \<Rightarrow> bool" where
  "is_covered_by l available \<longleftrightarrow>
     hs_is_subset (sal_accounts l) (sal_accounts available) \<and>
     hs_is_subset (sal_code_hashes l) (sal_code_hashes available) \<and>
     hs_is_subset (sal_slots l) (sal_slots available) \<and>
     hs_is_subset (sal_block_numbers l) (sal_block_numbers available)"

definition marginal_gas_savings :: "storage_access_list \<Rightarrow> storage_access_list \<Rightarrow> u64" where
  "marginal_gas_savings l warm =
     of_nat (length (hs_intersection (sal_accounts l) (sal_accounts warm))) * 2500 +
     of_nat (length (hs_intersection (sal_slots l) (sal_slots warm))) * 2000"

section \<open>EIP-2930 conversion\<close>

type_synonym access_list = "(address \<times> b256 list) list"

definition push_slot :: "slot_key \<Rightarrow> (address, b256 list) hashmap \<Rightarrow> (address, b256 list) hashmap" where
  "push_slot k m = hm_insert (fst k) (unwrap_or (hm_get m (fst k)) [] @ [snd k]) m"

definition by_address :: "storage_access_list \<Rightarrow> (address, b256 list) hashmap" where
  "by_address l = fold push_slot (sal_slots l) (fold (\<lambda>a. hm_insert a []) (sal_accounts l) [])"

definition to_eip2930 :: "storage_access_list \<Rightarrow> access_list" where
  "to_eip2930 l = map (\<lambda>(a, ks). (a, remdups_adj (sort ks))) (sort_key fst (by_address l))"

section \<open>Set laws\<close>

lemma set_hs_difference [simp]: "set (hs_difference xs ys) = set xs - set ys"
  by (auto simp: hs_difference_def)

lemma set_hs_intersection [simp]: "set (hs_intersection xs ys) = set xs \<inter> set ys"
  by (auto simp: hs_intersection_def)

lemma hs_is_subset_iff [simp]: "hs_is_subset xs ys \<longleftrightarrow> set xs \<subseteq> set ys"
  by (auto simp: hs_is_subset_def list_all_iff)

lemma hs_difference_empty_iff: "hs_difference xs ys = [] \<longleftrightarrow> set xs \<subseteq> set ys"
  by (auto simp: hs_difference_def filter_empty_conv)

section \<open>The conversion\<close>

lemma push_slot_get:
  "map_of (push_slot k m) a =
     (if a = fst k then Some (unwrap_or (map_of m a) [] @ [snd k]) else map_of m a)"
  by (simp add: push_slot_def)

lemma fold_push_slot_get:
  "map_of (fold push_slot ks m) a =
     (if a \<in> fst ` set ks \<or> map_of m a \<noteq> None
      then Some (unwrap_or (map_of m a) [] @ map snd (filter (\<lambda>k. fst k = a) ks)) else None)"
  by (induction ks arbitrary: m) (auto simp: push_slot_get)

lemma fold_account_entries:
  "map_of (fold (\<lambda>a. hm_insert a ([] :: b256 list)) as m) a = (if a \<in> set as then Some [] else map_of m a)"
  by (induction as arbitrary: m) auto

lemma by_address_get:
  "map_of (by_address l) a =
     (if a \<in> set (sal_accounts l) \<union> fst ` set (sal_slots l)
      then Some (map snd (filter (\<lambda>k. fst k = a) (sal_slots l))) else None)"
  by (auto simp: by_address_def fold_push_slot_get fold_account_entries)

lemma hm_ok_fold_push: "hm_ok m \<Longrightarrow> hm_ok (fold push_slot ks m)"
  by (induction ks arbitrary: m) (auto simp: push_slot_def)

lemma hm_ok_by_address [simp]: "hm_ok (by_address l)"
proof -
  have "hm_ok (fold (\<lambda>a. hm_insert a ([] :: b256 list)) as m)" if "hm_ok m" for as :: "address list" and m
    using that by (induction as arbitrary: m) auto
  then show ?thesis by (simp add: by_address_def hm_ok_fold_push)
qed

lemma distinct_sort_key_fst:
  assumes "hm_ok m" shows "distinct (map fst (sort_key fst m))"
proof -
  have "mset (map fst (sort_key fst m)) = mset (map fst m)" by simp
  with assms show ?thesis unfolding hm_ok_def by (metis mset_eq_imp_distinct_iff)
qed

lemma map_fst_eip2930: "map fst (to_eip2930 l) = map fst (sort_key fst (by_address l))"
  by (simp add: to_eip2930_def comp_def split_def)

lemma to_eip2930_entry:
  "(a, ks) \<in> set (to_eip2930 l) \<longleftrightarrow>
     (\<exists>xs. map_of (by_address l) a = Some xs \<and> ks = remdups_adj (sort xs))"
  using hm_get_iff_mem [OF hm_ok_by_address, of l a] by (force simp: to_eip2930_def)

lemma sorted_remdups_adj_distinct: "sorted xs \<Longrightarrow> distinct (remdups_adj xs)" for xs :: "'a::linorder list"
proof (induction xs rule: remdups_adj.induct)
  case (3 x y xs)
  then show ?case by (cases "x = y") fastforce+
qed simp_all

lemma sorted_distinct_keys: "sorted (remdups_adj (sort xs)) \<and> distinct (remdups_adj (sort (xs :: b256 list)))"
  by (simp add: sorted_remdups_adj_distinct)

text \<open>
  The EIP-2930 list of an access set is canonical and complete: its addresses are strictly
  increasing, each entry's keys are strictly increasing, an address appears exactly when the set
  names the account or one of its slots, and its keys are exactly the slots the set has for it.
\<close>

lemma to_eip2930_canonical:
  "sorted_wrt (<) (map fst (to_eip2930 l)) \<and>
   list_all (\<lambda>(a, ks). sorted_wrt (<) ks) (to_eip2930 l) \<and>
   fst ` set (to_eip2930 l) = set (sal_accounts l) \<union> fst ` set (sal_slots l) \<and>
   {(a, k). \<exists>ks. (a, ks) \<in> set (to_eip2930 l) \<and> k \<in> set ks} = set (sal_slots l)"
proof (intro conjI)
  show "sorted_wrt (<) (map fst (to_eip2930 l))"
    unfolding map_fst_eip2930 strict_sorted_iff
    by (simp add: distinct_sort_key_fst [OF hm_ok_by_address, unfolded set_map] sorted_sort_key)
  show "list_all (\<lambda>(a, ks). sorted_wrt (<) ks) (to_eip2930 l)"
    using sorted_distinct_keys by (auto simp: list_all_iff to_eip2930_entry strict_sorted_iff)
  show "fst ` set (to_eip2930 l) = set (sal_accounts l) \<union> fst ` set (sal_slots l)"
  proof (rule set_eqI)
    fix a
    have "a \<in> fst ` set (to_eip2930 l) \<longleftrightarrow> (\<exists>ks. (a, ks) \<in> set (to_eip2930 l))" by force
    then show "a \<in> fst ` set (to_eip2930 l) \<longleftrightarrow> a \<in> set (sal_accounts l) \<union> fst ` set (sal_slots l)"
      by (simp add: to_eip2930_entry by_address_get)
  qed
  show "{(a, k). \<exists>ks. (a, ks) \<in> set (to_eip2930 l) \<and> k \<in> set ks} = set (sal_slots l)"
    by (force simp: to_eip2930_entry by_address_get split: if_splits)
qed

text \<open>
  \<open>missing_from\<close> and \<open>is_covered_by\<close> agree: a requirement is covered exactly when nothing of it
  is missing, and extending the available set by what is missing always covers it.
\<close>

lemma missing_covers:
  "(is_covered_by l available \<longleftrightarrow> sal_is_empty (missing_from l available)) \<and>
   is_covered_by l (sal_extend available (missing_from l available))"
  by (auto simp: is_covered_by_def sal_is_empty_def missing_from_def hs_difference_empty_iff sal_extend_def)

end
