(* ===== verification/Snapshot.thy ===== *)
theory Snapshot
  imports Cache_Verify Access_Set
begin

text \<open>
  Snapshots (\<^verbatim>\<open>src/cache/snapshot.rs\<close>, and \<open>snapshot\<close>, \<open>refresh_base\<close>, \<open>build_base_full\<close>,
  \<open>snapshot_deep_clone\<close> of \<^verbatim>\<open>src/cache/mod.rs\<close>). The cold layer-2 state is memoised in a base that
  is shared between snapshots; \<open>base_dirty\<close>, \<open>base_full_rebuild\<close> and \<open>base_storage_lens\<close> say
  what of it has to be rebuilt. A shared \<open>Arc\<close> is its contents; converting a map to another hasher
  copies it.
\<close>

section \<open>The snapshot\<close>

record evm_snapshot =
  sn_base :: base_state
  sn_overlay_accounts :: account_map
  sn_overlay_storage :: storage_map
  sn_overlay_code_by_hash :: "(b256, bytes) hashmap"
  sn_storage_cleared :: "address hashset"
  sn_accounts_not_existing :: "address hashset"
  sn_block_hashes :: "(u64, b256) hashmap"
  sn_block_context_hash :: "b256 option"
  sn_block_number :: "u64 option"
  sn_basefee :: "u64 option"
  sn_coinbase :: "address option"
  sn_prevrandao :: "b256 option"
  sn_gas_limit :: "u64 option"
  sn_chain_id :: u64
  sn_timestamp :: "u64 option"
  sn_spec_id :: nat
  sn_shared_memory_capacity :: nat

definition snapshot_account_info :: "evm_snapshot \<Rightarrow> address \<Rightarrow> account_info option" where
  "snapshot_account_info sn a =
     (if a \<in> set (sn_accounts_not_existing sn) then None
      else case hm_get (sn_overlay_accounts sn) a of
             Some i \<Rightarrow> Some i
           | None \<Rightarrow> hm_get (bs_accounts (sn_base sn)) a)"

definition snapshot_storage_value :: "evm_snapshot \<Rightarrow> address \<Rightarrow> u256 \<Rightarrow> u256 option" where
  "snapshot_storage_value sn a s =
     (let from_base = Option.bind (hm_get (bs_storage (sn_base sn)) a) (\<lambda>m. hm_get m s)
      in case hm_get (sn_overlay_storage sn) a of
           Some m \<Rightarrow>
             (case hm_get m s of
                Some v \<Rightarrow> Some v
              | None \<Rightarrow> if a \<in> set (sn_storage_cleared sn) then Some 0 else from_base)
         | None \<Rightarrow> from_base)"

definition snapshot_code :: "evm_snapshot \<Rightarrow> b256 \<Rightarrow> bytes option" where
  "snapshot_code sn h =
     (case hm_get (sn_overlay_code_by_hash sn) h of
        Some code \<Rightarrow> Some code
      | None \<Rightarrow> hm_get (bs_code_by_hash (sn_base sn)) h)"

definition account_code_hash :: "evm_snapshot \<Rightarrow> address \<Rightarrow> b256 option" where
  "account_code_hash sn a = map_option ai_code_hash (snapshot_account_info sn a)"

definition snapshot_block_hash :: "evm_snapshot \<Rightarrow> u64 \<Rightarrow> b256 option" where
  "snapshot_block_hash sn n = hm_get (sn_block_hashes sn) n"

definition storage_keys :: "storage_map \<Rightarrow> slot_key list" where
  "storage_keys m = concat (map (\<lambda>(a, slots). map (\<lambda>(s, _). (a, s)) slots) m)"

definition resident_read_set :: "evm_snapshot \<Rightarrow> storage_access_list" where
  "resident_read_set sn =
     \<lparr>sal_accounts =
        hs_extend (hs_extend (hs_extend [] (map fst (bs_accounts (sn_base sn))))
          (map fst (sn_overlay_accounts sn))) (sn_accounts_not_existing sn),
      sal_code_hashes =
        hs_extend (hs_extend [] (map fst (bs_code_by_hash (sn_base sn)))) (map fst (sn_overlay_code_by_hash sn)),
      sal_slots =
        hs_extend (hs_extend [] (storage_keys (bs_storage (sn_base sn)))) (storage_keys (sn_overlay_storage sn)),
      sal_block_numbers = hs_extend [] (map fst (sn_block_hashes sn))\<rparr>"

definition missing_read_set :: "evm_snapshot \<Rightarrow> storage_access_list \<Rightarrow> storage_access_list" where
  "missing_read_set sn required =
     \<lparr>sal_accounts = filter (\<lambda>a. a \<notin> set (sn_accounts_not_existing sn) \<and> snapshot_account_info sn a = None)
        (sal_accounts required),
      sal_code_hashes = filter (\<lambda>h. snapshot_code sn h = None) (sal_code_hashes required),
      sal_slots = filter (\<lambda>(a, s). snapshot_storage_value sn a s = None) (sal_slots required),
      sal_block_numbers = filter (\<lambda>n. \<not> hm_contains (sn_block_hashes sn) n) (sal_block_numbers required)\<rparr>"

section \<open>The memoised base\<close>

definition code_index :: "account_map \<Rightarrow> (b256, bytes) hashmap" where
  "code_index accts =
     fold (\<lambda>(a, i) m. case ai_code i of None \<Rightarrow> m | Some code \<Rightarrow> hm_insert (ai_code_hash i) code m) accts []"

definition build_base_full :: "evm_cache \<Rightarrow> base_state \<times> evm_cache" where
  "build_base_full c =
     (\<lparr>bs_accounts = bk_accounts c, bs_storage = bk_storage c, bs_code_by_hash = code_index (bk_accounts c)\<rparr>,
      c\<lparr>base_storage_lens := hm_map_values hm_len (bk_storage c)\<rparr>)"

text \<open>Case 2: addresses whose slot count changed, and accounts the base has never seen.\<close>

definition grown_addresses :: "base_state \<Rightarrow> evm_cache \<Rightarrow> address list" where
  "grown_addresses b c =
     map fst (filter (\<lambda>(a, slots). hm_get (base_storage_lens c) a \<noteq> Some (hm_len slots)) (bk_storage c)) @
     map fst (filter (\<lambda>(a, _). \<not> hm_contains (bs_accounts b) a) (bk_accounts c))"

text \<open>Case 4: rebuild one dirty address.\<close>

record rebuild =
  rb_accounts :: account_map
  rb_storage :: storage_map
  rb_lens :: "(address, nat) hashmap"

definition rebuild_address :: "account_map \<Rightarrow> storage_map \<Rightarrow> address \<Rightarrow> rebuild \<Rightarrow> rebuild" where
  "rebuild_address db_accts db_stor a r =
     (let r1 = (case hm_get db_accts a of
                  Some i \<Rightarrow> r\<lparr>rb_accounts := hm_insert a i (rb_accounts r)\<rparr>
                | None \<Rightarrow> r\<lparr>rb_accounts := hm_remove a (rb_accounts r)\<rparr>)
      in case hm_get db_stor a of
           Some sl \<Rightarrow> r1\<lparr>rb_lens := hm_insert a (hm_len sl) (rb_lens r1),
                            rb_storage := hm_insert a sl (rb_storage r1)\<rparr>
         | None \<Rightarrow> r1\<lparr>rb_storage := hm_remove a (rb_storage r1), rb_lens := hm_remove a (rb_lens r1)\<rparr>)"

definition refresh_base :: "evm_cache \<Rightarrow> evm_cache" where
  "refresh_base c =
     (if base c = None \<or> base_full_rebuild c
      then (let (b, c1) = build_base_full c
            in c1\<lparr>base := Some b, base_dirty := [], base_full_rebuild := False\<rparr>)
      else case base c of
             None \<Rightarrow> c
           | Some prev \<Rightarrow>
               (let dirty = hs_extend (base_dirty c) (grown_addresses prev c)
                in if dirty = [] then c
                   else (let r = fold (rebuild_address (bk_accounts c) (bk_storage c)) dirty
                               \<lparr>rb_accounts = bs_accounts prev, rb_storage = bs_storage prev,
                                rb_lens = base_storage_lens c\<rparr>
                         in c\<lparr>base := Some \<lparr>bs_accounts = rb_accounts r, bs_storage = rb_storage r,
                                            bs_code_by_hash = code_index (rb_accounts r)\<rparr>,
                              base_storage_lens := rb_lens r, base_dirty := []\<rparr>)))"

section \<open>Taking a snapshot\<close>

text \<open>The accumulators of the loop over layer 1.\<close>

record layer1_fold =
  lf_accounts :: account_map
  lf_storage :: storage_map
  lf_code :: "(b256, bytes) hashmap"
  lf_cleared :: "address hashset"
  lf_not_existing :: "address hashset"

definition layer1_step :: "address \<times> db_account \<Rightarrow> layer1_fold \<Rightarrow> layer1_fold" where
  "layer1_step entry f =
     (let a = fst entry; d = snd entry;
          not_existing = (da_state d = NotExisting);
          cleared = (not_existing \<or> da_state d = StorageCleared);
          f1 = (if not_existing then f\<lparr>lf_not_existing := List.insert a (lf_not_existing f)\<rparr>
                else f\<lparr>lf_code := (case ai_code (da_info d) of
                           None \<Rightarrow> lf_code f
                         | Some code \<Rightarrow> hm_insert (ai_code_hash (da_info d)) code (lf_code f)),
                       lf_accounts := hm_insert a (da_info d) (lf_accounts f)\<rparr>)
      in if cleared
         then f1\<lparr>lf_cleared := List.insert a (lf_cleared f1),
                 lf_storage := hm_insert a (da_storage d) (lf_storage f1)\<rparr>
         else if da_storage d \<noteq> []
         then f1\<lparr>lf_storage :=
                   hm_insert a (hm_extend (hm_or_default (lf_storage f1) a) (da_storage d)) (lf_storage f1)\<rparr>
         else f1)"

definition fits_u64 :: "u256 \<Rightarrow> bool" where
  "fits_u64 n \<longleftrightarrow> unat n < 2 ^ 64"

definition add_block_hash :: "u256 \<times> b256 \<Rightarrow> (u64, b256) hashmap \<Rightarrow> (u64, b256) hashmap" where
  "add_block_hash e m = (if fits_u64 (fst e) then hm_insert (ucast (fst e)) (snd e) m else m)"

definition snapshot_block_hashes :: "evm_cache \<Rightarrow> (u64, b256) hashmap" where
  "snapshot_block_hashes c =
     fold add_block_hash (db_block_hashes c) (fold add_block_hash (bk_block_hashes c) [])"

definition with_context :: "evm_cache \<Rightarrow> base_state \<Rightarrow> layer1_fold \<Rightarrow> evm_snapshot" where
  "with_context c b f =
     \<lparr>sn_base = b, sn_overlay_accounts = lf_accounts f, sn_overlay_storage = lf_storage f,
      sn_overlay_code_by_hash = lf_code f, sn_storage_cleared = lf_cleared f,
      sn_accounts_not_existing = lf_not_existing f, sn_block_hashes = snapshot_block_hashes c,
      sn_block_context_hash = as_block_hash (block c), sn_block_number = block_number c,
      sn_basefee = basefee c, sn_coinbase = coinbase c, sn_prevrandao = prevrandao c,
      sn_gas_limit = block_gas_limit c, sn_chain_id = chain_id c, sn_timestamp = timestamp_override c,
      sn_spec_id = spec_id c, sn_shared_memory_capacity = shared_memory_capacity c\<rparr>"

definition empty_fold :: layer1_fold where
  "empty_fold = \<lparr>lf_accounts = [], lf_storage = [], lf_code = [], lf_cleared = [], lf_not_existing = []\<rparr>"

text \<open>The \<open>expect\<close> on the base after \<open>refresh_base\<close> is the \<open>None\<close> case.\<close>

definition snapshot :: "evm_cache \<Rightarrow> (evm_snapshot \<times> evm_cache) option" where
  "snapshot c =
     (let c1 = refresh_base c
      in map_option (\<lambda>b. (with_context c1 b (fold layer1_step (db_accounts c1) empty_fold), c1)) (base c1))"

section \<open>The deep-clone reference\<close>

record deep_clone =
  dc_accounts :: account_map
  dc_storage :: storage_map
  dc_code :: "(b256, bytes) hashmap"
  dc_overlay_storage :: storage_map
  dc_cleared :: "address hashset"
  dc_not_existing :: "address hashset"

definition deep_clone_step :: "address \<times> db_account \<Rightarrow> deep_clone \<Rightarrow> deep_clone" where
  "deep_clone_step entry f =
     (let a = fst entry; d = snd entry;
          not_existing = (da_state d = NotExisting);
          cleared = (not_existing \<or> da_state d = StorageCleared);
          f1 = (if not_existing
                then f\<lparr>dc_not_existing := List.insert a (dc_not_existing f),
                       dc_accounts := hm_remove a (dc_accounts f)\<rparr>
                else f\<lparr>dc_code := (case ai_code (da_info d) of
                           None \<Rightarrow> dc_code f
                         | Some code \<Rightarrow> hm_insert (ai_code_hash (da_info d)) code (dc_code f)),
                       dc_accounts := hm_insert a (da_info d) (dc_accounts f)\<rparr>)
      in if cleared
         then f1\<lparr>dc_cleared := List.insert a (dc_cleared f1),
                 dc_storage := hm_remove a (dc_storage f1),
                 dc_overlay_storage := hm_insert a (da_storage d) (dc_overlay_storage f1)\<rparr>
         else f1\<lparr>dc_storage :=
                   hm_insert a (hm_extend (hm_or_default (dc_storage f1) a) (da_storage d)) (dc_storage f1)\<rparr>)"

definition snapshot_deep_clone :: "evm_cache \<Rightarrow> evm_snapshot" where
  "snapshot_deep_clone c =
     (let f = fold deep_clone_step (db_accounts c)
            \<lparr>dc_accounts = bk_accounts c, dc_storage = bk_storage c, dc_code = code_index (bk_accounts c),
             dc_overlay_storage = [], dc_cleared = [], dc_not_existing = []\<rparr>
      in with_context c
           \<lparr>bs_accounts = dc_accounts f, bs_storage = dc_storage f, bs_code_by_hash = dc_code f\<rparr>
           \<lparr>lf_accounts = [], lf_storage = dc_overlay_storage f, lf_code = [], lf_cleared = dc_cleared f,
            lf_not_existing = dc_not_existing f\<rparr>)"

end
