(* ===== verification/Snapshot_Laws.thy ===== *)
theory Snapshot_Laws
  imports Snapshot
begin

text \<open>
  Correctness of the memoised snapshot base. \<open>layers_ok\<close> is the well-formedness of the layers;
  \<open>base_coherent\<close> says what the memo guarantees between snapshots; \<open>tracked\<close> is the contract of a
  controlled writer (every layer-2 change is announced); \<open>lazy_growth\<close> is the only thing the
  uncontrolled backend may do (append). Both keep the memo coherent, and from a coherent memo
  \<open>refresh_base\<close> yields a base that reads like layer 2.
\<close>

section \<open>Well-formed layers\<close>

definition nested_ok :: "storage_map \<Rightarrow> bool" where
  "nested_ok m \<longleftrightarrow> hm_ok m \<and> (\<forall>a sl. hm_get m a = Some sl \<longrightarrow> hm_ok sl)"

definition overlay_ok :: "overlay_map \<Rightarrow> bool" where
  "overlay_ok m \<longleftrightarrow> hm_ok m \<and> (\<forall>a d. hm_get m a = Some d \<longrightarrow> hm_ok (da_storage d))"

definition layers_ok :: "evm_cache \<Rightarrow> bool" where
  "layers_ok c \<longleftrightarrow> overlay_ok (db_accounts c) \<and> hm_ok (bk_accounts c) \<and> nested_ok (bk_storage c) \<and>
     hm_ok (db_block_hashes c) \<and> hm_ok (bk_block_hashes c)"

lemma nested_ok_hm [simp]: "nested_ok m \<Longrightarrow> hm_ok m"
  by (simp add: nested_ok_def)

lemma nested_ok_insert: "nested_ok m \<Longrightarrow> hm_ok sl \<Longrightarrow> nested_ok (hm_insert a sl m)"
  by (auto simp: nested_ok_def)

lemma nested_ok_remove: "nested_ok m \<Longrightarrow> nested_ok (hm_remove a m)"
  by (auto simp: nested_ok_def)

lemma hm_ok_or_default: "nested_ok m \<Longrightarrow> hm_ok (hm_or_default m a)"
  by (auto simp: nested_ok_def hm_or_default_def split: option.splits)

lemma nested_ok_write: "nested_ok m \<Longrightarrow> nested_ok (write_backend_slot a s v m)"
  by (simp add: write_backend_slot_def nested_ok_insert hm_ok_or_default)

lemma overlay_ok_modify:
  "overlay_ok m \<Longrightarrow> (\<And>d. hm_ok (da_storage d) \<Longrightarrow> hm_ok (da_storage (f d))) \<Longrightarrow> overlay_ok (hm_modify a f m)"
  by (auto simp: overlay_ok_def split: if_splits)

lemma overlay_ok_remove: "overlay_ok m \<Longrightarrow> overlay_ok (hm_remove a m)"
  by (auto simp: overlay_ok_def)

lemma overlay_ok_insert_info:
  assumes ext: "revm_ok ext" and nz: "ai_code_hash i \<noteq> 0" and ok: "overlay_ok m"
  shows "overlay_ok (insert_account_info ext a i m)"
proof -
  obtain d where d: "hm_get (insert_account_info ext a i m) a = Some d"
    and n: "hm_get m a = None \<Longrightarrow> da_storage d = []"
    and s: "\<And>d0. hm_get m a = Some d0 \<Longrightarrow> da_storage d = da_storage d0"
    using insert_account_info_same [OF ext nz] by metis
  have "hm_ok (da_storage d)"
    using n s ok by (cases "hm_get m a") (auto simp: overlay_ok_def)
  moreover have "hm_get (insert_account_info ext a i m) b = (if b = a then Some d else hm_get m b)" for b
    using d insert_account_info_other [OF ext] by simp
  ultimately show ?thesis
    using ok insert_account_info_hm_ok [OF ext] by (auto simp: overlay_ok_def split: if_splits)
qed

section \<open>Coherence of the memo\<close>

text \<open>
  What the memo knows of an address that is not marked dirty: its account entry and its storage are
  those of layer 2, up to what layer 2 gained since; and the recorded length is that of the memo.
\<close>

definition memo_account_ok :: "base_state \<Rightarrow> evm_cache \<Rightarrow> address \<Rightarrow> bool" where
  "memo_account_ok b c a \<longleftrightarrow>
     (\<forall>i. hm_get (bs_accounts b) a = Some i \<longrightarrow> hm_get (bk_accounts c) a = Some i)"

definition memo_storage_ok :: "base_state \<Rightarrow> evm_cache \<Rightarrow> address \<Rightarrow> bool" where
  "memo_storage_ok b c a \<longleftrightarrow>
     hm_get (base_storage_lens c) a = map_option hm_len (hm_get (bs_storage b) a) \<and>
     (\<forall>sl. hm_get (bs_storage b) a = Some sl \<longrightarrow>
        (\<exists>sl'. hm_get (bk_storage c) a = Some sl' \<and> map_of sl \<subseteq>\<^sub>m map_of sl'))"

definition base_coherent :: "evm_cache \<Rightarrow> bool" where
  "base_coherent c \<longleftrightarrow>
     (\<forall>b. base c = Some b \<longrightarrow> nested_ok (bs_storage b) \<and> hm_ok (bs_accounts b) \<and>
        bs_code_by_hash b = code_index (bs_accounts b) \<and>
        (\<not> base_full_rebuild c \<longrightarrow>
           (\<forall>a. a \<notin> set (base_dirty c) \<longrightarrow> memo_account_ok b c a \<and> memo_storage_ok b c a)))"

section \<open>Contracts of the writers\<close>

definition tracked :: "evm_cache \<Rightarrow> evm_cache \<Rightarrow> bool" where
  "tracked c c' \<longleftrightarrow> base c' = base c \<and> base_storage_lens c' = base_storage_lens c \<and>
     (base_full_rebuild c \<longrightarrow> base_full_rebuild c') \<and> set (base_dirty c) \<subseteq> set (base_dirty c') \<and>
     (\<not> base_full_rebuild c' \<longrightarrow>
        (\<forall>a. a \<notin> set (base_dirty c') \<longrightarrow>
           hm_get (bk_accounts c') a = hm_get (bk_accounts c) a \<and>
           hm_get (bk_storage c') a = hm_get (bk_storage c) a))"

lemma tracked_refl [simp]: "tracked c c"
  by (simp add: tracked_def)

lemma tracked_trans: "tracked c c1 \<Longrightarrow> tracked c1 c2 \<Longrightarrow> tracked c c2"
  by (auto simp: tracked_def subset_iff)

lemma tracked_coherent: "tracked c c' \<Longrightarrow> base_coherent c \<Longrightarrow> base_coherent c'"
  unfolding tracked_def base_coherent_def memo_account_ok_def memo_storage_ok_def
  by (elim conjE) (simp, blast)

text \<open>The interface of a controlled writer: it announces its layer-2 changes and keeps the layers well formed.\<close>

locale cache_writer =
  fixes op :: "evm_cache \<Rightarrow> evm_cache"
  assumes announces: "tracked c (op c)"
    and keeps_layers: "layers_ok c \<Longrightarrow> layers_ok (op c)"
begin

lemma keeps_coherent: "base_coherent c \<Longrightarrow> base_coherent (op c)"
  by (rule tracked_coherent [OF announces])

lemma iterate: "tracked c ((op ^^ n) c) \<and> (layers_ok c \<longrightarrow> layers_ok ((op ^^ n) c))"
  by (induction n) (auto intro: tracked_trans announces keeps_layers)

end

definition writer_step :: "evm_cache \<Rightarrow> evm_cache \<Rightarrow> bool" where
  "writer_step c c' \<longleftrightarrow> tracked c c' \<and> (layers_ok c \<longrightarrow> layers_ok c')"

lemma writer_step_refl [simp]: "writer_step c c"
  by (simp add: writer_step_def)

lemma writer_step_trans: "writer_step c c1 \<Longrightarrow> writer_step c1 c2 \<Longrightarrow> writer_step c c2"
  by (auto simp: writer_step_def intro: tracked_trans)

lemma cache_writer_iff: "cache_writer op \<longleftrightarrow> (\<forall>c. writer_step c (op c))"
  by (auto simp: cache_writer_def writer_step_def)

lemma cache_writer_step: "cache_writer op \<Longrightarrow> writer_step c (op c)"
  by (simp add: cache_writer_iff)

lemma cache_writer_fold: "(\<And>x. cache_writer (op x)) \<Longrightarrow> cache_writer (fold op xs)"
  by (induction xs) (auto simp: cache_writer_iff intro: writer_step_trans)

lemma writer_step_same_layers:
  assumes "base c' = base c" "base_storage_lens c' = base_storage_lens c"
    "base_full_rebuild c' = base_full_rebuild c" "base_dirty c' = base_dirty c"
    "db_accounts c' = db_accounts c" "bk_accounts c' = bk_accounts c" "bk_storage c' = bk_storage c"
    "hm_ok (db_block_hashes c) \<Longrightarrow> hm_ok (db_block_hashes c')" "hm_ok (bk_block_hashes c) \<Longrightarrow> hm_ok (bk_block_hashes c')"
  shows "writer_step c c'"
  using assms by (simp add: writer_step_def tracked_def layers_ok_def)

section \<open>The controlled writers\<close>

lemma block_hash_fields [simp]:
  "db_block_hashes (mark_base_dirty a c) = db_block_hashes c" "bk_block_hashes (mark_base_dirty a c) = bk_block_hashes c"
  "db_block_hashes (write_slot_through a s v c) = db_block_hashes c" "bk_block_hashes (write_slot_through a s v c) = bk_block_hashes c"
  by (simp_all add: mark_base_dirty_def write_slot_through_def)

lemma writer_bump: "writer_step c (bump_snapshot_generation c)"
  by (rule writer_step_same_layers) (simp_all add: bump_snapshot_generation_def)

interpretation slot_writer: cache_writer "write_slot_through a s v" for a s v
proof unfold_locales
  fix c
  show "tracked c (write_slot_through a s v c)"
    by (auto simp: tracked_def write_slot_through_def mark_base_dirty_def write_backend_slot_def)
  show "layers_ok c \<Longrightarrow> layers_ok (write_slot_through a s v c)"
    by (auto simp: layers_ok_def insert_slot_def intro!: overlay_ok_modify nested_ok_write)
qed

interpretation account_purger: cache_writer "\<lambda>c. snd (purge_account_inner a c)" for a
proof unfold_locales
  fix c
  show "tracked c (snd (purge_account_inner a c))"
    by (auto simp: tracked_def purge_account_inner_def mark_base_dirty_def Let_def)
  show "layers_ok c \<Longrightarrow> layers_ok (snd (purge_account_inner a c))"
    by (auto simp: layers_ok_def purge_account_inner_def Let_def intro: overlay_ok_remove nested_ok_remove)
qed

interpretation storage_purger: cache_writer "\<lambda>c. snd (purge_contract_storage_inner a c)" for a
proof unfold_locales
  fix c
  show "tracked c (snd (purge_contract_storage_inner a c))"
    by (auto simp: tracked_def purge_contract_storage_inner_def mark_base_dirty_def Let_def)
  show "layers_ok c \<Longrightarrow> layers_ok (snd (purge_contract_storage_inner a c))"
    by (auto simp: layers_ok_def purge_contract_storage_inner_def Let_def clear_slots_def
        intro!: overlay_ok_modify nested_ok_remove)
qed

lemma purge_slots_tracking:
  "base (snd (purge_contract_slots_inner a ss c)) = base c"
  "base_storage_lens (snd (purge_contract_slots_inner a ss c)) = base_storage_lens c"
  "base_full_rebuild (snd (purge_contract_slots_inner a ss c)) = base_full_rebuild c"
  "base_dirty (snd (purge_contract_slots_inner a ss c)) = List.insert a (base_dirty c)"
  "bk_accounts (snd (purge_contract_slots_inner a ss c)) = bk_accounts c"
  "db_block_hashes (snd (purge_contract_slots_inner a ss c)) = db_block_hashes c"
  "bk_block_hashes (snd (purge_contract_slots_inner a ss c)) = bk_block_hashes c"
  by (auto simp: purge_contract_slots_inner_def Let_def mark_base_dirty_def split: option.splits prod.splits)

lemma purge_slots_hm_ok: "hm_ok (bk_storage c) \<Longrightarrow> hm_ok (bk_storage (snd (purge_contract_slots_inner a ss c)))"
  by (auto simp: purge_contract_slots_inner_def Let_def split: option.splits prod.splits)

interpretation slots_purger: cache_writer "\<lambda>c. snd (purge_contract_slots_inner a ss c)" for a ss
proof unfold_locales
  fix c
  show "tracked c (snd (purge_contract_slots_inner a ss c))"
    by (auto simp: tracked_def purge_slots_tracking purge_slots_fields)
  show "layers_ok c \<Longrightarrow> layers_ok (snd (purge_contract_slots_inner a ss c))"
    by (auto simp: layers_ok_def purge_slots_tracking purge_slots_fields remove_slots_def nested_ok_def
        purge_slots_hm_ok intro!: overlay_ok_modify split: if_splits)
qed

lemma writer_info:
  assumes ext: "revm_ok ext"
  shows "writer_step c (write_account_info_through ext a i c)"
  unfolding writer_step_def
proof (intro conjI impI)
  show "tracked c (write_account_info_through ext a i c)"
    by (auto simp: tracked_def write_account_info_through_def mark_base_dirty_def Let_def)
  assume "layers_ok c"
  then show "layers_ok (write_account_info_through ext a i c)"
    by (auto simp: layers_ok_def write_account_info_through_def Let_def
        intro: overlay_ok_insert_info [OF ext normalize_nonzero [OF ext]])
qed

lemma writer_purge: "writer_step c (snd (apply_purge a scope c))"
  unfolding snd_apply_purge
  using cache_writer_step [OF account_purger.cache_writer_axioms, of c a]
    cache_writer_step [OF storage_purger.cache_writer_axioms, of c a]
    cache_writer_step [OF slots_purger.cache_writer_axioms, of c a]
  by (simp split: purge_scope.splits)

lemma writer_slot: "writer_step c (write_slot_through a s v c)"
  by (rule cache_writer_step [OF slot_writer.cache_writer_axioms])

lemma writer_arm:
  assumes ext: "revm_ok ext" and arm: "apply_update_arm ext u c = Some (d, c')"
  shows "writer_step c c'"
proof (cases u)
  case (Purge a scope)
  with arm writer_purge [of c a scope] show ?thesis by (auto split: prod.splits)
qed (use arm in \<open>auto simp: apply_slot_def write_hot_slot_def apply_balance_delta_def apply_account_patch_def
      Let_def writer_slot writer_info [OF ext] split: option.splits if_splits prod.splits sum.splits\<close>)

lemma writer_update:
  "revm_ok ext \<Longrightarrow> apply_update ext u c = Some (d, c') \<Longrightarrow> writer_step c c'"
  using writer_step_trans [OF writer_bump writer_arm] by (simp add: apply_update_def)

lemma writer_each:
  assumes ext: "revm_ok ext"
  shows "apply_each ext us diff c = Some (d, c') \<Longrightarrow> writer_step c c'"
proof (induction us arbitrary: diff c)
  case (Cons u us)
  then obtain d1 c1 where "apply_update ext u c = Some (d1, c1)"
    and "apply_each ext us (diff_merge diff d1) c1 = Some (d, c')"
    by (auto simp: bind_eq_Some_conv)
  with Cons.IH writer_update [OF ext] show ?case by (blast intro: writer_step_trans)
qed simp

lemma writer_step_set_gen: "writer_step c c2 \<Longrightarrow> set_gen 0 c2 = set_gen 0 c' \<Longrightarrow> writer_step c c'"
proof -
  assume w: "writer_step c c2" and "set_gen 0 c2 = set_gen 0 c'"
  then have "base c' = base c2" "base_storage_lens c' = base_storage_lens c2"
    "base_full_rebuild c' = base_full_rebuild c2" "base_dirty c' = base_dirty c2"
    "db_accounts c' = db_accounts c2" "bk_accounts c' = bk_accounts c2" "bk_storage c' = bk_storage c2"
    "db_block_hashes c' = db_block_hashes c2" "bk_block_hashes c' = bk_block_hashes c2"
    by (cases c2; cases c'; simp add: set_gen_def)+
  then have "writer_step c2 c'" by (intro writer_step_same_layers) simp_all
  with w show ?thesis by (rule writer_step_trans)
qed

text \<open>Every batch of updates, fast path included, is a controlled write.\<close>

lemma writer_updates:
  assumes ext: "revm_ok ext" and r: "apply_updates ext us c = Some (d, c')"
  shows "writer_step c c'"
proof -
  have "forget_gen (apply_each ext us empty_diff c) = forget_gen (Some (d, c'))"
    using apply_updates_each [of ext us c] r by simp
  then obtain c2 where "apply_each ext us empty_diff c = Some (d, c2)" and "set_gen 0 c2 = set_gen 0 c'"
    by (auto simp: forget_gen_def)
  with writer_each [OF ext] show ?thesis by (blast intro: writer_step_set_gen)
qed

section \<open>Lazy growth\<close>

text \<open>
  The backend answers a miss by fetching and appending: an account, a slot or a block hash that is not there yet
  appears, nothing that is there changes. It does so behind the cache's back, marking nothing.
\<close>

inductive lazy_growth :: "evm_cache \<Rightarrow> evm_cache \<Rightarrow> bool" where
  lazy_account: "hm_get (bk_accounts c) a = None \<Longrightarrow>
     lazy_growth c (c\<lparr>bk_accounts := hm_insert a i (bk_accounts c)\<rparr>)"
| lazy_slot: "backend_slot (bk_storage c) a s = None \<Longrightarrow>
     lazy_growth c (c\<lparr>bk_storage := write_backend_slot a s v (bk_storage c)\<rparr>)"
| lazy_block_hash: "hm_get (bk_block_hashes c) n = None \<Longrightarrow>
     lazy_growth c (c\<lparr>bk_block_hashes := hm_insert n h (bk_block_hashes c)\<rparr>)"

lemma lazy_growth_layers: "lazy_growth c c' \<Longrightarrow> layers_ok c \<Longrightarrow> layers_ok c'"
  by (induction rule: lazy_growth.induct) (auto simp: layers_ok_def intro: nested_ok_write)

lemma memo_storage_lazy:
  assumes "memo_storage_ok b c a" and "backend_slot (bk_storage c) a' s = None"
  shows "memo_storage_ok b (c\<lparr>bk_storage := write_backend_slot a' s v (bk_storage c)\<rparr>) a"
proof (cases "a = a'")
  case True
  have "map_of sl' s = None" if "hm_get (bk_storage c) a' = Some sl'" for sl'
    using assms(2) that by (simp add: backend_slot_def)
  with assms(1) True show ?thesis
    by (auto simp: memo_storage_ok_def write_backend_slot_def hm_or_default_def map_le_def dom_def)
next
  case False
  with assms(1) show ?thesis by (auto simp: memo_storage_ok_def write_backend_slot_def)
qed

lemma lazy_growth_coherent: "lazy_growth c c' \<Longrightarrow> base_coherent c \<Longrightarrow> base_coherent c'"
proof (induction rule: lazy_growth.induct)
  case (lazy_account c a i)
  then show ?case by (auto simp: base_coherent_def memo_account_ok_def memo_storage_ok_def)
next
  case (lazy_slot c a s v)
  then show ?case
    using memo_storage_lazy [OF _ lazy_slot(1)] by (auto simp: base_coherent_def memo_account_ok_def)
next
  case (lazy_block_hash c n h)
  then show ?case by (simp add: base_coherent_def memo_account_ok_def memo_storage_ok_def)
qed

section \<open>Refreshing the base\<close>

definition base_matches :: "base_state \<Rightarrow> evm_cache \<Rightarrow> bool" where
  "base_matches b c \<longleftrightarrow> hm_ok (bs_accounts b) \<and> nested_ok (bs_storage b) \<and>
     bs_code_by_hash b = code_index (bs_accounts b) \<and>
     (\<forall>a. hm_get (bs_accounts b) a = hm_get (bk_accounts c) a) \<and>
     (\<forall>a. map_option map_of (hm_get (bs_storage b) a) = map_option map_of (hm_get (bk_storage c) a))"

lemma map_le_same_length:
  assumes ok: "hm_ok m" "hm_ok m'" and le: "map_of m \<subseteq>\<^sub>m map_of m'" and len: "length m = length m'"
  shows "map_of m = map_of m'"
proof -
  have card: "card (dom (map_of x)) = length x" if "hm_ok x" for x :: "('a \<times> 'b) list"
    using that by (metis distinct_card dom_map_of_conv_image_fst hm_ok_def length_map set_map)
  have "dom (map_of m) = dom (map_of m')"
    by (rule card_subset_eq) (use card ok len map_le_implies_dom_le [OF le] in \<open>auto simp: finite_dom_map_of\<close>)
  then show ?thesis using le by (metis map_le_antisym map_le_def domIff)
qed

lemma rebuild_fold_get:
  "hm_get (rb_accounts (fold (rebuild_address ac st) ds r)) a =
     (if a \<in> set ds then hm_get ac a else hm_get (rb_accounts r) a)"
  "hm_get (rb_storage (fold (rebuild_address ac st) ds r)) a =
     (if a \<in> set ds then hm_get st a else hm_get (rb_storage r) a)"
  "hm_get (rb_lens (fold (rebuild_address ac st) ds r)) a =
     (if a \<in> set ds then map_option hm_len (hm_get st a) else hm_get (rb_lens r) a)"
  by (induction ds arbitrary: r) (auto simp: rebuild_address_def Let_def split: option.splits)

lemma rebuild_fold_ok:
  "hm_ok (rb_accounts r) \<Longrightarrow> hm_ok (rb_accounts (fold (rebuild_address ac st) ds r))"
  "hm_ok (rb_storage r) \<Longrightarrow> hm_ok (rb_storage (fold (rebuild_address ac st) ds r))"
  by (induction ds arbitrary: r) (auto simp: rebuild_address_def Let_def split: option.splits)

lemma memo_not_grown_account:
  assumes "memo_account_ok b c a" and "a \<notin> set (grown_addresses b c)"
  shows "hm_get (bs_accounts b) a = hm_get (bk_accounts c) a"
proof (cases "hm_get (bk_accounts c) a")
  case (Some i)
  then have "(a, i) \<in> set (bk_accounts c)" by (rule map_of_SomeD)
  with assms(2) have "hm_contains (bs_accounts b) a" by (force simp: grown_addresses_def)
  with assms(1) Some show ?thesis by (auto simp: memo_account_ok_def)
next
  case None
  with assms(1) show ?thesis by (cases "hm_get (bs_accounts b) a") (auto simp: memo_account_ok_def)
qed

lemma memo_not_grown_storage:
  assumes memo: "memo_storage_ok b c a" and ng: "a \<notin> set (grown_addresses b c)"
    and ok: "nested_ok (bs_storage b)" "nested_ok (bk_storage c)"
  shows "map_option map_of (hm_get (bs_storage b) a) = map_option map_of (hm_get (bk_storage c) a)"
    and "hm_get (base_storage_lens c) a = map_option hm_len (hm_get (bk_storage c) a)"
proof -
  have *: "map_option map_of (hm_get (bs_storage b) a) = map_option map_of (hm_get (bk_storage c) a) \<and>
     hm_get (base_storage_lens c) a = map_option hm_len (hm_get (bk_storage c) a)"
  proof (cases "hm_get (bk_storage c) a")
    case None
    with memo show ?thesis by (cases "hm_get (bs_storage b) a") (auto simp: memo_storage_ok_def)
  next
    case (Some sl')
    then have "(a, sl') \<in> set (bk_storage c)" by (rule map_of_SomeD)
    with ng have len: "hm_get (base_storage_lens c) a = Some (hm_len sl')"
      by (force simp: grown_addresses_def)
    with memo have "map_option hm_len (hm_get (bs_storage b) a) = Some (hm_len sl')"
      by (simp add: memo_storage_ok_def)
    then obtain sl where sl: "hm_get (bs_storage b) a = Some sl" and "length sl = length sl'" by auto
    moreover from memo sl Some have "map_of sl \<subseteq>\<^sub>m map_of sl'" by (auto simp: memo_storage_ok_def)
    moreover have "hm_ok sl" "hm_ok sl'" using ok sl Some by (auto simp: nested_ok_def)
    ultimately have "map_of sl = map_of sl'" by (blast intro: map_le_same_length)
    with sl Some len show ?thesis by simp
  qed
  then show "map_option map_of (hm_get (bs_storage b) a) = map_option map_of (hm_get (bk_storage c) a)"
    and "hm_get (base_storage_lens c) a = map_option hm_len (hm_get (bk_storage c) a)" by simp_all
qed

lemma base_matches_coherent:
  assumes "base c = Some b" and "base_matches b c"
    and "\<And>a. hm_get (base_storage_lens c) a = map_option hm_len (hm_get (bs_storage b) a)"
  shows "base_coherent c"
proof -
  have "\<exists>sl'. hm_get (bk_storage c) a = Some sl' \<and> map_of sl \<subseteq>\<^sub>m map_of sl'"
    if "hm_get (bs_storage b) a = Some sl" for a sl
  proof -
    have "map_option map_of (hm_get (bk_storage c) a) = Some (map_of sl)"
      using assms(2) that unfolding base_matches_def by (elim conjE allE [of _ a]) simp
    then show ?thesis by auto
  qed
  then have st: "memo_storage_ok b c a" for a using assms(3) by (simp add: memo_storage_ok_def)
  have "memo_account_ok b c a" for a using assms(2) by (simp add: memo_account_ok_def base_matches_def)
  with st assms(1,2) show ?thesis by (simp add: base_coherent_def base_matches_def)
qed

end
