(* ===== verification/Snapshot_Props.thy ===== *)
theory Snapshot_Props
  imports Snapshot_Laws
begin

text \<open>
  The properties of snapshots: a snapshot reads what the live cache reads, it agrees with the deep
  clone, its resident read set is complete, and the memoised base stays coherent along every run of
  the cache.
\<close>

section \<open>\<open>refresh_base\<close> is correct\<close>

lemma refresh_base_frame [simp]:
  "db_accounts (refresh_base c) = db_accounts c" "bk_accounts (refresh_base c) = bk_accounts c"
  "bk_storage (refresh_base c) = bk_storage c" "snapshot_generation (refresh_base c) = snapshot_generation c"
  "db_block_hashes (refresh_base c) = db_block_hashes c" "bk_block_hashes (refresh_base c) = bk_block_hashes c"
  by (auto simp: refresh_base_def build_base_full_def Let_def split: option.splits)

lemma refresh_full:
  assumes ok: "layers_ok c" and f: "base c = None \<or> base_full_rebuild c"
  shows "\<exists>b. base (refresh_base c) = Some b \<and> base_matches b (refresh_base c) \<and> base_coherent (refresh_base c)"
proof -
  let ?b = "\<lparr>bs_accounts = bk_accounts c, bs_storage = bk_storage c, bs_code_by_hash = code_index (bk_accounts c)\<rparr>"
  have b: "base (refresh_base c) = Some ?b"
    and lens: "base_storage_lens (refresh_base c) = hm_map_values hm_len (bk_storage c)"
    using f by (auto simp: refresh_base_def build_base_full_def Let_def)
  moreover have "base_matches ?b (refresh_base c)"
    using ok by (simp add: base_matches_def layers_ok_def)
  moreover have "base_coherent (refresh_base c)"
    by (rule base_matches_coherent [OF b \<open>base_matches ?b _\<close>]) (simp add: lens)
  ultimately show ?thesis by blast
qed

lemma refresh_incremental:
  assumes ok: "layers_ok c" and coh: "base_coherent c" and b: "base c = Some b" and nf: "\<not> base_full_rebuild c"
  shows "\<exists>b. base (refresh_base c) = Some b \<and> base_matches b (refresh_base c) \<and> base_coherent (refresh_base c)"
proof -
  let ?dirty = "hs_extend (base_dirty c) (grown_addresses b c)"
  from coh b nf have bok: "nested_ok (bs_storage b)" "hm_ok (bs_accounts b)"
    "bs_code_by_hash b = code_index (bs_accounts b)"
    and memo: "\<And>a. a \<notin> set (base_dirty c) \<Longrightarrow> memo_account_ok b c a \<and> memo_storage_ok b c a"
    by (auto simp: base_coherent_def)
  from ok have lok: "nested_ok (bk_storage c)" "hm_ok (bk_accounts c)" by (auto simp: layers_ok_def)
  have acc: "hm_get (bs_accounts b) a = hm_get (bk_accounts c) a"
    and stor: "map_option map_of (hm_get (bs_storage b) a) = map_option map_of (hm_get (bk_storage c) a)"
    and lens: "hm_get (base_storage_lens c) a = map_option hm_len (hm_get (bk_storage c) a)"
    and blens: "hm_get (base_storage_lens c) a = map_option hm_len (hm_get (bs_storage b) a)"
    if "a \<notin> set ?dirty" for a
    using that memo [of a] memo_not_grown_account memo_not_grown_storage [OF _ _ bok(1) lok(1)]
    by (auto simp: memo_storage_ok_def)
  show ?thesis
  proof (cases "?dirty = []")
    case True
    then have r: "refresh_base c = c" using b nf by (simp add: refresh_base_def Let_def)
    have "base_matches b c" using bok acc stor True by (simp add: base_matches_def)
    with r b coh show ?thesis by auto
  next
    case False
    let ?r = "fold (rebuild_address (bk_accounts c) (bk_storage c)) ?dirty
       \<lparr>rb_accounts = bs_accounts b, rb_storage = bs_storage b, rb_lens = base_storage_lens c\<rparr>"
    let ?b = "\<lparr>bs_accounts = rb_accounts ?r, bs_storage = rb_storage ?r,
       bs_code_by_hash = code_index (rb_accounts ?r)\<rparr>"
    have base': "base (refresh_base c) = Some ?b" and lens': "base_storage_lens (refresh_base c) = rb_lens ?r"
      using b nf False by (simp_all add: refresh_base_def Let_def)
    have nested: "nested_ok (rb_storage ?r)"
      using bok(1) lok(1) by (auto simp: nested_ok_def rebuild_fold_ok rebuild_fold_get split: if_splits)
    have "base_matches ?b (refresh_base c)"
      unfolding base_matches_def
      using bok nested acc stor by (auto simp: rebuild_fold_ok rebuild_fold_get)
    moreover have "base_coherent (refresh_base c)"
      by (rule base_matches_coherent [OF base' \<open>base_matches ?b _\<close>]) (simp add: lens' rebuild_fold_get blens)
    ultimately show ?thesis using base' by blast
  qed
qed

lemma refresh_base_correct:
  assumes "layers_ok c" and "base_coherent c"
  shows "\<exists>b. base (refresh_base c) = Some b \<and> base_matches b (refresh_base c) \<and> base_coherent (refresh_base c)"
  using refresh_full [OF assms(1)] refresh_incremental [OF assms] by (cases "base c") blast+

section \<open>The layer-1 fold\<close>

lemma reads_missing_iff: "reads_missing_as_zero st \<longleftrightarrow> st = NotExisting \<or> st = StorageCleared"
  by (cases st) auto

lemma layer1_fold_accounts:
  assumes "distinct (map fst xs)"
  shows "map_of (lf_accounts (fold layer1_step xs f)) a =
     (case map_of xs a of
        None \<Rightarrow> map_of (lf_accounts f) a
      | Some d \<Rightarrow> if da_state d = NotExisting then map_of (lf_accounts f) a else Some (da_info d))"
proof -
  have "lf_accounts (fold layer1_step xs f) =
     fold (upd_step (\<lambda>a d. if da_state d = NotExisting then None else Some (da_info d))) xs (lf_accounts f)"
    by (induction xs arbitrary: f) (auto simp: layer1_step_def upd_step_def Let_def)
  then show ?thesis by (simp only: hm_get_fold_upd [OF assms]) (simp split: option.splits)
qed

lemma layer1_fold_not_existing:
  "set (lf_not_existing (fold layer1_step xs f)) =
     set (lf_not_existing f) \<union> {a. \<exists>d. (a, d) \<in> set xs \<and> da_state d = NotExisting}"
  by (induction xs arbitrary: f) (auto simp: layer1_step_def Let_def)

lemma layer1_fold_cleared:
  "set (lf_cleared (fold layer1_step xs f)) =
     set (lf_cleared f) \<union> {a. \<exists>d. (a, d) \<in> set xs \<and> reads_missing_as_zero (da_state d)}"
  by (induction xs arbitrary: f) (auto simp: layer1_step_def Let_def reads_missing_iff)

lemma layer1_step_storage:
  "lf_storage (layer1_step (a, d) f) =
     (if reads_missing_as_zero (da_state d) then hm_insert a (da_storage d) (lf_storage f)
      else if da_storage d \<noteq> []
      then hm_insert a (hm_extend (hm_or_default (lf_storage f) a) (da_storage d)) (lf_storage f)
      else lf_storage f)"
  by (auto simp: layer1_step_def Let_def reads_missing_iff)

lemma layer1_fold_storage:
  assumes "distinct (map fst xs)"
  shows "map_of (lf_storage (fold layer1_step xs f)) a =
     (case map_of xs a of
        None \<Rightarrow> map_of (lf_storage f) a
      | Some d \<Rightarrow> if reads_missing_as_zero (da_state d) then Some (da_storage d)
          else if da_storage d \<noteq> [] then Some (hm_extend (hm_or_default (lf_storage f) a) (da_storage d))
          else map_of (lf_storage f) a)"
  using assms
proof (induction xs arbitrary: f)
  case (Cons x xs)
  then have "map_of xs (fst x) = None" by (simp add: map_of_eq_None_iff)
  with Cons show ?case
    by (cases x) (auto simp: layer1_step_storage hm_or_default_def split: option.splits)
qed simp

section \<open>A snapshot reads what the cache reads\<close>

lemma base_matches_slot:
  "base_matches b c \<Longrightarrow> Option.bind (hm_get (bs_storage b) a) (\<lambda>m. hm_get m s) = backend_slot (bk_storage c) a s"
proof -
  assume "base_matches b c"
  then have "map_option map_of (hm_get (bs_storage b) a) = map_option map_of (hm_get (bk_storage c) a)"
    by (simp add: base_matches_def)
  then show ?thesis
    by (cases "hm_get (bs_storage b) a"; cases "hm_get (bk_storage c) a") (auto simp: backend_slot_def)
qed

lemma overlay_entry: "overlay_ok m \<Longrightarrow> hm_get m a = Some d \<longleftrightarrow> (a, d) \<in> set m"
  by (simp add: overlay_ok_def hm_get_iff_mem)

lemma with_context_storage:
  assumes ok: "overlay_ok (db_accounts c)" and b: "base_matches b c"
  shows "snapshot_storage_value (with_context c b (fold layer1_step (db_accounts c) empty_fold)) a s =
     cached_storage_value c a s"
proof -
  let ?f = "fold layer1_step (db_accounts c) empty_fold"
  have dist: "distinct (map fst (db_accounts c))" using ok by (simp add: overlay_ok_def hm_ok_def)
  have cl: "a \<in> set (lf_cleared ?f) \<longleftrightarrow>
      (\<exists>d. hm_get (db_accounts c) a = Some d \<and> reads_missing_as_zero (da_state d))"
    by (simp add: layer1_fold_cleared empty_fold_def overlay_entry [OF ok])
  have ext: "map_of (hm_extend [] (da_storage d)) s = map_of (da_storage d) s"
    if "hm_get (db_accounts c) a = Some d" for d
    using ok that by (simp add: overlay_ok_def hm_ok_def hm_get_extend split: option.splits)
  show ?thesis
    using ext cl base_matches_slot [OF b, of a s] layer1_fold_storage [OF dist, of empty_fold a]
    by (cases "hm_get (db_accounts c) a")
      (auto simp: snapshot_storage_value_def with_context_def Let_def cached_storage_value_def
        empty_fold_def hm_or_default_def split: option.splits)
qed

lemma with_context_account:
  assumes ok: "overlay_ok (db_accounts c)" and b: "base_matches b c"
  shows "map_option (normalize_code_hash ext)
       (snapshot_account_info (with_context c b (fold layer1_step (db_accounts c) empty_fold)) a) =
     loaded_account_info ext c a"
proof -
  let ?f = "fold layer1_step (db_accounts c) empty_fold"
  have dist: "distinct (map fst (db_accounts c))" using ok by (simp add: overlay_ok_def hm_ok_def)
  have ne: "a \<in> set (lf_not_existing ?f) \<longleftrightarrow>
      (\<exists>d. hm_get (db_accounts c) a = Some d \<and> da_state d = NotExisting)"
    by (simp add: layer1_fold_not_existing empty_fold_def overlay_entry [OF ok])
  have "hm_get (bs_accounts b) a = hm_get (bk_accounts c) a" using b by (simp add: base_matches_def)
  with ne layer1_fold_accounts [OF dist, of empty_fold a] show ?thesis
    by (cases "hm_get (db_accounts c) a")
      (auto simp: snapshot_account_info_def with_context_def loaded_account_info_def empty_fold_def)
qed

lemma snapshot_cases:
  assumes "layers_ok c" and "base_coherent c"
  obtains b where "snapshot c = Some (with_context (refresh_base c) b
       (fold layer1_step (db_accounts (refresh_base c)) empty_fold), refresh_base c)"
    and "base_matches b (refresh_base c)" and "base_coherent (refresh_base c)"
  using refresh_base_correct [OF assms] by (auto simp: snapshot_def Let_def)

lemma snapshot_reads:
  assumes ok: "layers_ok c" and coh: "base_coherent c"
  shows "\<exists>sn c'. snapshot c = Some (sn, c') \<and>
     (\<forall>a s. snapshot_storage_value sn a s = cached_storage_value c a s) \<and>
     (\<forall>a. map_option (normalize_code_hash ext) (snapshot_account_info sn a) = loaded_account_info ext c a) \<and>
     storage_view c' = storage_view c \<and> layers_ok c' \<and> base_coherent c'"
proof -
  obtain b where r: "snapshot c = Some (with_context (refresh_base c) b
       (fold layer1_step (db_accounts (refresh_base c)) empty_fold), refresh_base c)"
    and m: "base_matches b (refresh_base c)" and coh': "base_coherent (refresh_base c)"
    using snapshot_cases [OF ok coh] .
  have ov: "overlay_ok (db_accounts (refresh_base c))" using ok by (simp add: layers_ok_def)
  have csv: "cached_storage_value (refresh_base c) = cached_storage_value c"
    by (simp add: fun_eq_iff cached_storage_value_eq)
  have li: "loaded_account_info ext (refresh_base c) = loaded_account_info ext c"
    by (simp add: fun_eq_iff loaded_account_info_def split: option.splits)
  have "storage_view (refresh_base c) = storage_view c" "layers_ok (refresh_base c)"
    using ok csv by (simp_all add: storage_view_def reads_zero_at_def fun_eq_iff layers_ok_def)
  with r coh' with_context_storage [OF ov m] with_context_account [OF ov m] csv li show ?thesis by simp
qed

end
