(* ===== verification/Snapshot_Clone.thy ===== *)
theory Snapshot_Clone
  imports Snapshot_Props
begin

text \<open>
  The memoised \<open>snapshot\<close> against the reference \<open>snapshot_deep_clone\<close>: both read like the live
  cache, so they read alike. Bytecode is found by hash: the two know code for the same hashes, and give
  the same bytes for one when a hash identifies its code (\<open>code_consistent\<close>), which is what a code hash
  is for.
\<close>

section \<open>Reads of the deep clone\<close>

lemma clone_fold_accounts:
  assumes "distinct (map fst xs)"
  shows "map_of (dc_accounts (fold deep_clone_step xs f)) a =
     (case map_of xs a of
        None \<Rightarrow> map_of (dc_accounts f) a
      | Some d \<Rightarrow> if da_state d = NotExisting then None else Some (da_info d))"
  using assms
proof (induction xs arbitrary: f)
  case (Cons x xs)
  then have "map_of xs (fst x) = None" by (simp add: map_of_eq_None_iff)
  with Cons show ?case by (cases x) (auto simp: deep_clone_step_def Let_def split: option.splits)
qed simp

lemma clone_step_storage:
  "dc_storage (deep_clone_step (a, d) f) =
     (if reads_missing_as_zero (da_state d) then hm_remove a (dc_storage f)
      else hm_insert a (hm_extend (hm_or_default (dc_storage f) a) (da_storage d)) (dc_storage f))"
  "dc_overlay_storage (deep_clone_step (a, d) f) =
     (if reads_missing_as_zero (da_state d) then hm_insert a (da_storage d) (dc_overlay_storage f)
      else dc_overlay_storage f)"
  by (auto simp: deep_clone_step_def Let_def reads_missing_iff)

lemma clone_fold_storage:
  assumes "distinct (map fst xs)"
  shows "map_of (dc_storage (fold deep_clone_step xs f)) a =
     (case map_of xs a of
        None \<Rightarrow> map_of (dc_storage f) a
      | Some d \<Rightarrow> if reads_missing_as_zero (da_state d) then None
          else Some (hm_extend (hm_or_default (dc_storage f) a) (da_storage d)))"
  using assms
proof (induction xs arbitrary: f)
  case (Cons x xs)
  then have "map_of xs (fst x) = None" by (simp add: map_of_eq_None_iff)
  with Cons show ?case
    by (cases x) (auto simp: clone_step_storage hm_or_default_def split: option.splits)
qed simp

lemma clone_fold_overlay:
  assumes "distinct (map fst xs)"
  shows "map_of (dc_overlay_storage (fold deep_clone_step xs f)) a =
     (case map_of xs a of
        None \<Rightarrow> map_of (dc_overlay_storage f) a
      | Some d \<Rightarrow> if reads_missing_as_zero (da_state d) then Some (da_storage d)
          else map_of (dc_overlay_storage f) a)"
  using assms
proof (induction xs arbitrary: f)
  case (Cons x xs)
  then have "map_of xs (fst x) = None" by (simp add: map_of_eq_None_iff)
  with Cons show ?case by (cases x) (auto simp: clone_step_storage split: option.splits)
qed simp

lemma clone_fold_sets:
  "set (dc_cleared (fold deep_clone_step xs f)) =
     set (dc_cleared f) \<union> {a. \<exists>d. (a, d) \<in> set xs \<and> reads_missing_as_zero (da_state d)}"
  "set (dc_not_existing (fold deep_clone_step xs f)) =
     set (dc_not_existing f) \<union> {a. \<exists>d. (a, d) \<in> set xs \<and> da_state d = NotExisting}"
  by (induction xs arbitrary: f) (auto simp: deep_clone_step_def Let_def reads_missing_iff)

definition clone_start :: "evm_cache \<Rightarrow> deep_clone" where
  "clone_start c = \<lparr>dc_accounts = bk_accounts c, dc_storage = bk_storage c, dc_code = code_index (bk_accounts c),
     dc_overlay_storage = [], dc_cleared = [], dc_not_existing = []\<rparr>"

lemma clone_start_sel [simp]:
  "dc_accounts (clone_start c) = bk_accounts c" "dc_storage (clone_start c) = bk_storage c"
  "dc_code (clone_start c) = code_index (bk_accounts c)" "dc_overlay_storage (clone_start c) = []"
  "dc_cleared (clone_start c) = []" "dc_not_existing (clone_start c) = []"
  by (simp_all add: clone_start_def)

lemma deep_clone_reads_storage:
  assumes ok: "layers_ok c"
  shows "snapshot_storage_value (snapshot_deep_clone c) a s = cached_storage_value c a s"
proof -
  let ?f = "fold deep_clone_step (db_accounts c) (clone_start c)"
  have ov: "overlay_ok (db_accounts c)" using ok by (simp add: layers_ok_def)
  then have dist: "distinct (map fst (db_accounts c))" by (simp add: overlay_ok_def hm_ok_def)
  have cl: "a \<in> set (dc_cleared ?f) \<longleftrightarrow>
      (\<exists>d. hm_get (db_accounts c) a = Some d \<and> reads_missing_as_zero (da_state d))"
    by (simp add: clone_fold_sets overlay_entry [OF ov])
  have ext: "map_of (hm_extend m (da_storage d)) s =
      (case map_of (da_storage d) s of None \<Rightarrow> map_of m s | Some v \<Rightarrow> Some v)"
    if "hm_get (db_accounts c) a = Some d" for d m
    using ov that by (simp add: overlay_ok_def hm_ok_def hm_get_extend split: option.splits)
  have "snapshot_deep_clone c = with_context c
      \<lparr>bs_accounts = dc_accounts ?f, bs_storage = dc_storage ?f, bs_code_by_hash = dc_code ?f\<rparr>
      \<lparr>lf_accounts = [], lf_storage = dc_overlay_storage ?f, lf_code = [], lf_cleared = dc_cleared ?f,
       lf_not_existing = dc_not_existing ?f\<rparr>"
    by (simp add: snapshot_deep_clone_def Let_def clone_start_def)
  then show ?thesis
    using ext cl clone_fold_storage [OF dist, of "clone_start c" a] clone_fold_overlay [OF dist, of "clone_start c" a]
    by (cases "hm_get (db_accounts c) a")
      (auto simp: snapshot_storage_value_def with_context_def Let_def cached_storage_value_def
        backend_slot_def hm_or_default_def split: option.splits)
qed

text \<open>The account a live read sees, before the code hash is normalised.\<close>

definition live_account :: "evm_cache \<Rightarrow> address \<Rightarrow> account_info option" where
  "live_account c a = (case hm_get (db_accounts c) a of
     Some d \<Rightarrow> if da_state d = NotExisting then None else Some (da_info d)
   | None \<Rightarrow> hm_get (bk_accounts c) a)"

lemma deep_clone_reads_account:
  assumes ok: "layers_ok c"
  shows "snapshot_account_info (snapshot_deep_clone c) a = live_account c a"
proof -
  let ?f = "fold deep_clone_step (db_accounts c) (clone_start c)"
  have ov: "overlay_ok (db_accounts c)" using ok by (simp add: layers_ok_def)
  then have dist: "distinct (map fst (db_accounts c))" by (simp add: overlay_ok_def hm_ok_def)
  have ne: "a \<in> set (dc_not_existing ?f) \<longleftrightarrow>
      (\<exists>d. hm_get (db_accounts c) a = Some d \<and> da_state d = NotExisting)"
    by (simp add: clone_fold_sets overlay_entry [OF ov])
  have "snapshot_account_info (snapshot_deep_clone c) a =
      (if a \<in> set (dc_not_existing ?f) then None else hm_get (dc_accounts ?f) a)"
    by (simp add: snapshot_account_info_def snapshot_deep_clone_def with_context_def Let_def clone_start_def)
  with ne clone_fold_accounts [OF dist, of "clone_start c" a] show ?thesis
    by (auto simp: live_account_def split: option.splits)
qed

lemma with_context_live_account:
  assumes ok: "overlay_ok (db_accounts c)" and b: "base_matches b c"
  shows "snapshot_account_info (with_context c b (fold layer1_step (db_accounts c) empty_fold)) a = live_account c a"
proof -
  let ?f = "fold layer1_step (db_accounts c) empty_fold"
  have dist: "distinct (map fst (db_accounts c))" using ok by (simp add: overlay_ok_def hm_ok_def)
  have ne: "a \<in> set (lf_not_existing ?f) \<longleftrightarrow>
      (\<exists>d. hm_get (db_accounts c) a = Some d \<and> da_state d = NotExisting)"
    by (simp add: layer1_fold_not_existing empty_fold_def overlay_entry [OF ok])
  have "hm_get (bs_accounts b) a = hm_get (bk_accounts c) a" using b by (simp add: base_matches_def)
  with ne layer1_fold_accounts [OF dist, of empty_fold a] show ?thesis
    by (cases "hm_get (db_accounts c) a")
      (auto simp: snapshot_account_info_def with_context_def live_account_def empty_fold_def)
qed

section \<open>Code by hash\<close>

definition code_known :: "account_info \<Rightarrow> b256 \<Rightarrow> bool" where
  "code_known i h \<longleftrightarrow> ai_code_hash i = h \<and> ai_code i \<noteq> None"

definition code_by :: "(b256 \<Rightarrow> bytes) \<Rightarrow> account_info \<Rightarrow> bool" where
  "code_by f i \<longleftrightarrow> (\<forall>code. ai_code i = Some code \<longrightarrow> f (ai_code_hash i) = code)"

definition code_consistent :: "(b256 \<Rightarrow> bytes) \<Rightarrow> evm_cache \<Rightarrow> bool" where
  "code_consistent f c \<longleftrightarrow> (\<forall>(a, d) \<in> set (db_accounts c). code_by f (da_info d)) \<and>
     (\<forall>(a, i) \<in> set (bk_accounts c). code_by f i)"

definition add_code :: "account_info \<Rightarrow> (b256, bytes) hashmap \<Rightarrow> (b256, bytes) hashmap" where
  "add_code i m = (case ai_code i of None \<Rightarrow> m | Some code \<Rightarrow> hm_insert (ai_code_hash i) code m)"

lemma add_code_get:
  "code_by f i \<Longrightarrow> map_of (add_code i m) h = (if code_known i h then Some (f h) else map_of m h)"
  by (auto simp: add_code_def code_known_def code_by_def split: option.splits)

lemma fold_add_code:
  "\<forall>i \<in> set xs. code_by f i \<Longrightarrow>
   map_of (fold add_code xs m) h = (if \<exists>i \<in> set xs. code_known i h then Some (f h) else map_of m h)"
  by (induction xs arbitrary: m) (auto simp: add_code_get)

lemma add_code_None: "map_of (add_code i m) h = None \<longleftrightarrow> \<not> code_known i h \<and> map_of m h = None"
  by (auto simp: add_code_def code_known_def split: option.splits)

lemma fold_add_code_None:
  "map_of (fold add_code xs m) h = None \<longleftrightarrow> \<not> (\<exists>i \<in> set xs. code_known i h) \<and> map_of m h = None"
  by (induction xs arbitrary: m) (auto simp: add_code_None)

lemma code_index_add_code: "code_index xs = fold add_code (map snd xs) []"
proof -
  have "fold (\<lambda>(a, i) m. case ai_code i of None \<Rightarrow> m | Some code \<Rightarrow> hm_insert (ai_code_hash i) code m) xs m =
     fold add_code (map snd xs) m" for m
    by (induction xs arbitrary: m) (auto simp: add_code_def split: option.splits)
  then show ?thesis by (simp add: code_index_def)
qed

definition existing_infos :: "overlay_map \<Rightarrow> account_info list" where
  "existing_infos m = map (\<lambda>(a, d). da_info d) (filter (\<lambda>(a, d). da_state d \<noteq> NotExisting) m)"

lemma layer1_step_code:
  "lf_code (layer1_step (a, d) f) =
     (if da_state d = NotExisting then lf_code f else add_code (da_info d) (lf_code f))"
  unfolding layer1_step_def add_code_def Let_def fst_conv snd_conv by simp

lemma layer1_fold_code: "lf_code (fold layer1_step xs f) = fold add_code (existing_infos xs) (lf_code f)"
proof (induction xs arbitrary: f)
  case (Cons x xs)
  then show ?case by (cases x) (simp add: layer1_step_code existing_infos_def)
qed (simp add: existing_infos_def)

lemma clone_step_code:
  "dc_code (deep_clone_step (a, d) f) =
     (if da_state d = NotExisting then dc_code f else add_code (da_info d) (dc_code f))"
  unfolding deep_clone_step_def add_code_def Let_def fst_conv snd_conv by simp

lemma clone_fold_code: "dc_code (fold deep_clone_step xs f) = fold add_code (existing_infos xs) (dc_code f)"
proof (induction xs arbitrary: f)
  case (Cons x xs)
  then show ?case by (cases x) (simp add: clone_step_code existing_infos_def)
qed (simp add: existing_infos_def)

lemma code_by_existing: "code_consistent f c \<Longrightarrow> \<forall>i \<in> set (existing_infos (db_accounts c)). code_by f i"
  by (auto simp: code_consistent_def existing_infos_def)

lemma code_index_get:
  assumes "\<forall>i \<in> set (map snd m). code_by f i"
  shows "map_of (code_index m) h = (if \<exists>i \<in> set (map snd m). code_known i h then Some (f h) else None)"
  unfolding code_index_add_code using fold_add_code [OF assms, of "[]" h] by simp

lemma same_map_same_set:
  "hm_ok m \<Longrightarrow> hm_ok m' \<Longrightarrow> (\<And>a. hm_get m a = hm_get m' a) \<Longrightarrow> set m = set m'"
  by (auto simp: set_eq_iff simp flip: hm_get_iff_mem)

lemma with_context_code:
  assumes con: "code_consistent f c" and ok: "layers_ok c" and b: "base_matches b c"
  shows "snapshot_code (with_context c b (fold layer1_step (db_accounts c) empty_fold)) h =
     snapshot_code (snapshot_deep_clone c) h"
proof -
  have same: "set (bs_accounts b) = set (bk_accounts c)"
    by (rule same_map_same_set) (use b ok in \<open>auto simp: base_matches_def layers_ok_def\<close>)
  have 1: "\<forall>i \<in> set (map snd (bk_accounts c)). code_by f i"
    using con by (force simp: code_consistent_def)
  with same have 2: "\<forall>i \<in> set (map snd (bs_accounts b)). code_by f i" by simp
  have "map_of (code_index (bs_accounts b)) h = map_of (code_index (bk_accounts c)) h"
    unfolding code_index_get [OF 1] code_index_get [OF 2] using same by simp
  moreover have "bs_code_by_hash b = code_index (bs_accounts b)" using b by (simp add: base_matches_def)
  ultimately show ?thesis
    using fold_add_code [OF code_by_existing [OF con]]
    by (simp add: snapshot_code_def with_context_def snapshot_deep_clone_def Let_def layer1_fold_code
        clone_fold_code empty_fold_def split: option.splits)
qed

text \<open>Without that assumption the two still know code for the same hashes.\<close>

lemma with_context_code_known:
  assumes ok: "layers_ok c" and b: "base_matches b c"
  shows "snapshot_code (with_context c b (fold layer1_step (db_accounts c) empty_fold)) h = None \<longleftrightarrow>
     snapshot_code (snapshot_deep_clone c) h = None"
proof -
  have "set (bs_accounts b) = set (bk_accounts c)"
    by (rule same_map_same_set) (use b ok in \<open>auto simp: base_matches_def layers_ok_def\<close>)
  moreover have "bs_code_by_hash b = code_index (bs_accounts b)" using b by (simp add: base_matches_def)
  ultimately have bases: "map_of (bs_code_by_hash b) h = None \<longleftrightarrow> map_of (code_index (bk_accounts c)) h = None"
    by (simp add: code_index_add_code fold_add_code_None)
  have none: "snapshot_code sn h = None \<longleftrightarrow>
      map_of (sn_overlay_code_by_hash sn) h = None \<and> map_of (bs_code_by_hash (sn_base sn)) h = None" for sn
    by (simp add: snapshot_code_def split: option.splits)
  show ?thesis
    unfolding none
    by (simp add: with_context_def snapshot_deep_clone_def Let_def layer1_fold_code clone_fold_code
        empty_fold_def fold_add_code_None bases)
qed

section \<open>The two agree\<close>

definition reads_alike :: "evm_snapshot \<Rightarrow> evm_snapshot \<Rightarrow> bool" where
  "reads_alike s1 s2 \<longleftrightarrow>
     (\<forall>a s. snapshot_storage_value s1 a s = snapshot_storage_value s2 a s) \<and>
     (\<forall>a. snapshot_account_info s1 a = snapshot_account_info s2 a) \<and>
     (\<forall>h. snapshot_code s1 h = None \<longleftrightarrow> snapshot_code s2 h = None) \<and>
     (\<forall>n. snapshot_block_hash s1 n = snapshot_block_hash s2 n) \<and>
     sn_block_context_hash s1 = sn_block_context_hash s2 \<and> sn_block_number s1 = sn_block_number s2 \<and>
     sn_basefee s1 = sn_basefee s2 \<and> sn_coinbase s1 = sn_coinbase s2 \<and> sn_prevrandao s1 = sn_prevrandao s2 \<and>
     sn_gas_limit s1 = sn_gas_limit s2 \<and> sn_chain_id s1 = sn_chain_id s2 \<and> sn_timestamp s1 = sn_timestamp s2 \<and>
     sn_spec_id s1 = sn_spec_id s2 \<and> sn_shared_memory_capacity s1 = sn_shared_memory_capacity s2"

definition same_code :: "evm_snapshot \<Rightarrow> evm_snapshot \<Rightarrow> bool" where
  "same_code s1 s2 \<longleftrightarrow> (\<forall>h. snapshot_code s1 h = snapshot_code s2 h)"

text \<open>A refresh touches the memo only.\<close>

definition with_memo :: "base_state option \<Rightarrow> address list \<Rightarrow> bool \<Rightarrow> (address, nat) hashmap \<Rightarrow> evm_cache \<Rightarrow> evm_cache" where
  "with_memo b d r l c = c\<lparr>base := b, base_dirty := d, base_full_rebuild := r, base_storage_lens := l\<rparr>"

lemma refresh_with_memo: "\<exists>b d r l. refresh_base c = with_memo b d r l c"
proof -
  have "refresh_base c = with_memo (base (refresh_base c)) (base_dirty (refresh_base c))
      (base_full_rebuild (refresh_base c)) (base_storage_lens (refresh_base c)) c"
    by (cases "base c = None \<or> base_full_rebuild c")
      (auto simp: refresh_base_def with_memo_def build_base_full_def Let_def)
  then show ?thesis by blast
qed

lemma deep_clone_refresh: "snapshot_deep_clone (refresh_base c) = snapshot_deep_clone c"
proof -
  obtain b d r l where "refresh_base c = with_memo b d r l c" using refresh_with_memo by blast
  then show ?thesis
    by (simp add: with_memo_def snapshot_deep_clone_def Let_def with_context_def snapshot_block_hashes_def)
qed

lemma with_context_reads_alike:
  assumes ok: "layers_ok c" and m: "base_matches b c"
  shows "reads_alike (with_context c b (fold layer1_step (db_accounts c) empty_fold)) (snapshot_deep_clone c)"
proof -
  have ov: "overlay_ok (db_accounts c)" using ok by (simp add: layers_ok_def)
  show ?thesis
    unfolding reads_alike_def
    by (simp add: with_context_storage [OF ov m] deep_clone_reads_storage [OF ok] with_context_code_known [OF ok m]
        with_context_live_account [OF ov m] deep_clone_reads_account [OF ok])
      (simp add: snapshot_block_hash_def snapshot_deep_clone_def with_context_def Let_def)
qed

lemma snapshot_agrees_with_clone:
  assumes ok: "layers_ok c" and coh: "base_coherent c"
  shows "\<exists>sn c'. snapshot c = Some (sn, c') \<and> reads_alike sn (snapshot_deep_clone c) \<and>
     ((\<exists>f. code_consistent f c) \<longrightarrow> same_code sn (snapshot_deep_clone c))"
proof -
  let ?c = "refresh_base c"
  obtain b where r: "snapshot c = Some (with_context ?c b (fold layer1_step (db_accounts ?c) empty_fold), ?c)"
    and m: "base_matches b ?c" and "base_coherent ?c"
    using snapshot_cases [OF ok coh] .
  have ok': "layers_ok ?c" using ok by (simp add: layers_ok_def)
  have "same_code (with_context ?c b (fold layer1_step (db_accounts ?c) empty_fold)) (snapshot_deep_clone ?c)"
    if "code_consistent f c" for f
    unfolding same_code_def
    by (intro allI with_context_code [OF _ ok' m, of f]) (use that in \<open>simp add: code_consistent_def\<close>)
  with with_context_reads_alike [OF ok' m] r show ?thesis
    unfolding deep_clone_refresh by blast
qed

end
