(* ===== verification/Block_Context.thy ===== *)
theory Block_Context
  imports Snapshot
begin

text \<open>
  The block context of \<open>EvmCache\<close> (\<^verbatim>\<open>src/cache/mod.rs\<close>): \<open>BlockContextRequirements\<close>, the block
  pin (\<open>set_block\<close>, \<open>repin_to_block\<close>), the setters of the block environment, \<open>advance_block\<close>,
  \<open>advance_compact_block\<close> and the block-hash cache. \<open>bk_pinned\<close> is the pin last sent to the
  backend; the result of sending it is ignored by the code.

  \<open>context_op\<close> lists the operations, so that a history is a list of them and
  \<open>fold run_context_op\<close> the state it leads to.
\<close>

section \<open>Headers and requirements\<close>

record block_header =
  hdr_number :: u64
  hdr_base_fee_per_gas :: "u64 option"
  hdr_beneficiary :: address
  hdr_mix_hash :: "b256 option"
  hdr_gas_limit :: u64
  hdr_timestamp :: u64

datatype block_context_error = MissingField string

definition strict :: block_context_requirements where
  "strict = \<lparr>require_number = True, require_basefee = True, require_coinbase = True,
     require_prevrandao = True, require_gas_limit = True\<rparr>"

definition lenient :: block_context_requirements where
  "lenient = \<lparr>require_number = False, require_basefee = False, require_coinbase = False,
     require_prevrandao = False, require_gas_limit = False\<rparr>"

definition validate_header :: "block_context_requirements \<Rightarrow> block_header \<Rightarrow> block_context_error + unit" where
  "validate_header reqs h =
     (if require_basefee reqs \<and> hdr_base_fee_per_gas h = None then Err (MissingField ''basefee'')
      else if require_prevrandao reqs \<and> hdr_mix_hash h = None then Err (MissingField ''prevrandao'')
      else Okay ())"

section \<open>The pin\<close>

fun concrete_number :: "block_id \<Rightarrow> u64 option" where
  "concrete_number (NumberId (NumberTag n)) = Some n"
| "concrete_number _ = None"

type_synonym env_fields = "u64 option \<times> address option \<times> b256 option \<times> u64 option \<times> u64 option"

definition env_fields :: "evm_cache \<Rightarrow> env_fields" where
  "env_fields c = (basefee c, coinbase c, prevrandao c, block_gas_limit c, timestamp_override c)"

definition set_block :: "block_id \<Rightarrow> evm_cache \<Rightarrow> evm_cache" where
  "set_block b c =
     (let previous_block_number = block_number c;
          previous_context = env_fields c;
          changed = (block c \<noteq> b);
          concrete = concrete_number b;
          c1 = (if changed
                then (invalidate_base (bump_snapshot_generation (c\<lparr>block := b\<rparr>)))\<lparr>bk_pinned := b\<rparr>
                else c);
          c2 = (if changed \<or> concrete = None
                then c1\<lparr>basefee := None, coinbase := None, prevrandao := None,
                        block_gas_limit := None, timestamp_override := None\<rparr>
                else c1);
          c3 = c2\<lparr>block_number := concrete\<rparr>;
          context_changed = (block_number c3 \<noteq> previous_block_number \<or> previous_context \<noteq> env_fields c3);
          c4 = (if \<not> changed \<and> context_changed then bump_snapshot_generation c3 else c3)
      in if changed \<or> context_changed then c4\<lparr>env_source := None\<rparr> else c4)"

definition repin_to_block :: "u64 \<Rightarrow> evm_cache \<Rightarrow> evm_cache" where
  "repin_to_block n c = set_block (NumberId (NumberTag n)) c"

section \<open>The setters\<close>

definition set_chain_id :: "u64 \<Rightarrow> evm_cache \<Rightarrow> evm_cache" where
  "set_chain_id n c = (if chain_id c \<noteq> n then bump_snapshot_generation (c\<lparr>chain_id := n\<rparr>) else c)"

definition set_timestamp :: "u64 option \<Rightarrow> evm_cache \<Rightarrow> evm_cache" where
  "set_timestamp t c =
     (if timestamp_override c \<noteq> t
      then bump_snapshot_generation (c\<lparr>timestamp_override := t, env_source := None\<rparr>) else c)"

definition set_block_context :: "u64 option \<Rightarrow> u64 option \<Rightarrow> evm_cache \<Rightarrow> evm_cache" where
  "set_block_context n fee c =
     (if block_number c \<noteq> n \<or> basefee c \<noteq> fee
      then bump_snapshot_generation (c\<lparr>block_number := n, basefee := fee, env_source := None\<rparr>) else c)"

text \<open>\<open>U256::saturating_to::<u64>\<close>.\<close>

definition saturating_to_u64 :: "u256 \<Rightarrow> u64" where
  "saturating_to_u64 n = (if fits_u64 n then ucast n else - 1)"

definition set_basefee :: "u256 \<Rightarrow> evm_cache \<Rightarrow> evm_cache" where
  "set_basefee fee c =
     (let fee = Some (saturating_to_u64 fee)
      in if basefee c \<noteq> fee then bump_snapshot_generation (c\<lparr>basefee := fee, env_source := None\<rparr>) else c)"

definition set_coinbase :: "address option \<Rightarrow> evm_cache \<Rightarrow> evm_cache" where
  "set_coinbase a c =
     (if coinbase c \<noteq> a then bump_snapshot_generation (c\<lparr>coinbase := a, env_source := None\<rparr>) else c)"

definition set_prevrandao :: "b256 option \<Rightarrow> evm_cache \<Rightarrow> evm_cache" where
  "set_prevrandao r c =
     (if prevrandao c \<noteq> r then bump_snapshot_generation (c\<lparr>prevrandao := r, env_source := None\<rparr>) else c)"

definition set_block_gas_limit :: "u64 option \<Rightarrow> evm_cache \<Rightarrow> evm_cache" where
  "set_block_gas_limit g c =
     (if block_gas_limit c \<noteq> g
      then bump_snapshot_generation (c\<lparr>block_gas_limit := g, env_source := None\<rparr>) else c)"

definition set_block_context_requirements :: "block_context_requirements \<Rightarrow> evm_cache \<Rightarrow> evm_cache" where
  "set_block_context_requirements reqs c =
     (if context_requirements c \<noteq> reqs
      then bump_snapshot_generation (c\<lparr>context_requirements := reqs\<rparr>) else c)"

section \<open>Advancing\<close>

definition advance_block :: "block_header \<Rightarrow> evm_cache \<Rightarrow> (block_context_error + unit) \<times> evm_cache" where
  "advance_block h c =
     (case validate_header (context_requirements c) h of
        Inl e \<Rightarrow> (Err e, c)
      | Inr _ \<Rightarrow>
          (let c1 = c\<lparr>block_number := Some (hdr_number h), basefee := hdr_base_fee_per_gas h,
                      coinbase := Some (hdr_beneficiary h), prevrandao := hdr_mix_hash h,
                      block_gas_limit := Some (hdr_gas_limit h),
                      timestamp_override := Some (hdr_timestamp h),
                      env_source := Some (HeaderNumber (hdr_number h))\<rparr>;
               b = NumberId (NumberTag (hdr_number h))
           in (Okay (), bump_snapshot_generation (c1\<lparr>block := b, bk_pinned := b\<rparr>))))"

text \<open>Does the environment come from a source that vouches for block \<open>n\<close> with hash \<open>h\<close>?\<close>

fun env_matches :: "block_env_source option \<Rightarrow> u64 \<Rightarrow> b256 \<Rightarrow> bool" where
  "env_matches (Some (HeaderNumber m)) n h = (m = n)"
| "env_matches (Some (VerifiedHash m h')) n h = (m = n \<and> h' = h)"
| "env_matches None n h = False"

definition advance_compact_block ::
  "u64 \<Rightarrow> b256 \<Rightarrow> u64 option \<Rightarrow> bool \<Rightarrow> evm_cache \<Rightarrow> evm_cache" where
  "advance_compact_block n h ts preserve_env c =
     (let b = HashId h (Some True);
          preserve_verified_env = (preserve_env \<and> env_matches (env_source c) n h);
          preserve_known_timestamp = (preserve_env \<and> block c = b \<and> block_number c = Some n);
          next_timestamp = (case ts of Some t \<Rightarrow> Some t
             | None \<Rightarrow> if preserve_known_timestamp then timestamp_override c else None);
          changed = (block c \<noteq> b \<or> block_number c \<noteq> Some n \<or> timestamp_override c \<noteq> next_timestamp);
          (changed, c1) =
            (if \<not> preserve_verified_env
             then (changed \<or> basefee c \<noteq> None \<or> coinbase c \<noteq> None \<or> prevrandao c \<noteq> None
                     \<or> block_gas_limit c \<noteq> None,
                   c\<lparr>basefee := None, coinbase := None, prevrandao := None, block_gas_limit := None,
                     env_source := None\<rparr>)
             else (changed, c\<lparr>env_source := Some (VerifiedHash n h)\<rparr>));
          bn = ucast n :: u256;
          changed = (changed \<or> hm_get (bk_block_hashes c1) bn \<noteq> Some h
                             \<or> hm_get (db_block_hashes c1) bn \<noteq> Some h);
          c2 = c1\<lparr>block := b, block_number := Some n, timestamp_override := next_timestamp,
                  bk_block_hashes := hm_insert bn h (bk_block_hashes c1),
                  db_block_hashes := hm_insert bn h (db_block_hashes c1),
                  bk_pinned := b\<rparr>
      in if changed then bump_snapshot_generation c2 else c2)"

section \<open>The block-hash cache\<close>

definition invalidate_cached_block_hashes_from :: "u64 \<Rightarrow> evm_cache \<Rightarrow> evm_cache" where
  "invalidate_cached_block_hashes_from n c =
     (let bn = ucast n :: u256;
          bk = hm_retain (\<lambda>k. k < bn) (bk_block_hashes c);
          db = hm_retain (\<lambda>k. k < bn) (db_block_hashes c);
          changed = (hm_len bk \<noteq> hm_len (bk_block_hashes c) \<or> hm_len db \<noteq> hm_len (db_block_hashes c));
          c1 = c\<lparr>bk_block_hashes := bk, db_block_hashes := db\<rparr>
      in if changed then bump_snapshot_generation c1 else c1)"

definition set_cached_block_hash :: "u64 \<Rightarrow> b256 \<Rightarrow> evm_cache \<Rightarrow> evm_cache" where
  "set_cached_block_hash n h c =
     (let bn = ucast n :: u256;
          changed = (hm_get (bk_block_hashes c) bn \<noteq> Some h \<or> hm_get (db_block_hashes c) bn \<noteq> Some h);
          c1 = c\<lparr>bk_block_hashes := hm_insert bn h (bk_block_hashes c),
                 db_block_hashes := hm_insert bn h (db_block_hashes c)\<rparr>
      in if changed then bump_snapshot_generation c1 else c1)"

section \<open>Histories\<close>

datatype context_op =
    SetBlock block_id
  | RepinToBlock u64
  | SetChainId u64
  | SetTimestamp "u64 option"
  | SetBlockContext "u64 option" "u64 option"
  | SetBasefee u256
  | SetCoinbase "address option"
  | SetPrevrandao "b256 option"
  | SetBlockGasLimit "u64 option"
  | SetBlockContextRequirements block_context_requirements
  | AdvanceBlock block_header
  | AdvanceCompactBlock u64 b256 "u64 option" bool
  | InvalidateCachedBlockHashesFrom u64
  | SetCachedBlockHash u64 b256

fun run_context_op :: "context_op \<Rightarrow> evm_cache \<Rightarrow> evm_cache" where
  "run_context_op (SetBlock b) c = set_block b c"
| "run_context_op (RepinToBlock n) c = repin_to_block n c"
| "run_context_op (SetChainId n) c = set_chain_id n c"
| "run_context_op (SetTimestamp t) c = set_timestamp t c"
| "run_context_op (SetBlockContext n fee) c = set_block_context n fee c"
| "run_context_op (SetBasefee fee) c = set_basefee fee c"
| "run_context_op (SetCoinbase a) c = set_coinbase a c"
| "run_context_op (SetPrevrandao r) c = set_prevrandao r c"
| "run_context_op (SetBlockGasLimit g) c = set_block_gas_limit g c"
| "run_context_op (SetBlockContextRequirements reqs) c = set_block_context_requirements reqs c"
| "run_context_op (AdvanceBlock h) c = snd (advance_block h c)"
| "run_context_op (AdvanceCompactBlock n h ts preserve) c = advance_compact_block n h ts preserve c"
| "run_context_op (InvalidateCachedBlockHashesFrom n) c = invalidate_cached_block_hashes_from n c"
| "run_context_op (SetCachedBlockHash n h) c = set_cached_block_hash n h c"

lemmas context_defs =
  set_chain_id_def set_timestamp_def set_block_context_def set_basefee_def set_coinbase_def
  set_prevrandao_def set_block_gas_limit_def set_block_context_requirements_def

lemmas context_heavy_defs =
  set_block_def repin_to_block_def advance_block_def advance_compact_block_def
  invalidate_cached_block_hashes_from_def set_cached_block_hash_def

end
