(* ===== verification/Block_Context_Props.thy ===== *)
theory Block_Context_Props
  imports Block_Context
begin

text \<open>
  Properties of the block context: where a vouched-for environment comes from, when the snapshot
  generation advances, what a failed \<open>advance_block\<close> leaves, how a re-pin clears the environment,
  and what the block-hash cache answers after a reorganisation.
\<close>

section \<open>Field lemmas\<close>

lemma bump_context_fields [simp]:
  "block (bump_snapshot_generation c) = block c"
  "bk_pinned (bump_snapshot_generation c) = bk_pinned c"
  "block_number (bump_snapshot_generation c) = block_number c"
  "basefee (bump_snapshot_generation c) = basefee c"
  "coinbase (bump_snapshot_generation c) = coinbase c"
  "prevrandao (bump_snapshot_generation c) = prevrandao c"
  "block_gas_limit (bump_snapshot_generation c) = block_gas_limit c"
  "timestamp_override (bump_snapshot_generation c) = timestamp_override c"
  "chain_id (bump_snapshot_generation c) = chain_id c"
  "context_requirements (bump_snapshot_generation c) = context_requirements c"
  "env_source (bump_snapshot_generation c) = env_source c"
  "db_block_hashes (bump_snapshot_generation c) = db_block_hashes c"
  "bk_block_hashes (bump_snapshot_generation c) = bk_block_hashes c"
  "snapshot_generation (bump_snapshot_generation c) = snapshot_generation c + 1"
  by (simp_all add: bump_snapshot_generation_def)

lemma invalidate_base_fields [simp]:
  "block (invalidate_base c) = block c"
  "block_number (invalidate_base c) = block_number c"
  "basefee (invalidate_base c) = basefee c"
  "coinbase (invalidate_base c) = coinbase c"
  "prevrandao (invalidate_base c) = prevrandao c"
  "block_gas_limit (invalidate_base c) = block_gas_limit c"
  "timestamp_override (invalidate_base c) = timestamp_override c"
  "chain_id (invalidate_base c) = chain_id c"
  "context_requirements (invalidate_base c) = context_requirements c"
  "env_source (invalidate_base c) = env_source c"
  "db_block_hashes (invalidate_base c) = db_block_hashes c"
  "bk_block_hashes (invalidate_base c) = bk_block_hashes c"
  "snapshot_generation (invalidate_base c) = snapshot_generation c"
  by (simp_all add: invalidate_base_def)

section \<open>Provenance of the environment\<close>

definition block_env :: "evm_cache \<Rightarrow> u64 option \<times> u64 option \<times> address option \<times> b256 option \<times> u64 option" where
  "block_env c = (block_number c, basefee c, coinbase c, prevrandao c, block_gas_limit c)"

definition header_env :: "block_header \<Rightarrow> u64 option \<times> u64 option \<times> address option \<times> b256 option \<times> u64 option" where
  "header_env h = (Some (hdr_number h), hdr_base_fee_per_gas h, Some (hdr_beneficiary h), hdr_mix_hash h,
     Some (hdr_gas_limit h))"

definition carries_header :: "evm_cache \<Rightarrow> block_header \<Rightarrow> bool" where
  "carries_header c h \<longleftrightarrow> block_env c = header_env h \<and> timestamp_override c = Some (hdr_timestamp h)"

fun source_pin :: "block_env_source \<Rightarrow> block_id" where
  "source_pin (HeaderNumber n) = NumberId (NumberTag n)"
| "source_pin (VerifiedHash n h) = HashId h (Some True)"

fun source_number :: "block_env_source \<Rightarrow> u64" where
  "source_number (HeaderNumber n) = n"
| "source_number (VerifiedHash n h) = n"

text \<open>
  Where an environment may come from: its mark, its fields, its timestamp and its pin at that moment.
  \<open>vouched P R c\<close>: if the environment is marked, its fields are those of one origin in \<open>P\<close> for the marked
  number, and its timestamp is that origin's or one that \<open>R\<close> lists for the number.
\<close>

record env_origin =
  eo_source :: block_env_source
  eo_env :: "u64 option \<times> u64 option \<times> address option \<times> b256 option \<times> u64 option"
  eo_timestamp :: "u64 option"
  eo_pin :: block_id

definition cache_origin :: "block_env_source \<Rightarrow> evm_cache \<Rightarrow> env_origin" where
  "cache_origin src c = \<lparr>eo_source = src, eo_env = block_env c, eo_timestamp = timestamp_override c, eo_pin = block c\<rparr>"

definition header_origin :: "block_header \<Rightarrow> env_origin" where
  "header_origin h = \<lparr>eo_source = HeaderNumber (hdr_number h), eo_env = header_env h,
     eo_timestamp = Some (hdr_timestamp h), eo_pin = NumberId (NumberTag (hdr_number h))\<rparr>"

definition comes_from :: "(u64 \<times> u64 option) set \<Rightarrow> evm_cache \<Rightarrow> block_env_source \<Rightarrow> env_origin \<Rightarrow> bool" where
  "comes_from R c src eo \<longleftrightarrow> source_number src = source_number (eo_source eo) \<and> block_env c = eo_env eo \<and>
     block_number c = Some (source_number src) \<and>
     (timestamp_override c = eo_timestamp eo \<or> (source_number src, timestamp_override c) \<in> R) \<and>
     (block c = source_pin src \<or> src = eo_source eo \<and> block c = eo_pin eo)"

definition vouched :: "env_origin set \<Rightarrow> (u64 \<times> u64 option) set \<Rightarrow> evm_cache \<Rightarrow> bool" where
  "vouched P R c \<longleftrightarrow> (\<forall>src. env_source c = Some src \<longrightarrow> (\<exists>eo \<in> P. comes_from R c src eo))"

lemma vouched_None: "env_source c = None \<Longrightarrow> vouched P R c"
  by (simp add: vouched_def)

lemma vouched_mono: "vouched P R c \<Longrightarrow> P \<subseteq> Q \<Longrightarrow> R \<subseteq> S \<Longrightarrow> vouched Q S c"
  unfolding vouched_def comes_from_def by blast

lemma vouched_same:
  assumes "vouched P R c" "env_source c' = env_source c" "block c' = block c" "block_number c' = block_number c"
    "basefee c' = basefee c" "coinbase c' = coinbase c" "prevrandao c' = prevrandao c"
    "block_gas_limit c' = block_gas_limit c" "timestamp_override c' = timestamp_override c"
  shows "vouched P R c'"
  using assms by (simp add: vouched_def comes_from_def block_env_def)

lemma set_block_idem:
  assumes "block c = b \<and> concrete_number b = block_number c \<and>
      (concrete_number b = None \<longrightarrow> env_fields c = (None, None, None, None, None))"
  shows "set_block b c = c"
  using assms by (cases c) (auto simp: set_block_def env_fields_def Let_def)

lemma set_block_env:
  "set_block b c = c \<or> env_source (set_block b c) = None"
proof (cases "block c = b \<and> concrete_number b = block_number c \<and>
      (concrete_number b = None \<longrightarrow> env_fields c = (None, None, None, None, None))")
  case True
  from set_block_idem [OF this] show ?thesis ..
next
  case False
  then have "env_source (set_block b c) = None"
    by (auto simp: set_block_def env_fields_def Let_def)
  then show ?thesis ..
qed

lemma vouched_set_block: "vouched P R c \<Longrightarrow> vouched P R (set_block b c)"
  using set_block_env [of b c] by (auto intro: vouched_None)

lemma vouched_advance: "vouched P R c \<Longrightarrow> vouched (insert (header_origin h) P) R (snd (advance_block h c))"
  by (auto simp: advance_block_def Let_def vouched_def comes_from_def header_origin_def header_env_def block_env_def
      split: sum.splits)

text \<open>What \<open>advance_compact_block\<close> leaves in the context.\<close>

lemma compact_fields:
  fixes n h ts p c
  defines "c' \<equiv> advance_compact_block n h ts p c"
  defines "keep \<equiv> p \<and> env_matches (env_source c) n h"
  shows "block c' = HashId h (Some True)" "bk_pinned c' = HashId h (Some True)" "block_number c' = Some n"
    "env_source c' = (if keep then Some (VerifiedHash n h) else None)"
    "basefee c' = (if keep then basefee c else None)"
    "coinbase c' = (if keep then coinbase c else None)"
    "prevrandao c' = (if keep then prevrandao c else None)"
    "block_gas_limit c' = (if keep then block_gas_limit c else None)"
    "bk_block_hashes c' = hm_insert (ucast n) h (bk_block_hashes c)"
    "db_block_hashes c' = hm_insert (ucast n) h (db_block_hashes c)"
    "chain_id c' = chain_id c" "context_requirements c' = context_requirements c"
    "timestamp_override c' = (case ts of Some t \<Rightarrow> Some t
       | None \<Rightarrow> if p \<and> block c = HashId h (Some True) \<and> block_number c = Some n
                 then timestamp_override c else None)"
  unfolding c'_def keep_def advance_compact_block_def
  by (simp_all add: Let_def split: prod.splits)

lemma env_matches_number: "env_matches (Some src) n h \<Longrightarrow> source_number src = n"
  by (cases src) auto

lemma vouched_compact: "vouched P R c \<Longrightarrow> vouched P (insert (n, ts) R) (advance_compact_block n h ts p c)"
proof -
  assume v: "vouched P R c"
  let ?c = "advance_compact_block n h ts p c"
  show ?thesis
  proof (cases "p \<and> env_matches (env_source c) n h")
    case True
    then obtain src eo where src: "env_source c = Some src" "source_number src = n" and eo: "eo \<in> P" "comes_from R c src eo"
      using v env_matches_number by (cases "env_source c") (auto simp: vouched_def)
    have "block_env ?c = eo_env eo"
      using eo(2) src(2) True by (auto simp: comes_from_def block_env_def compact_fields)
    moreover have "timestamp_override ?c = timestamp_override c \<or> timestamp_override ?c = ts"
      by (simp add: compact_fields split: option.splits)
    then have "timestamp_override ?c = eo_timestamp eo \<or> (n, timestamp_override ?c) \<in> insert (n, ts) R"
      using eo(2) src(2) unfolding comes_from_def by auto
    moreover have "source_number (eo_source eo) = n" using eo(2) src(2) by (simp add: comes_from_def)
    ultimately have "comes_from (insert (n, ts) R) ?c (VerifiedHash n h) eo"
      unfolding comes_from_def by (simp add: compact_fields(1,3))
    with eo(1) True show ?thesis by (auto simp: vouched_def compact_fields)
  next
    case False
    then show ?thesis by (intro vouched_None) (simp add: compact_fields)
  qed
qed

definition op_origins :: "context_op \<Rightarrow> env_origin set" where
  "op_origins op = (case op of AdvanceBlock h \<Rightarrow> {header_origin h} | _ \<Rightarrow> {})"

definition op_stamps :: "context_op \<Rightarrow> (u64 \<times> u64 option) set" where
  "op_stamps op = (case op of AdvanceCompactBlock n h ts p \<Rightarrow> {(n, ts)} | _ \<Rightarrow> {})"

lemma vouched_op: "vouched P R c \<Longrightarrow> vouched (op_origins op \<union> P) (op_stamps op \<union> R) (run_context_op op c)"
proof (cases op)
  case (AdvanceBlock h)
  then show "vouched P R c \<Longrightarrow> ?thesis" using vouched_advance [of P R c h] by (simp add: op_origins_def op_stamps_def)
next
  case (AdvanceCompactBlock n h ts p)
  then show "vouched P R c \<Longrightarrow> ?thesis" using vouched_compact [of P R c n ts h p] by (simp add: op_origins_def op_stamps_def)
qed (auto simp: op_origins_def op_stamps_def context_defs Let_def repin_to_block_def invalidate_cached_block_hashes_from_def
    set_cached_block_hash_def vouched_set_block intro: vouched_None elim: vouched_same)

lemma vouched_history:
  "vouched P R c \<Longrightarrow> vouched (\<Union> (op_origins ` set ops) \<union> P) (\<Union> (op_stamps ` set ops) \<union> R) (fold run_context_op ops c)"
proof (induction ops arbitrary: P R c)
  case (Cons op ops)
  from Cons.IH [OF vouched_op [OF Cons.prems]] show ?case by (simp add: Un_assoc Un_left_commute)
qed simp

text \<open>A timestamp that a compact advance to block \<open>n\<close> brought, or, if it brought none, no timestamp.\<close>

definition restamped :: "context_op list \<Rightarrow> u64 \<Rightarrow> u64 option \<Rightarrow> bool" where
  "restamped ops n t \<longleftrightarrow> (\<exists>h p. AdvanceCompactBlock n h t p \<in> set ops)"

lemma stamps_restamped: "(n, t) \<in> \<Union> (op_stamps ` set ops) \<longleftrightarrow> restamped ops n t"
proof -
  have "(n, t) \<in> op_stamps op \<longleftrightarrow> (\<exists>h p. op = AdvanceCompactBlock n h t p)" for op
    by (cases op) (auto simp: op_stamps_def)
  then show ?thesis by (auto simp: restamped_def)
qed

text \<open>
  \<^bold>\<open>C14.\<close> An environment that is marked as vouched for is never a mixture. After any history of context
  operations on a cache whose mark, if it has one, names its block number (as every constructor leaves it),
  block number, base fee, beneficiary, randomness and gas limit all come from one
  header the cache was advanced to, whose number is the one the mark names, and the pin is the marked
  block; or they are all still those the cache was marked with at the start, under the same number. The
  timestamp comes from the same place, unless a compact advance to the same block replaced it by its own, or
  cleared it when it had none: the mark does not vouch for the timestamp.
\<close>

theorem env_source_has_one_header:
  assumes "\<forall>src0. env_source c = Some src0 \<longrightarrow> block_number c = Some (source_number src0)"
    and "env_source (fold run_context_op ops c) = Some src"
  shows "(\<exists>h. AdvanceBlock h \<in> set ops \<and> hdr_number h = source_number src \<and>
       block_env (fold run_context_op ops c) = header_env h \<and> block (fold run_context_op ops c) = source_pin src \<and>
       (timestamp_override (fold run_context_op ops c) = Some (hdr_timestamp h) \<or>
        restamped ops (hdr_number h) (timestamp_override (fold run_context_op ops c)))) \<or>
     (\<exists>src0. env_source c = Some src0 \<and> source_number src0 = source_number src \<and>
       block_env (fold run_context_op ops c) = block_env c \<and>
       (block (fold run_context_op ops c) = source_pin src \<or> src = src0 \<and> block (fold run_context_op ops c) = block c) \<and>
       (timestamp_override (fold run_context_op ops c) = timestamp_override c \<or>
        restamped ops (source_number src) (timestamp_override (fold run_context_op ops c))))"
proof -
  let ?c = "fold run_context_op ops c" and ?P0 = "{cache_origin src0 c |src0. env_source c = Some src0}"
  have "vouched ?P0 {} c" using assms(1) by (auto simp: vouched_def comes_from_def cache_origin_def)
  from vouched_history [OF this, of ops] assms(2)
  obtain eo where eo: "eo \<in> \<Union> (op_origins ` set ops) \<union> ?P0" and orig: "comes_from (\<Union> (op_stamps ` set ops)) ?c src eo"
    by (auto simp: vouched_def)
  have "eo \<in> op_origins op \<longleftrightarrow> (\<exists>h. op = AdvanceBlock h \<and> eo = header_origin h)" for op
    by (cases op) (auto simp: op_origins_def)
  with eo consider h where "AdvanceBlock h \<in> set ops" "eo = header_origin h" | src0 where "env_source c = Some src0" "eo = cache_origin src0 c"
    by auto
  then show ?thesis
  proof cases
    case (1 h)
    with orig show ?thesis
      unfolding comes_from_def stamps_restamped
      by (intro disjI1 exI [of _ h]) (simp add: header_origin_def, metis source_pin.simps(1))
  next
    case (2 src0)
    with orig show ?thesis
      unfolding comes_from_def stamps_restamped by (intro disjI2 exI [of _ src0]) (simp add: cache_origin_def, metis)
  qed
qed

definition sample_header :: block_header where
  "sample_header = \<lparr>hdr_number = 7, hdr_base_fee_per_gas = Some 100, hdr_beneficiary = 9,
     hdr_mix_hash = Some 3, hdr_gas_limit = 30000000, hdr_timestamp = 1700\<rparr>"

text \<open>Advance to header 7, then compactly to block 7 with hash 42, keeping the environment.\<close>

definition sample_history :: "context_op list" where
  "sample_history = [SetBlock (NumberId (NumberTag 6)), AdvanceBlock sample_header,
     AdvanceCompactBlock 7 42 None True]"

lemma sample_history_source: "env_source (fold run_context_op sample_history empty_cache) = Some (VerifiedHash 7 42)"
  by (simp add: sample_history_def compact_fields advance_block_def Let_def validate_header_def set_block_def
      sample_header_def empty_cache_def lenient_requirements_def)

lemma compact_advance_drops_timestamp:
  "timestamp_override (fold run_context_op (butlast sample_history) empty_cache) = Some 1700 \<and>
   timestamp_override (fold run_context_op sample_history empty_cache) = None \<and>
   env_source (fold run_context_op sample_history empty_cache) = Some (VerifiedHash 7 42)"
  using sample_history_source
  by (simp add: sample_history_def compact_fields advance_block_def Let_def validate_header_def set_block_def
      sample_header_def empty_cache_def lenient_requirements_def bump_snapshot_generation_def)

theorem env_source_has_one_header_witness:
  "\<exists>h. AdvanceBlock h \<in> set sample_history \<and> hdr_number h = 7 \<and>
     block_env (fold run_context_op sample_history empty_cache) = header_env h \<and>
     block (fold run_context_op sample_history empty_cache) = HashId 42 (Some True)"
  using env_source_has_one_header [OF _ sample_history_source] by (auto simp: empty_cache_def)

section \<open>The generation counter\<close>

text \<open>Everything of the context that a snapshot copies or a fetch is pinned by.\<close>

definition context_view ::
  "evm_cache \<Rightarrow> (block_id \<times> u64 option \<times> env_fields) \<times> u64 \<times> block_context_requirements \<times>
     (u256 \<Rightarrow> b256 option) \<times> (u256 \<Rightarrow> b256 option)" where
  "context_view c = ((block c, block_number c, env_fields c), chain_id c, context_requirements c,
     map_of (bk_block_hashes c), map_of (db_block_hashes c))"

lemma retain_same_len: "length (hm_retain P m) = length m \<longleftrightarrow> map_of (hm_retain P m) = map_of m"
proof
  assume "length (hm_retain P m) = length m"
  then have "hm_retain P m = m"
    unfolding hm_retain_def by (metis filter_True length_filter_less less_irrefl)
  then show "map_of (hm_retain P m) = map_of m" by simp
next
  assume eq: "map_of (hm_retain P m) = map_of m"
  have "P k" if "(k, v) \<in> set m" for k v
  proof (rule ccontr)
    assume "\<not> P k"
    then have "map_of m k = None" using eq hm_get_retain [of P m k] by simp
    with that show False by (force simp: map_of_eq_None_iff)
  qed
  then have "hm_retain P m = m" unfolding hm_retain_def by (auto intro: filter_True)
  then show "length (hm_retain P m) = length m" by simp
qed

lemma map_upd_same_iff: "m(k \<mapsto> v) = m \<longleftrightarrow> m k = Some v"
  by (auto simp: fun_eq_iff)

lemma gen_set_block:
  "snapshot_generation (set_block b c) =
     snapshot_generation c + (if context_view (set_block b c) \<noteq> context_view c then 1 else 0)"
proof (cases "block c = b")
  case True
  then have "block (set_block b c) = b" "chain_id (set_block b c) = chain_id c"
    "context_requirements (set_block b c) = context_requirements c"
    "bk_block_hashes (set_block b c) = bk_block_hashes c" "db_block_hashes (set_block b c) = db_block_hashes c"
    by (simp_all add: set_block_def Let_def)
  with True have "context_view (set_block b c) \<noteq> context_view c \<longleftrightarrow>
      block_number (set_block b c) \<noteq> block_number c \<or> env_fields c \<noteq> env_fields (set_block b c)"
    by (auto simp: context_view_def)
  with True show ?thesis by (simp add: set_block_def Let_def env_fields_def)
next
  case False
  then have "block (set_block b c) = b" by (simp add: set_block_def Let_def)
  with False have "context_view (set_block b c) \<noteq> context_view c" by (simp add: context_view_def)
  with False show ?thesis by (simp add: set_block_def Let_def)
qed

lemma gen_compact:
  "snapshot_generation (advance_compact_block n h ts p c) = snapshot_generation c +
     (if context_view (advance_compact_block n h ts p c) \<noteq> context_view c then 1 else 0)"
  (is "_ = _ + (if ?changed then 1 else 0)")
proof -
  have *: "?changed \<longleftrightarrow> block c \<noteq> HashId h (Some True) \<or> block_number c \<noteq> Some n \<or>
      timestamp_override c \<noteq> timestamp_override (advance_compact_block n h ts p c) \<or>
      (\<not> (p \<and> env_matches (env_source c) n h) \<and>
        (basefee c \<noteq> None \<or> coinbase c \<noteq> None \<or> prevrandao c \<noteq> None \<or> block_gas_limit c \<noteq> None)) \<or>
      hm_get (bk_block_hashes c) (ucast n) \<noteq> Some h \<or> hm_get (db_block_hashes c) (ucast n) \<noteq> Some h"
    by (auto simp: context_view_def env_fields_def compact_fields map_upd_same_iff)
  show ?thesis unfolding * compact_fields(13)
    by (simp add: advance_compact_block_def Let_def split: option.splits)
qed

lemma gen_invalidate_hashes:
  "snapshot_generation (invalidate_cached_block_hashes_from n c) = snapshot_generation c +
     (if context_view (invalidate_cached_block_hashes_from n c) \<noteq> context_view c then 1 else 0)"
  by (auto simp: invalidate_cached_block_hashes_from_def Let_def context_view_def env_fields_def retain_same_len)

lemma gen_set_hash:
  "snapshot_generation (set_cached_block_hash n h c) = snapshot_generation c +
     (if context_view (set_cached_block_hash n h c) \<noteq> context_view c then 1 else 0)"
  by (auto simp: set_cached_block_hash_def Let_def context_view_def env_fields_def map_upd_same_iff)

definition accepted_advance :: "context_op \<Rightarrow> evm_cache \<Rightarrow> bool" where
  "accepted_advance op c \<longleftrightarrow> (\<exists>h. op = AdvanceBlock h \<and> fst (advance_block h c) = Okay ())"

text \<open>
  \<^bold>\<open>C26.\<close> The snapshot generation follows the context exactly: each context operation adds one
  if it changed anything of the block context, the requirements, the chain id or the block-hash cache
  (or is an accepted \<open>advance_block\<close>, which always adds one), and leaves the counter alone otherwise.
\<close>

theorem generation_follows_context:
  "snapshot_generation (run_context_op op c) = snapshot_generation c +
     (if \<not> accepted_advance op c \<and> context_view (run_context_op op c) = context_view c then 0 else 1)"
proof (cases op)
  case (AdvanceBlock h)
  then show ?thesis
    by (cases "validate_header (context_requirements c) h")
      (simp_all add: accepted_advance_def advance_block_def Let_def)
qed (simp_all only: run_context_op.simps repin_to_block_def gen_set_block gen_compact gen_invalidate_hashes
    gen_set_hash accepted_advance_def context_op.distinct simp_thms,
  auto simp: context_defs context_view_def env_fields_def Let_def)

section \<open>Advancing and re-pinning\<close>

definition missing_required :: "block_context_requirements \<Rightarrow> block_header \<Rightarrow> bool" where
  "missing_required reqs h \<longleftrightarrow>
     require_basefee reqs \<and> hdr_base_fee_per_gas h = None \<or> require_prevrandao reqs \<and> hdr_mix_hash h = None"

lemma validate_header_iff: "validate_header reqs h = Okay () \<longleftrightarrow> \<not> missing_required reqs h"
  by (auto simp: validate_header_def missing_required_def)

definition same_state :: "evm_cache \<Rightarrow> evm_cache \<Rightarrow> bool" where
  "same_state c c' \<longleftrightarrow> db_accounts c' = db_accounts c \<and> bk_accounts c' = bk_accounts c \<and>
     bk_storage c' = bk_storage c \<and> base c' = base c \<and> base_dirty c' = base_dirty c \<and>
     base_full_rebuild c' = base_full_rebuild c \<and> base_storage_lens c' = base_storage_lens c"

text \<open>
  \<^bold>\<open>C31.\<close> \<open>advance_block\<close> is all or nothing. It fails exactly when the header lacks a base fee
  or randomness that the requirements demand, and then the cache is unchanged; otherwise number, base
  fee, beneficiary, randomness, gas limit and timestamp are all the header's, the pin and the backend's
  pin are at its number, and neither layer nor the memoised base is touched.
\<close>

theorem advance_block_all_or_nothing:
  "if missing_required (context_requirements c) h
   then (\<exists>f. fst (advance_block h c) = Err (MissingField f)) \<and> snd (advance_block h c) = c
   else fst (advance_block h c) = Okay () \<and> carries_header (snd (advance_block h c)) h \<and>
     block (snd (advance_block h c)) = NumberId (NumberTag (hdr_number h)) \<and>
     bk_pinned (snd (advance_block h c)) = block (snd (advance_block h c)) \<and>
     same_state c (snd (advance_block h c))"
proof (cases "missing_required (context_requirements c) h")
  case True
  then have "\<exists>f. validate_header (context_requirements c) h = Err (MissingField f)"
    by (auto simp: validate_header_def missing_required_def)
  with True show ?thesis by (auto simp: advance_block_def)
next
  case False
  then have "validate_header (context_requirements c) h = Okay ()" by (simp add: validate_header_iff)
  with False show ?thesis
    by (simp add: advance_block_def Let_def carries_header_def block_env_def header_env_def same_state_def)
      (simp add: bump_snapshot_generation_def)
qed

text \<open>
  \<^bold>\<open>C33.\<close> After \<open>set_block\<close> the \<open>NUMBER\<close> the EVM sees is the pinned height, or nothing for a tag or a
  hash. A change of pin clears every field of the environment, drops the mark of its source, moves the
  backend's pin and forces a full rebuild of the memoised base; re-pinning to a tag or a hash clears the
  environment even if the pin is the same. Repeating the call does nothing.
\<close>

theorem set_block_aligns:
  "block (set_block b c) = b \<and> block_number (set_block b c) = concrete_number b \<and>
   (if block c \<noteq> b
    then env_fields (set_block b c) = (None, None, None, None, None) \<and> env_source (set_block b c) = None \<and>
      bk_pinned (set_block b c) = b \<and> base_full_rebuild (set_block b c)
    else env_fields (set_block b c) =
        (if concrete_number b = None then (None, None, None, None, None) else env_fields c) \<and>
      bk_pinned (set_block b c) = bk_pinned c) \<and>
   set_block b (set_block b c) = set_block b c"
proof -
  have 1: "block (set_block b c) = b" "block_number (set_block b c) = concrete_number b"
    by (cases "block c = b"; cases "concrete_number b"; simp add: set_block_def Let_def)+
  have 2: "env_fields (set_block b c) =
      (if block c = b \<and> concrete_number b \<noteq> None then env_fields c else (None, None, None, None, None))"
    by (cases "block c = b"; cases "concrete_number b"; simp add: set_block_def Let_def env_fields_def)
  have 3: "bk_pinned (set_block b c) = (if block c = b then bk_pinned c else b)"
    by (cases "block c = b"; cases "concrete_number b"; simp add: set_block_def Let_def)
  have 4: "env_source (set_block b c) = None" "base_full_rebuild (set_block b c)" if "block c \<noteq> b"
    using that by (simp_all add: set_block_def Let_def bump_snapshot_generation_def invalidate_base_def)
  have "set_block b (set_block b c) = set_block b c"
    by (rule set_block_idem) (simp add: 1 2)
  with 1 2 3 4 show ?thesis by simp
qed

section \<open>Block hashes\<close>

lemma unat_up: "unat (ucast (k :: u64) :: u256) = unat k"
  by (simp add: unsigned_ucast_eq take_bit_nat_eq_self unsigned_less [THEN less_le_trans])

lemma unat_down: "unat (ucast (x :: u256) :: u64) = unat x mod 2 ^ 64"
  by (simp add: unsigned_ucast_eq unsigned_take_bit_eq take_bit_eq_mod)

lemma ucast_down_up [simp]: "(ucast (ucast (k :: u64) :: u256) :: u64) = k"
  using unsigned_less [of k, where 'a = nat] by (simp add: word_unat_eq_iff unat_down unat_up)

lemma ucast_u64_u256_eq [simp]: "(ucast (k :: u64) :: u256) = ucast (n :: u64) \<longleftrightarrow> k = n"
  by (metis ucast_down_up)

lemma ucast_u64_u256_less: "(ucast (k :: u64) :: u256) < ucast (n :: u64) \<longleftrightarrow> k < n"
  by (simp add: word_less_nat_alt unat_up)

lemma fits_iff_ucast: "fits_u64 x \<longleftrightarrow> (\<exists>k :: u64. x = ucast k)"
proof
  assume "fits_u64 x"
  then have "unat (ucast (ucast x :: u64) :: u256) = unat x"
    by (simp add: fits_u64_def unat_up unat_down)
  then show "\<exists>k :: u64. x = ucast k" by (metis word_unat_eq_iff)
next
  assume "\<exists>k :: u64. x = ucast k"
  then show "fits_u64 x" using unsigned_less [where 'b = 64 and 'a = nat] by (auto simp: fits_u64_def unat_up)
qed

lemma add_block_hash_get:
  "map_of (add_block_hash (x, h) m) k = (if x = ucast k then Some h else map_of m k)"
  by (auto simp: add_block_hash_def fits_iff_ucast)

lemma fold_add_block_hash:
  "hm_ok xs \<Longrightarrow> map_of (fold add_block_hash xs m) k =
     (case map_of xs (ucast k) of None \<Rightarrow> map_of m k | Some h \<Rightarrow> Some h)"
proof (induction xs arbitrary: m)
  case (Cons x xs)
  then have "map_of xs (fst x) = None" by (simp add: hm_ok_def map_of_eq_None_iff)
  moreover have "hm_ok xs" using Cons.prems by (simp add: hm_ok_def)
  ultimately show ?case using Cons.IH
    by (cases x) (auto simp: add_block_hash_get split: option.splits)
qed simp

definition hashes_ok :: "evm_cache \<Rightarrow> bool" where
  "hashes_ok c \<longleftrightarrow> hm_ok (bk_block_hashes c) \<and> hm_ok (db_block_hashes c)"

lemma snapshot_block_hashes_get:
  "hashes_ok c \<Longrightarrow> map_of (snapshot_block_hashes c) k =
     (case hm_get (db_block_hashes c) (ucast k) of Some h \<Rightarrow> Some h | None \<Rightarrow> hm_get (bk_block_hashes c) (ucast k))"
  by (simp add: snapshot_block_hashes_def hashes_ok_def fold_add_block_hash split: option.splits)

lemma invalidate_hashes_fields:
  "bk_block_hashes (invalidate_cached_block_hashes_from n c) = hm_retain (\<lambda>k. k < ucast n) (bk_block_hashes c)"
  "db_block_hashes (invalidate_cached_block_hashes_from n c) = hm_retain (\<lambda>k. k < ucast n) (db_block_hashes c)"
  by (simp_all add: invalidate_cached_block_hashes_from_def Let_def)

text \<open>
  \<^bold>\<open>C32.\<close> \<open>BLOCKHASH\<close> across a reorganisation: after the hashes from block \<open>n\<close> on are invalidated and
  the cache is advanced compactly to block \<open>n\<close> with the new hash, a snapshot answers the new hash at
  \<open>n\<close>, nothing above it, and below it what it answered before, whichever layer held the entries.
\<close>

theorem reorg_block_hashes:
  assumes "hashes_ok c"
  shows "hm_get (snapshot_block_hashes (advance_compact_block n h ts p
           (invalidate_cached_block_hashes_from n c))) k =
     (if k = n then Some h else if k < n then hm_get (snapshot_block_hashes c) k else None)"
proof -
  let ?c' = "advance_compact_block n h ts p (invalidate_cached_block_hashes_from n c)"
  have "hashes_ok ?c'" using assms by (simp add: hashes_ok_def compact_fields invalidate_hashes_fields)
  then show ?thesis
    using assms by (auto simp: snapshot_block_hashes_get compact_fields invalidate_hashes_fields
        ucast_u64_u256_less split: option.splits)
qed

definition forked_cache :: evm_cache where
  "forked_cache = empty_cache\<lparr>bk_block_hashes := [(5, 50), (6, 60)], db_block_hashes := [(7, 70)]\<rparr>"

theorem reorg_block_hashes_witness:
  "hm_get (snapshot_block_hashes (advance_compact_block 6 61 None False
     (invalidate_cached_block_hashes_from 6 forked_cache))) 7 = None \<and>
   hashes_ok forked_cache \<and> hm_get (snapshot_block_hashes forked_cache) 7 = Some 70"
proof -
  have ok: "hashes_ok forked_cache" by (simp add: hashes_ok_def forked_cache_def hm_ok_def)
  then have "hm_get (snapshot_block_hashes forked_cache) 7 = Some 70"
    by (simp add: snapshot_block_hashes_get forked_cache_def)
  with ok show ?thesis using reorg_block_hashes [OF ok, of 6 61 None False 7] by simp
qed

end
