(* ===== verification/Code_Seeds.thy ===== *)
theory Code_Seeds
  imports Snapshot_Props
begin

text \<open>
  Code seeds (\<^verbatim>\<open>src/cache/code_seeds.rs\<close> and the seeding operations of \<^verbatim>\<open>src/cache/mod.rs\<close>):
  canonical code claims (\<open>seed_account_code\<close>) that \<open>verify_code_seeds\<close> checks against the chain,
  deliberate local divergence (\<open>etch_account_code\<close>, \<open>override_account_code\<close>) and worker-prepared
  account patches. An address without a mark is of RPC origin.

  External code is an argument: \<open>keccak\<close> (\<open>alloy_primitives::keccak256\<close>) and \<open>basic_ref\<close> (the shared backend, whose
  caching of what it fetches is lazy growth of layer 2). The account-fields fetcher is a field of the
  cache.
\<close>

section \<open>Local reads and marked writes\<close>

definition local_account_info :: "evm_cache \<Rightarrow> address \<Rightarrow> account_info option" where
  "local_account_info c a =
     (case hm_get (db_accounts c) a of
        Some d \<Rightarrow> Some (da_info d)
      | None \<Rightarrow> hm_get (bk_accounts c) a)"

definition write_marked_code :: "revm_ext \<Rightarrow> address \<Rightarrow> account_info \<Rightarrow> evm_cache \<Rightarrow> evm_cache" where
  "write_marked_code ext a info c =
     bump_snapshot_generation (mark_base_dirty a
       (c\<lparr>db_accounts := insert_account_info ext a info (db_accounts c),
          bk_accounts := hm_insert a info (bk_accounts c)\<rparr>))"

definition set_mark :: "address \<Rightarrow> code_seed_state \<Rightarrow> evm_cache \<Rightarrow> evm_cache" where
  "set_mark a st c = c\<lparr>code_seeds := hm_insert a st (code_seeds c)\<rparr>"

definition with_code :: "bytes \<Rightarrow> b256 \<Rightarrow> account_info \<Rightarrow> account_info" where
  "with_code code h info = info\<lparr>ai_code := Some code, ai_code_hash := h\<rparr>"

section \<open>Seeding and etching\<close>

definition lacks_code_bytes :: "account_info \<Rightarrow> bool" where
  "lacks_code_bytes i = (case ai_code i of None \<Rightarrow> True | Some code \<Rightarrow> code = [])"

definition seed_account_code_with ::
  "revm_ext \<Rightarrow> address \<Rightarrow> bytes \<Rightarrow> u64 \<Rightarrow> u256 \<Rightarrow> evm_cache \<Rightarrow> (cache_error + b256) \<times> evm_cache" where
  "seed_account_code_with ext a code nonce balance c =
     (if code = [] then (Err (CodeSeedEmpty a), c)
      else
        (let code_hash = hash_slow ext code;
             local = local_account_info c a
         in case (hm_contains (code_seeds c) a, local) of
              (False, Some existing) \<Rightarrow>
                if ai_code_hash existing = code_hash
                then
                  (let c1 = (if lacks_code_bytes existing
                             then write_marked_code ext a (with_code code code_hash existing) c else c)
                   in (Okay code_hash,
                       set_mark a (CsVerified code_hash (unwrap_or (block_number c1) 0)) c1))
                else (Err (CodeSeedConflict a (ai_code_hash existing) code_hash), c)
            | _ \<Rightarrow>
                (let info = unwrap_or local
                       \<lparr>ai_balance = balance, ai_nonce = nonce, ai_code_hash = keccak_empty ext, ai_code = None\<rparr>
                 in (Okay code_hash,
                     set_mark a (CsPending code_hash)
                       (write_marked_code ext a (with_code code code_hash info) c)))))"

definition seed_account_code ::
  "revm_ext \<Rightarrow> address \<Rightarrow> bytes \<Rightarrow> evm_cache \<Rightarrow> (cache_error + b256) \<times> evm_cache" where
  "seed_account_code ext a code c = seed_account_code_with ext a code 1 0 c"

definition etch_account_code ::
  "revm_ext \<Rightarrow> address \<Rightarrow> bytes \<Rightarrow> evm_cache \<Rightarrow> (cache_error + b256) \<times> evm_cache" where
  "etch_account_code ext a code c =
     (if code = [] then (Err (CodeSeedEmpty a), c)
      else
        (let code_hash = hash_slow ext code;
             info = unwrap_or (local_account_info c a) (default_info ext)
         in (Okay code_hash,
             set_mark a (CsEtched code_hash) (write_marked_code ext a (with_code code code_hash info) c))))"

definition pending_code_seeds :: "evm_cache \<Rightarrow> address list" where
  "pending_code_seeds c = sort (map fst (filter (\<lambda>(a, st). case st of CsPending _ \<Rightarrow> True | _ \<Rightarrow> False) (code_seeds c)))"

definition etched_accounts :: "evm_cache \<Rightarrow> address list" where
  "etched_accounts c = sort (map fst (filter (\<lambda>(a, st). case st of CsEtched _ \<Rightarrow> True | _ \<Rightarrow> False) (code_seeds c)))"

section \<open>Overriding code\<close>

datatype missing_target_behavior = MissingError | MissingCreate

definition target_account_info ::
  "revm_ext \<Rightarrow> (address \<Rightarrow> string + account_info option) \<Rightarrow> address \<Rightarrow> missing_target_behavior \<Rightarrow> evm_cache
     \<Rightarrow> cache_error + account_info" where
  "target_account_info ext basic_ref target missing c =
     (let fallback = (case missing of
            MissingCreate \<Rightarrow> Okay (default_info ext)
          | MissingError \<Rightarrow>
              (case basic_ref target of
                 Inl e \<Rightarrow> Err (TargetAccountFetch target e)
               | Inr None \<Rightarrow> Err (MissingTargetAccount target)
               | Inr (Some info) \<Rightarrow> Okay info))
      in case hm_get (db_accounts c) target of
           Some d \<Rightarrow> if da_state d \<noteq> NotExisting then Okay (da_info d) else fallback
         | None \<Rightarrow> fallback)"

definition ensure_runtime_code :: "address \<Rightarrow> bytes option \<Rightarrow> string \<Rightarrow> cache_error + unit" where
  "ensure_runtime_code a code role =
     (if (case code of None \<Rightarrow> False | Some bs \<Rightarrow> bs \<noteq> []) then Okay ()
      else Err (MissingRuntimeCode
             (if role = ''source'' then ''source'' else if role = ''target'' then ''target'' else ''account'') a))"

definition override_account_code_with_missing_target ::
  "revm_ext \<Rightarrow> (address \<Rightarrow> string + account_info option) \<Rightarrow> address \<Rightarrow> address \<Rightarrow> missing_target_behavior
     \<Rightarrow> evm_cache \<Rightarrow> (cache_error + unit) \<times> evm_cache" where
  "override_account_code_with_missing_target ext basic_ref source target missing c =
     (case Option.bind (hm_get (db_accounts c) source) (\<lambda>d. ai_code (da_info d)) of
        None \<Rightarrow> (Err (MissingSourceBytecode source), c)
      | Some source_code \<Rightarrow>
          (case ensure_runtime_code source (Some source_code) ''source'' of
             Inl e \<Rightarrow> (Err e, c)
           | Inr _ \<Rightarrow>
               (let code_hash = hash_slow ext source_code
                in case target_account_info ext basic_ref target missing c of
                     Inl e \<Rightarrow> (Err e, c)
                   | Inr target_info \<Rightarrow>
                       (case (if missing = MissingError
                              then ensure_runtime_code target (ai_code target_info) ''target'' else Okay ()) of
                          Inl e \<Rightarrow> (Err e, c)
                        | Inr _ \<Rightarrow>
                            (let info = with_code source_code code_hash target_info;
                                 c1 = mark_base_dirty target
                                   (c\<lparr>db_accounts := insert_account_info ext target info (db_accounts c),
                                      bk_accounts := hm_insert target info (bk_accounts c)\<rparr>)
                             in (Okay (), set_mark target (CsEtched code_hash) c1))))))"

definition override_account_code ::
  "revm_ext \<Rightarrow> (address \<Rightarrow> string + account_info option) \<Rightarrow> address \<Rightarrow> address \<Rightarrow> evm_cache
     \<Rightarrow> (cache_error + unit) \<times> evm_cache" where
  "override_account_code ext basic_ref source target c =
     override_account_code_with_missing_target ext basic_ref source target MissingError c"

definition override_or_create_account_code ::
  "revm_ext \<Rightarrow> (address \<Rightarrow> string + account_info option) \<Rightarrow> address \<Rightarrow> address \<Rightarrow> evm_cache
     \<Rightarrow> (cache_error + unit) \<times> evm_cache" where
  "override_or_create_account_code ext basic_ref source target c =
     override_account_code_with_missing_target ext basic_ref source target MissingCreate c"

section \<open>Verification against the chain\<close>

definition multicall3_address :: address where
  "multicall3_address = 0xcA11bde05977b3631167028862bE2a173976CA11"

record code_mismatch =
  cm_address :: address
  cm_expected :: b256
  cm_actual :: b256

record code_verify_report =
  cv_verified :: "address list"
  cv_mismatched :: "code_mismatch list"
  cv_not_deployed :: "address list"
  cv_codeless :: "address list"
  cv_unverifiable :: "(address \<times> string) list"

definition empty_report :: code_verify_report where
  "empty_report = \<lparr>cv_verified = [], cv_mismatched = [], cv_not_deployed = [], cv_codeless = [], cv_unverifiable = []\<rparr>"

definition materialize_verified_balance :: "address \<Rightarrow> u256 \<Rightarrow> evm_cache \<Rightarrow> evm_cache" where
  "materialize_verified_balance a bal c =
     mark_base_dirty a
       (c\<lparr>db_accounts := hm_modify a (\<lambda>d. d\<lparr>da_info := (da_info d)\<lparr>ai_balance := bal\<rparr>\<rparr>) (db_accounts c),
          bk_accounts := hm_modify a (\<lambda>i. i\<lparr>ai_balance := bal\<rparr>) (bk_accounts c)\<rparr>)"

definition host_reason :: string where
  "host_reason = ''the account-fields extractor is hosted at this address under the eth_call override; verify it via the eth_getProof path instead''"

definition no_sample_reason :: string where
  "no_sample_reason = ''account-fields fetcher returned no sample for this address''"

text \<open>One iteration of the loop over the queried seeds.\<close>

definition verify_seed ::
  "revm_ext \<Rightarrow> (address, account_fields_sample) hashmap \<Rightarrow> u64 \<Rightarrow> address
     \<Rightarrow> code_verify_report \<times> evm_cache \<Rightarrow> (code_verify_report \<times> evm_cache) option" where
  "verify_seed ext sampled at_block a st =
     (let report = fst st; c = snd st
      in case hm_get (code_seeds c) a of
           Some (CsPending expected) \<Rightarrow>
             (case hm_get sampled a of
                None \<Rightarrow> Some (report\<lparr>cv_unverifiable := cv_unverifiable report @ [(a, no_sample_reason)]\<rparr>, c)
              | Some sample \<Rightarrow>
                  if af_code_hash sample = expected
                  then Some (report\<lparr>cv_verified := cv_verified report @ [a]\<rparr>,
                         materialize_verified_balance a (af_balance sample)
                           (set_mark a (CsVerified expected at_block) c))
                  else map_option (\<lambda>c'.
                         (if af_code_hash sample = 0
                          then report\<lparr>cv_not_deployed := cv_not_deployed report @ [a]\<rparr>
                          else if af_code_hash sample = keccak_empty ext
                          then report\<lparr>cv_codeless := cv_codeless report @ [a]\<rparr>
                          else report\<lparr>cv_mismatched := cv_mismatched report @
                                 [\<lparr>cm_address = a, cm_expected = expected, cm_actual = af_code_hash sample\<rparr>]\<rparr>, c'))
                       (purge_account ext a c))
         | _ \<Rightarrow> Some (report, c))"

fun verify_seed_loop ::
  "revm_ext \<Rightarrow> (address, account_fields_sample) hashmap \<Rightarrow> u64 \<Rightarrow> address list
     \<Rightarrow> code_verify_report \<times> evm_cache \<Rightarrow> (code_verify_report \<times> evm_cache) option" where
  "verify_seed_loop ext sampled at_block [] st = Some st"
| "verify_seed_loop ext sampled at_block (a # as) st =
     Option.bind (verify_seed ext sampled at_block a st) (verify_seed_loop ext sampled at_block as)"

definition verify_code_seeds ::
  "revm_ext \<Rightarrow> evm_cache \<Rightarrow> (cache_error + code_verify_report \<times> evm_cache) option" where
  "verify_code_seeds ext c =
     (let pending = pending_code_seeds c
      in if pending = [] then Some (Okay (empty_report, c))
         else case account_fields_fetcher c of
           None \<Rightarrow> Some (Err MissingAccountFieldsFetcher)
         | Some fetcher \<Rightarrow>
             (let host = filter (\<lambda>a. a = multicall3_address) pending;
                  query = filter (\<lambda>a. a \<noteq> multicall3_address) pending;
                  report = empty_report\<lparr>cv_unverifiable := map (\<lambda>a. (a, host_reason)) host\<rparr>
              in if query = [] then Some (Okay (report, c))
                 else case fetcher query (block c) of
                   None \<Rightarrow> None
                 | Some (Inl reason) \<Rightarrow>
                     Some (Okay (report\<lparr>cv_unverifiable := cv_unverifiable report @ map (\<lambda>a. (a, reason)) query\<rparr>, c))
                 | Some (Inr samples) \<Rightarrow>
                     map_option Okay (verify_seed_loop ext (hm_extend [] samples) (unwrap_or (block_number c) 0)
                       query (report, c))))"

section \<open>Prepared account patches\<close>

record account_proof =
  pf_storage_hash :: b256
  pf_balance :: u256
  pf_nonce :: u64
  pf_code_hash :: b256
  pf_slots :: "(u256 \<times> u256) list"

record prepared_account_value =
  pv_address :: address
  pv_proof :: account_proof
  pv_code :: bytes

record prepared_account_patch =
  pp_block_hash :: b256
  pp_verified_at_block :: u64
  pp_values :: "prepared_account_value list"

datatype prepared_patch_error =
    BaselineMismatch b256 "b256 option"
  | DuplicateAccount address
  | EmptyCode address
  | UnexpectedProofSlots address nat
  | CodeHashMismatch address b256 b256
  | EtchedAccount address
  | SeedConflict address b256 b256

definition check_seed :: "evm_cache \<Rightarrow> address \<Rightarrow> b256 \<Rightarrow> prepared_patch_error option" where
  "check_seed c a actual =
     (case hm_get (code_seeds c) a of
        None \<Rightarrow> None
      | Some (CsEtched _) \<Rightarrow> Some (EtchedAccount a)
      | Some existing \<Rightarrow>
          if seed_code_hash existing \<noteq> actual then Some (SeedConflict a (seed_code_hash existing) actual) else None)"

fun prepare_values ::
  "revm_ext \<Rightarrow> (bytes \<Rightarrow> b256) \<Rightarrow> evm_cache \<Rightarrow> prepared_account_value list \<Rightarrow> address hashset
     \<Rightarrow> (address \<times> account_info \<times> b256) list \<Rightarrow> prepared_patch_error + (address \<times> account_info \<times> b256) list" where
  "prepare_values ext keccak c [] identities prepared = Okay prepared"
| "prepare_values ext keccak c (v # vs) identities prepared =
     (let a = pv_address v; proof = pv_proof v; code = pv_code v
      in if a \<in> set identities then Err (DuplicateAccount a)
         else if code = [] then Err (EmptyCode a)
         else if pf_slots proof \<noteq> [] then Err (UnexpectedProofSlots a (length (pf_slots proof)))
         else (let actual = keccak code
               in if actual \<noteq> pf_code_hash proof then Err (CodeHashMismatch a (pf_code_hash proof) actual)
                  else case check_seed c a actual of
                    Some e \<Rightarrow> Err e
                  | None \<Rightarrow>
                      (let info = (unwrap_or (local_account_info c a) (default_info ext))
                             \<lparr>ai_balance := pf_balance proof, ai_nonce := pf_nonce proof,
                              ai_code_hash := actual, ai_code := Some code\<rparr>
                       in prepare_values ext keccak c vs (List.insert a identities)
                            (prepared @ [(a, info, actual)]))))"

definition prepare_prepared_account_patch ::
  "revm_ext \<Rightarrow> (bytes \<Rightarrow> b256) \<Rightarrow> prepared_account_patch \<Rightarrow> evm_cache
     \<Rightarrow> prepared_patch_error + (address \<times> account_info \<times> b256) list" where
  "prepare_prepared_account_patch ext keccak patch c =
     (let cache_hash = as_block_hash (block c)
      in if cache_hash \<noteq> Some (pp_block_hash patch) then Err (BaselineMismatch (pp_block_hash patch) cache_hash)
         else prepare_values ext keccak c (pp_values patch) [] [])"

definition apply_prepared_account_patch ::
  "revm_ext \<Rightarrow> (bytes \<Rightarrow> b256) \<Rightarrow> prepared_account_patch \<Rightarrow> evm_cache
     \<Rightarrow> (prepared_patch_error + nat) \<times> evm_cache" where
  "apply_prepared_account_patch ext keccak patch c =
     (case prepare_prepared_account_patch ext keccak patch c of
        Inl e \<Rightarrow> (Err e, c)
      | Inr prepared \<Rightarrow>
          (let c1 = c\<lparr>db_accounts := fold (\<lambda>(a, info, _). insert_account_info ext a info) prepared (db_accounts c)\<rparr>;
               c2 = c1\<lparr>bk_accounts := fold (\<lambda>(a, info, _). hm_insert a info) prepared (bk_accounts c1)\<rparr>;
               c3 = fold (\<lambda>(a, _, h) c. mark_base_dirty a
                      (set_mark a (CsVerified h (pp_verified_at_block patch)) c)) prepared c2;
               c4 = (if prepared \<noteq> [] then bump_snapshot_generation c3 else c3)
           in (Okay (length prepared), c4)))"

end
