(* ===== verification/Code_Seed_Laws.thy ===== *)
theory Code_Seed_Laws
  imports Code_Seeds
begin

text \<open>
  Effects of the seeding operations on the two things the seed machinery looks at: the mark of an
  address and what is locally known of its account. \<open>seed_state\<close> pairs the two.
\<close>

section \<open>Marks and local accounts\<close>

definition mark_at :: "evm_cache \<Rightarrow> address \<Rightarrow> code_seed_state option" where
  "mark_at c a = hm_get (code_seeds c) a"

lemma mark_at_same: "code_seeds c' = code_seeds c \<Longrightarrow> mark_at c' a = mark_at c a"
  by (simp add: mark_at_def)

lemma mark_at_set [simp]: "mark_at (set_mark a st c) b = (if b = a then Some st else mark_at c b)"
  by (simp add: mark_at_def set_mark_def)

lemma local_cong:
  "db_accounts c' = db_accounts c \<Longrightarrow> bk_accounts c' = bk_accounts c \<Longrightarrow> local_account_info c' = local_account_info c"
  by (simp add: fun_eq_iff local_account_info_def cong: option.case_cong)

lemma local_set_mark [simp]: "local_account_info (set_mark a st c) = local_account_info c"
  by (rule local_cong) (simp_all add: set_mark_def)

lemma mark_at_bump [simp]: "mark_at (bump_snapshot_generation c) = mark_at c"
  by (simp add: fun_eq_iff mark_at_def bump_snapshot_generation_def)

lemma local_bump [simp]: "local_account_info (bump_snapshot_generation c) = local_account_info c"
  by (rule local_cong) simp_all

lemma mark_at_dirty [simp]: "mark_at (mark_base_dirty a c) = mark_at c"
  by (simp add: fun_eq_iff mark_at_def mark_base_dirty_def)

lemma local_dirty [simp]: "local_account_info (mark_base_dirty a c) = local_account_info c"
  by (rule local_cong) (simp_all add: mark_base_dirty_def)

lemma mark_at_write_marked [simp]: "mark_at (write_marked_code ext a i c) = mark_at c"
  by (simp add: fun_eq_iff write_marked_code_def) (simp add: mark_at_def)

text \<open>Installing an account in both layers, the shared core of every code write.\<close>

definition install_account :: "revm_ext \<Rightarrow> address \<Rightarrow> account_info \<Rightarrow> evm_cache \<Rightarrow> evm_cache" where
  "install_account ext a i c = c\<lparr>db_accounts := insert_account_info ext a i (db_accounts c),
     bk_accounts := hm_insert a i (bk_accounts c)\<rparr>"

lemma local_install:
  assumes ext: "revm_ok ext" and nz: "ai_code_hash i \<noteq> 0"
  shows "local_account_info (install_account ext a i c) b = (if b = a then Some i else local_account_info c b)"
proof -
  obtain d where "hm_get (insert_account_info ext a i (db_accounts c)) a = Some d" and "da_info d = i"
    using insert_account_info_same [OF ext nz] by metis
  then show ?thesis
    using insert_account_info_other [OF ext, of b a i "db_accounts c"]
    by (auto simp: local_account_info_def install_account_def cong: option.case_cong)
qed

lemma local_write_marked:
  assumes "revm_ok ext" and "ai_code_hash i \<noteq> 0"
  shows "local_account_info (write_marked_code ext a i c) b = (if b = a then Some i else local_account_info c b)"
  using local_install [OF assms] by (simp add: write_marked_code_def install_account_def)

lemma local_write_through:
  assumes ext: "revm_ok ext"
  shows "local_account_info (write_account_info_through ext a i c) b =
     (if b = a then Some (normalize_code_hash ext i) else local_account_info c b)"
proof (cases "hm_contains (db_accounts c) a")
  case True
  then have "local_account_info (write_account_info_through ext a i c) =
      local_account_info (install_account ext a (normalize_code_hash ext i) c)"
    by (intro local_cong) (simp_all add: write_account_info_through_def Let_def install_account_def mark_base_dirty_def)
  then show ?thesis using local_install [OF ext normalize_nonzero [OF ext]] by simp
next
  case False
  then show ?thesis by (auto simp: write_account_info_through_def Let_def local_account_info_def split: option.splits)
qed

lemma mark_write_through [simp]: "mark_at (write_account_info_through ext a i c) = mark_at c"
  by (simp add: fun_eq_iff write_account_info_through_def Let_def) (simp add: mark_at_def)

lemma loaded_local:
  "loaded_account_info ext c a = Some i \<Longrightarrow> \<exists>i0. local_account_info c a = Some i0 \<and> i = normalize_code_hash ext i0"
  by (auto simp: loaded_account_info_def local_account_info_def split: option.splits if_splits)

section \<open>Purging an account\<close>

lemma purge_account_eq: "purge_account ext a c = Some (snd (purge_account_inner a (bump_snapshot_generation c)))"
  by (simp add: purge_account_def apply_update_def apply_purge_def split: prod.splits)

lemma mark_purge [simp]: "mark_at (snd (purge_account_inner a c)) b = (if b = a then None else mark_at c b)"
  by (simp add: mark_at_def purge_account_inner_def Let_def mark_base_dirty_def)

lemma local_purge [simp]:
  "local_account_info (snd (purge_account_inner a c)) b = (if b = a then None else local_account_info c b)"
  by (simp add: local_account_info_def purge_account_inner_def Let_def mark_base_dirty_def cong: option.case_cong)

lemma mark_materialize [simp]: "mark_at (materialize_verified_balance a bal c) = mark_at c"
  by (simp add: fun_eq_iff materialize_verified_balance_def) (simp add: mark_at_def)

lemma local_materialize:
  "local_account_info (materialize_verified_balance a bal c) b =
     (if b = a then map_option (\<lambda>i. i\<lparr>ai_balance := bal\<rparr>) (local_account_info c b) else local_account_info c b)"
  by (auto simp: materialize_verified_balance_def local_account_info_def split: option.splits)

section \<open>The verification loop\<close>

text \<open>What the chain's answer does to a mark and to the account it marks.\<close>

fun settle_mark :: "(address, account_fields_sample) hashmap \<Rightarrow> u64 \<Rightarrow> address \<Rightarrow> code_seed_state option
    \<Rightarrow> code_seed_state option" where
  "settle_mark sampled n a (Some (CsPending h)) =
     (case hm_get sampled a of
        None \<Rightarrow> Some (CsPending h)
      | Some s \<Rightarrow> if af_code_hash s = h then Some (CsVerified h n) else None)"
| "settle_mark sampled n a m = m"

definition settle_account :: "(address, account_fields_sample) hashmap \<Rightarrow> address \<Rightarrow> code_seed_state option
    \<Rightarrow> account_info option \<Rightarrow> account_info option" where
  "settle_account sampled a m i =
     (case (m, hm_get sampled a) of
        (Some (CsPending h), Some s) \<Rightarrow>
          if af_code_hash s = h then map_option (\<lambda>i. i\<lparr>ai_balance := af_balance s\<rparr>) i else None
      | _ \<Rightarrow> i)"

lemma verify_seed_total: "\<exists>rep' c'. verify_seed ext sampled n a (rep, c) = Some (rep', c')"
  by (auto simp: verify_seed_def Let_def purge_account_eq split: option.splits code_seed_state.splits)

lemma verify_seed_effect:
  assumes "verify_seed ext sampled n a (rep, c) = Some (rep', c')"
  shows "mark_at c' b = (if b = a then settle_mark sampled n a (mark_at c a) else mark_at c b)"
    and "local_account_info c' b =
      (if b = a then settle_account sampled a (mark_at c a) (local_account_info c a) else local_account_info c b)"
  using assms
  by (auto simp: verify_seed_def Let_def purge_account_eq settle_account_def local_materialize
      simp flip: mark_at_def split: option.splits code_seed_state.splits if_splits)

lemma verify_loop_total: "\<exists>rep' c'. verify_seed_loop ext sampled n as (rep, c) = Some (rep', c')"
proof (induction as arbitrary: rep c)
  case (Cons a as)
  obtain rep1 c1 where "verify_seed ext sampled n a (rep, c) = Some (rep1, c1)"
    using verify_seed_total by blast
  with Cons.IH [of rep1 c1] show ?case by simp
qed simp

lemma verify_loop_effect:
  assumes "verify_seed_loop ext sampled n as (rep, c) = Some (rep', c')" and "distinct as"
  shows "mark_at c' b = (if b \<in> set as then settle_mark sampled n b (mark_at c b) else mark_at c b) \<and>
    local_account_info c' b =
      (if b \<in> set as then settle_account sampled b (mark_at c b) (local_account_info c b) else local_account_info c b)"
  using assms
proof (induction as arbitrary: rep c)
  case (Cons a as)
  then obtain rep1 c1 where s: "verify_seed ext sampled n a (rep, c) = Some (rep1, c1)"
    and l: "verify_seed_loop ext sampled n as (rep1, c1) = Some (rep', c')"
    by (cases "verify_seed ext sampled n a (rep, c)") auto
  have "distinct as" "a \<notin> set as" using Cons.prems(2) by simp_all
  with Cons.IH [OF l] verify_seed_effect [OF s, of b] show ?case by auto
qed simp

subsection \<open>The report\<close>

datatype seed_verdict = Unverifiable string | Confirmed | NotDeployed | Codeless | Mismatched b256

definition verdict :: "revm_ext \<Rightarrow> (address, account_fields_sample) hashmap \<Rightarrow> b256 \<Rightarrow> address \<Rightarrow> seed_verdict" where
  "verdict ext sampled h a =
     (case hm_get sampled a of
        None \<Rightarrow> Unverifiable no_sample_reason
      | Some s \<Rightarrow> if af_code_hash s = h then Confirmed else if af_code_hash s = 0 then NotDeployed
          else if af_code_hash s = keccak_empty ext then Codeless else Mismatched (af_code_hash s))"

fun reported :: "code_verify_report \<Rightarrow> address \<Rightarrow> b256 \<Rightarrow> seed_verdict \<Rightarrow> bool" where
  "reported rep a h (Unverifiable why) \<longleftrightarrow> (a, why) \<in> set (cv_unverifiable rep)"
| "reported rep a h Confirmed \<longleftrightarrow> a \<in> set (cv_verified rep)"
| "reported rep a h NotDeployed \<longleftrightarrow> a \<in> set (cv_not_deployed rep)"
| "reported rep a h Codeless \<longleftrightarrow> a \<in> set (cv_codeless rep)"
| "reported rep a h (Mismatched actual) \<longleftrightarrow>
     \<lparr>cm_address = a, cm_expected = h, cm_actual = actual\<rparr> \<in> set (cv_mismatched rep)"

fun add_verdict :: "address \<Rightarrow> b256 \<Rightarrow> seed_verdict \<Rightarrow> code_verify_report \<Rightarrow> code_verify_report" where
  "add_verdict a h (Unverifiable why) rep = rep\<lparr>cv_unverifiable := cv_unverifiable rep @ [(a, why)]\<rparr>"
| "add_verdict a h Confirmed rep = rep\<lparr>cv_verified := cv_verified rep @ [a]\<rparr>"
| "add_verdict a h NotDeployed rep = rep\<lparr>cv_not_deployed := cv_not_deployed rep @ [a]\<rparr>"
| "add_verdict a h Codeless rep = rep\<lparr>cv_codeless := cv_codeless rep @ [a]\<rparr>"
| "add_verdict a h (Mismatched actual) rep = rep\<lparr>cv_mismatched := cv_mismatched rep @
     [\<lparr>cm_address = a, cm_expected = h, cm_actual = actual\<rparr>]\<rparr>"

lemma reported_add:
  "reported (add_verdict a h' v' rep) b h v \<longleftrightarrow>
     reported rep b h v \<or> (b = a \<and> v = v' \<and> (\<forall>x. v = Mismatched x \<longrightarrow> h = h'))"
  by (cases v; cases v') auto

lemma verify_seed_report:
  assumes "verify_seed ext sampled n a (rep, c) = Some (rep', c')"
  shows "rep' = (case mark_at c a of Some (CsPending h) \<Rightarrow> add_verdict a h (verdict ext sampled h a) rep | _ \<Rightarrow> rep)"
  using assms
  by (auto simp: verify_seed_def Let_def purge_account_eq verdict_def
      simp flip: mark_at_def split: option.splits code_seed_state.splits if_splits)

lemma verify_seed_reports:
  assumes "verify_seed ext sampled n a (rep, c) = Some (rep', c')"
  shows "b \<noteq> a \<Longrightarrow> reported rep' b h v \<longleftrightarrow> reported rep b h v"
    and "mark_at c a = Some (CsPending h) \<Longrightarrow>
      reported rep' a h v \<longleftrightarrow> reported rep a h v \<or> v = verdict ext sampled h a"
  using verify_seed_report [OF assms]
  by (auto simp: reported_add split: option.splits code_seed_state.splits)

lemma verify_loop_reports_other:
  assumes "verify_seed_loop ext sampled n as (rep, c) = Some (rep', c')" and "b \<notin> set as"
  shows "reported rep' b h v \<longleftrightarrow> reported rep b h v"
  using assms
proof (induction as arbitrary: rep c)
  case (Cons x as)
  then obtain rep1 c1 where s: "verify_seed ext sampled n x (rep, c) = Some (rep1, c1)"
    and l: "verify_seed_loop ext sampled n as (rep1, c1) = Some (rep', c')"
    by (cases "verify_seed ext sampled n x (rep, c)") auto
  with Cons.IH [OF l] Cons.prems(2) verify_seed_reports(1) [OF s, of b h v] show ?case by simp
qed simp

lemma verify_loop_reports:
  assumes "verify_seed_loop ext sampled n as (rep, c) = Some (rep', c')" and "distinct as"
    and "mark_at c a = Some (CsPending h)"
  shows "reported rep' a h v \<longleftrightarrow> reported rep a h v \<or> (a \<in> set as \<and> v = verdict ext sampled h a)"
  using assms
proof (induction as arbitrary: rep c)
  case (Cons x as)
  then obtain rep1 c1 where s: "verify_seed ext sampled n x (rep, c) = Some (rep1, c1)"
    and l: "verify_seed_loop ext sampled n as (rep1, c1) = Some (rep', c')"
    by (cases "verify_seed ext sampled n x (rep, c)") auto
  show ?case
  proof (cases "x = a")
    case True
    with verify_loop_reports_other [OF l, of a h v] verify_seed_reports(2) [OF s, of h v] Cons.prems(2,3)
    show ?thesis by auto
  next
    case False
    then have "mark_at c1 a = Some (CsPending h)" using verify_seed_effect(1) [OF s, of a] Cons.prems(3) by simp
    with Cons.IH [OF l] Cons.prems(2) False verify_seed_reports(1) [OF s, of a h v] show ?thesis by auto
  qed
qed simp

section \<open>The pending seeds\<close>

lemma set_pending: "hm_ok (code_seeds c) \<Longrightarrow> set (pending_code_seeds c) = {a. \<exists>h. mark_at c a = Some (CsPending h)}"
  by (force simp: pending_code_seeds_def mark_at_def hm_get_iff_mem split: code_seed_state.splits)

lemma distinct_pending: "hm_ok (code_seeds c) \<Longrightarrow> distinct (pending_code_seeds c)"
  by (simp add: pending_code_seeds_def hm_ok_def distinct_map_filter)

lemma set_etched: "hm_ok (code_seeds c) \<Longrightarrow> set (etched_accounts c) = {a. \<exists>h. mark_at c a = Some (CsEtched h)}"
  by (force simp: etched_accounts_def mark_at_def hm_get_iff_mem split: code_seed_state.splits)

end
