(* ===== verification/Code_Seed_Props.thy ===== *)
theory Code_Seed_Props
  imports Code_Seed_Laws
begin

text \<open>
  Properties of the code-seed machinery: a seed defers to chain-fetched code, verification settles
  every pending seed the way the chain answers, a verified mark is only ever on code the chain has,
  and a prepared patch is applied whole or not at all.
\<close>

section \<open>Seeding\<close>

text \<open>
  \<^bold>\<open>C30.\<close> A seed defers to code of RPC origin. At an unmarked address that is locally known, a seed whose
  hash is the cached one is confirmed on the spot (and only supplies bytes that were missing, keeping
  balance and nonce); any other seed is refused with \<open>CodeSeedConflict\<close> and the cache is unchanged. No
  other address is affected.
\<close>

theorem seed_defers_to_chain_code:
  assumes ext: "revm_ok ext" and unmarked: "mark_at c a = None"
    and known: "local_account_info c a = Some existing" and code: "code \<noteq> []"
  shows "case seed_account_code_with ext a code nonce balance c of
     (Inr h, c') \<Rightarrow> h = hash_slow ext code \<and> ai_code_hash existing = h \<and>
        mark_at c' a = Some (CsVerified h (unwrap_or (block_number c) 0)) \<and>
        local_account_info c' a = Some (if lacks_code_bytes existing then with_code code h existing else existing) \<and>
        (\<forall>b. b \<noteq> a \<longrightarrow> mark_at c' b = mark_at c b \<and> local_account_info c' b = local_account_info c b)
   | (Inl e, c') \<Rightarrow> ai_code_hash existing \<noteq> hash_slow ext code \<and> c' = c \<and>
        e = CodeSeedConflict a (ai_code_hash existing) (hash_slow ext code)"
proof -
  have nz: "ai_code_hash (with_code code (hash_slow ext code) existing) \<noteq> 0"
    using ext by (simp add: with_code_def revm_ok_def)
  have bn: "block_number (write_marked_code ext a i c) = block_number c" for i
    by (simp add: write_marked_code_def bump_snapshot_generation_def mark_base_dirty_def)
  show ?thesis
    using unmarked known code bn
    by (auto simp: seed_account_code_with_def Let_def local_write_marked [OF ext nz] simp flip: mark_at_def)
qed

theorem seed_defers_to_chain_code_witness:
  "fst (seed_account_code_with sample_ext 1 [96, 1] 1 0 sample_cache) = Okay 2 \<and>
   mark_at (snd (seed_account_code_with sample_ext 1 [96, 1] 1 0 sample_cache)) 1 = Some (CsVerified 2 0)"
proof -
  have "mark_at sample_cache 1 = None" "local_account_info sample_cache 1 = Some sample_info"
    by (simp_all add: mark_at_def local_account_info_def sample_cache_def empty_cache_def)
  from seed_defers_to_chain_code [OF sample_ext_ok this, of "[96, 1]" 1 0] show ?thesis
    by (auto simp: sample_defs split: prod.splits sum.splits)
qed

section \<open>Verification\<close>

definition queried_seeds :: "evm_cache \<Rightarrow> address list" where
  "queried_seeds c = filter (\<lambda>a. a \<noteq> multicall3_address) (pending_code_seeds c)"

lemma queried_member:
  "hm_ok (code_seeds c) \<Longrightarrow> a \<in> set (queried_seeds c) \<longleftrightarrow> a \<noteq> multicall3_address \<and> (\<exists>h. mark_at c a = Some (CsPending h))"
  by (auto simp: queried_seeds_def set_pending)

lemma verify_runs_loop:
  assumes "queried_seeds c \<noteq> []" and "account_fields_fetcher c = Some fetcher"
    and "fetcher (queried_seeds c) (block c) = Some (Inr samples)"
  shows "verify_code_seeds ext c = map_option Okay (verify_seed_loop ext (hm_extend [] samples)
     (unwrap_or (block_number c) 0) (queried_seeds c)
     (empty_report\<lparr>cv_unverifiable := map (\<lambda>a. (a, host_reason))
        (filter (\<lambda>a. a = multicall3_address) (pending_code_seeds c))\<rparr>, c))"
  using assms by (auto simp: verify_code_seeds_def queried_seeds_def Let_def)

lemma settle_cases:
  "settle_mark sampled n a (Some (CsPending h)) =
     (case verdict ext sampled h a of Confirmed \<Rightarrow> Some (CsVerified h n) | Unverifiable _ \<Rightarrow> Some (CsPending h) | _ \<Rightarrow> None)"
  "settle_account sampled a (Some (CsPending h)) i =
     (case verdict ext sampled h a of
        Confirmed \<Rightarrow> map_option (\<lambda>i. i\<lparr>ai_balance := af_balance (the (hm_get sampled a))\<rparr>) i
      | Unverifiable _ \<Rightarrow> i | _ \<Rightarrow> None)"
  by (auto simp: verdict_def settle_account_def split: option.splits)

text \<open>What the fetcher's answer says of a pending seed; the address that hosts the extractor is not asked.\<close>

definition answered :: "revm_ext \<Rightarrow> (string + (address \<times> account_fields_sample) list) \<Rightarrow> b256 \<Rightarrow> address \<Rightarrow> seed_verdict" where
  "answered ext ans h a =
     (if a = multicall3_address then Unverifiable host_reason
      else case ans of Inl why \<Rightarrow> Unverifiable why | Inr samples \<Rightarrow> verdict ext (hm_extend [] samples) h a)"

definition sampled_balance :: "(string + (address \<times> account_fields_sample) list) \<Rightarrow> address \<Rightarrow> u256" where
  "sampled_balance ans a = (case ans of Inl _ \<Rightarrow> 0 | Inr samples \<Rightarrow> af_balance (the (hm_get (hm_extend [] samples) a)))"

definition settled :: "seed_verdict \<Rightarrow> b256 \<Rightarrow> u64 \<Rightarrow> u256 \<Rightarrow> code_seed_state option \<times> account_info option
    \<Rightarrow> code_seed_state option \<times> account_info option" where
  "settled v h n bal before =
     (case v of
        Confirmed \<Rightarrow> (Some (CsVerified h n), map_option (\<lambda>i. i\<lparr>ai_balance := bal\<rparr>) (snd before))
      | Unverifiable _ \<Rightarrow> before
      | _ \<Rightarrow> (None, None))"

lemma verify_unanswered:
  assumes "pending_code_seeds c \<noteq> []" and "account_fields_fetcher c = Some fetcher"
    and "queried_seeds c = [] \<or> fetcher (queried_seeds c) (block c) = Some (Inl why)"
  shows "verify_code_seeds ext c = Some (Okay (empty_report\<lparr>cv_unverifiable :=
     map (\<lambda>a. (a, host_reason)) (filter (\<lambda>a. a = multicall3_address) (pending_code_seeds c)) @
     map (\<lambda>a. (a, why)) (queried_seeds c)\<rparr>, c))"
  using assms by (auto simp: verify_code_seeds_def queried_seeds_def Let_def)

lemma verify_answered:
  assumes ok: "hm_ok (code_seeds c)" and fetcher: "account_fields_fetcher c = Some fetcher"
    and ans: "fetcher (queried_seeds c) (block c) = Some (Inr samples)" and ne: "queried_seeds c \<noteq> []"
    and pend: "mark_at c a = Some (CsPending h)"
  shows "\<exists>rep c'. verify_code_seeds ext c = Some (Okay (rep, c')) \<and>
     (\<forall>v. reported rep a h v \<longleftrightarrow> v = answered ext (Inr samples) h a) \<and>
     (mark_at c' a, local_account_info c' a) = settled (answered ext (Inr samples) h a) h (unwrap_or (block_number c) 0)
        (sampled_balance (Inr samples) a) (mark_at c a, local_account_info c a) \<and>
     (\<forall>b. (\<forall>h'. mark_at c b \<noteq> Some (CsPending h')) \<longrightarrow>
        mark_at c' b = mark_at c b \<and> local_account_info c' b = local_account_info c b)"
proof -
  let ?rep = "empty_report\<lparr>cv_unverifiable := map (\<lambda>a. (a, host_reason))
        (filter (\<lambda>a. a = multicall3_address) (pending_code_seeds c))\<rparr>" and ?s = "hm_extend [] samples"
  obtain rep c' where l: "verify_seed_loop ext ?s (unwrap_or (block_number c) 0) (queried_seeds c) (?rep, c) = Some (rep, c')"
    using verify_loop_total by blast
  have dist: "distinct (queried_seeds c)" using ok by (simp add: queried_seeds_def distinct_pending)
  have run: "verify_code_seeds ext c = Some (Okay (rep, c'))" using verify_runs_loop [OF ne fetcher ans, of ext] l by simp
  have "a \<in> set (pending_code_seeds c)" using ok pend by (simp add: set_pending)
  then have "reported ?rep a h v \<longleftrightarrow> a = multicall3_address \<and> v = Unverifiable host_reason" for v
    by (cases v) (auto simp: empty_report_def)
  with verify_loop_reports [OF l dist pend] queried_member [OF ok, of a] pend
  have rep: "reported rep a h v \<longleftrightarrow> v = answered ext (Inr samples) h a" for v by (auto simp: answered_def)
  have eff: "(mark_at c' b, local_account_info c' b) =
      (if b \<in> set (queried_seeds c)
       then (settle_mark ?s (unwrap_or (block_number c) 0) b (mark_at c b), settle_account ?s b (mark_at c b) (local_account_info c b))
       else (mark_at c b, local_account_info c b))" for b
    using verify_loop_effect [OF l dist, of b] by simp
  have here: "(mark_at c' a, local_account_info c' a) = settled (answered ext (Inr samples) h a) h (unwrap_or (block_number c) 0)
        (sampled_balance (Inr samples) a) (mark_at c a, local_account_info c a)"
    using queried_member [OF ok, of a] pend
    by (auto simp: eff answered_def settled_def sampled_balance_def settle_cases [where ext = ext]
        simp del: settle_mark.simps split: seed_verdict.splits)
  have "mark_at c' b = mark_at c b \<and> local_account_info c' b = local_account_info c b"
    if "\<forall>h'. mark_at c b \<noteq> Some (CsPending h')" for b
    using eff [of b] that ok by (simp add: queried_member)
  with run rep here show ?thesis by blast
qed

text \<open>
  \<^bold>\<open>C27.\<close> \<open>verify_code_seeds\<close> settles every pending seed as the chain answers and reports exactly that
  verdict for it. Without a fetcher it is an error. Otherwise it returns whenever the fetcher does. A
  confirmed seed becomes \<open>Verified\<close> and its account keeps its nonce and code and takes the sampled balance;
  one that cannot be verified stays \<open>Pending\<close> with its account untouched: every one if the fetch failed,
  with the fetch's reason, one the fetcher gave no sample for, and always one at the Multicall3 address, which
  hosts the extractor and is not asked for; one that is contradicted (not deployed, without code, or with
  other code) loses its mark and its account in both layers. Addresses without a pending seed, etched ones
  included, keep their mark and their account.
\<close>

theorem verify_code_seeds_settles:
  assumes ok: "hm_ok (code_seeds c)" and pend: "mark_at c a = Some (CsPending h)"
  shows "(account_fields_fetcher c = None \<longrightarrow> verify_code_seeds ext c = Some (Err MissingAccountFieldsFetcher)) \<and>
    (\<forall>fetcher ans. account_fields_fetcher c = Some fetcher \<and> fetcher (queried_seeds c) (block c) = Some ans \<longrightarrow>
      (\<exists>rep c'. verify_code_seeds ext c = Some (Okay (rep, c')) \<and>
       (\<forall>v. reported rep a h v \<longleftrightarrow> v = answered ext ans h a) \<and>
       (mark_at c' a, local_account_info c' a) = settled (answered ext ans h a) h (unwrap_or (block_number c) 0)
          (sampled_balance ans a) (mark_at c a, local_account_info c a) \<and>
       (\<forall>b. (\<forall>h'. mark_at c b \<noteq> Some (CsPending h')) \<longrightarrow>
          mark_at c' b = mark_at c b \<and> local_account_info c' b = local_account_info c b)))"
proof -
  have mem: "a \<in> set (pending_code_seeds c)" using ok pend by (simp add: set_pending)
  then have ne: "pending_code_seeds c \<noteq> []" by auto
  have "\<exists>rep c'. verify_code_seeds ext c = Some (Okay (rep, c')) \<and>
       (\<forall>v. reported rep a h v \<longleftrightarrow> v = answered ext ans h a) \<and>
       (mark_at c' a, local_account_info c' a) = settled (answered ext ans h a) h (unwrap_or (block_number c) 0)
          (sampled_balance ans a) (mark_at c a, local_account_info c a) \<and>
       (\<forall>b. (\<forall>h'. mark_at c b \<noteq> Some (CsPending h')) \<longrightarrow>
          mark_at c' b = mark_at c b \<and> local_account_info c' b = local_account_info c b)"
    if f: "account_fields_fetcher c = Some fetcher" "fetcher (queried_seeds c) (block c) = Some ans" for fetcher ans
  proof (cases "queried_seeds c = [] \<or> (\<exists>why. ans = Inl why)")
    case True
    then obtain why where why: "queried_seeds c = [] \<or> ans = Inl why" by blast
    let ?rep = "empty_report\<lparr>cv_unverifiable := map (\<lambda>a. (a, host_reason)) (filter (\<lambda>a. a = multicall3_address) (pending_code_seeds c)) @
       map (\<lambda>a. (a, why)) (queried_seeds c)\<rparr>"
    have v: "answered ext ans h a = Unverifiable (if a = multicall3_address then host_reason else why)"
      using why queried_member [OF ok, of a] pend by (auto simp: answered_def)
    have "reported ?rep a h v \<longleftrightarrow> v = answered ext ans h a" for v
      unfolding v using mem by (cases v) (auto simp: empty_report_def queried_seeds_def)
    moreover have "verify_code_seeds ext c = Some (Okay (?rep, c))"
      using why f by (intro verify_unanswered [OF ne f(1)]) auto
    ultimately show ?thesis by (auto simp: v settled_def)
  next
    case False
    then obtain samples where "ans = Inr samples" by (cases ans) auto
    with False f show ?thesis using verify_answered [OF ok f(1) _ _ pend] by blast
  qed
  moreover have "account_fields_fetcher c = None \<Longrightarrow> verify_code_seeds ext c = Some (Err MissingAccountFieldsFetcher)"
    using ne by (simp add: verify_code_seeds_def)
  ultimately show ?thesis by blast
qed

definition seeded_cache :: evm_cache where
  "seeded_cache = sample_cache\<lparr>code_seeds := [(1, CsPending 2), (3, CsEtched 5), (4, CsPending 9)],
     account_fields_fetcher := Some (\<lambda>q b. Some (Inr (map (\<lambda>a. (a, \<lparr>af_balance = 77, af_code_hash = ucast a + 1\<rparr>)) q)))\<rparr>"

theorem verify_code_seeds_settles_witness:
  "\<exists>rep c'. verify_code_seeds sample_ext seeded_cache = Some (Okay (rep, c')) \<and>
     reported rep 1 2 Confirmed \<and> mark_at c' 1 = Some (CsVerified 2 0) \<and>
     map_option ai_balance (local_account_info c' 1) = Some 77 \<and> mark_at c' 3 = Some (CsEtched 5)"
proof -
  have q: "queried_seeds seeded_cache = [1, 4]"
    by (simp add: queried_seeds_def pending_code_seeds_def seeded_cache_def multicall3_address_def)
  have "hm_ok (code_seeds seeded_cache)" "mark_at seeded_cache 1 = Some (CsPending 2)"
    by (simp_all add: seeded_cache_def hm_ok_def mark_at_def)
  note settles = verify_code_seeds_settles [OF this, of sample_ext]
  let ?ans = "Inr [(1, \<lparr>af_balance = 77, af_code_hash = 2\<rparr>), (4, \<lparr>af_balance = 77, af_code_hash = 5\<rparr>)] :: string + _"
  have "\<exists>fetcher. account_fields_fetcher seeded_cache = Some fetcher \<and>
      fetcher (queried_seeds seeded_cache) (block seeded_cache) = Some ?ans"
    unfolding q by (simp add: seeded_cache_def)
  with settles obtain rep c' where run: "verify_code_seeds sample_ext seeded_cache = Some (Okay (rep, c'))"
    and rep: "\<forall>v. reported rep 1 2 v \<longleftrightarrow> v = answered sample_ext ?ans 2 1"
    and eff: "(mark_at c' 1, local_account_info c' 1) = settled (answered sample_ext ?ans 2 1) 2
        (unwrap_or (block_number seeded_cache) 0) (sampled_balance ?ans 1) (mark_at seeded_cache 1, local_account_info seeded_cache 1)"
    and others: "\<forall>b. (\<forall>h'. mark_at seeded_cache b \<noteq> Some (CsPending h')) \<longrightarrow> mark_at c' b = mark_at seeded_cache b"
    by blast
  have v: "answered sample_ext ?ans 2 1 = Confirmed"
    by (simp add: answered_def verdict_def hm_extend_def multicall3_address_def)
  have "local_account_info seeded_cache 1 = Some sample_info" "block_number seeded_cache = None"
    by (simp_all add: local_account_info_def seeded_cache_def sample_cache_def empty_cache_def)
  then have "mark_at c' 1 = Some (CsVerified 2 0)" "map_option ai_balance (local_account_info c' 1) = Some 77"
    using eff unfolding v by (simp_all add: settled_def sampled_balance_def hm_extend_def)
  moreover have "mark_at seeded_cache 3 = Some (CsEtched 5)" by (simp add: mark_at_def seeded_cache_def)
  then have "mark_at c' 3 = Some (CsEtched 5)" using others by simp
  moreover have "reported rep 1 2 Confirmed" using rep v by metis
  ultimately show ?thesis using run by blast
qed

section \<open>Trust in verified marks\<close>

text \<open>
  \<open>chain a\<close> is the code hash of \<open>a\<close> on the chain. A seed step is any operation of the seed machinery,
  a fetch by the backend, or an update that leaves code alone. What comes from outside is honest: the
  fetcher's samples, the proofs of a prepared patch and what the backend fetches carry the chain's hash.
\<close>

definition norm_hash :: "revm_ext \<Rightarrow> b256 \<Rightarrow> b256" where
  "norm_hash ext h = (if h = 0 then keccak_empty ext else h)"

fun code_neutral :: "state_update \<Rightarrow> bool" where
  "code_neutral (Account a p) = (ap_code p = None)"
| "code_neutral (AccountUpsert a p) = False"
| "code_neutral _ = True"

definition honest_fetcher :: "(address \<Rightarrow> b256) \<Rightarrow> evm_cache \<Rightarrow> bool" where
  "honest_fetcher chain c \<longleftrightarrow> (\<forall>f q samples. account_fields_fetcher c = Some f \<longrightarrow>
     f q (block c) = Some (Inr samples) \<longrightarrow> (\<forall>(a, s) \<in> set samples. af_code_hash s = chain a))"

inductive seed_step :: "revm_ext \<Rightarrow> (bytes \<Rightarrow> b256) \<Rightarrow> (address \<Rightarrow> b256) \<Rightarrow> evm_cache \<Rightarrow> evm_cache \<Rightarrow> bool"
  for ext keccak chain where
  step_seed: "seed_step ext keccak chain c (snd (seed_account_code_with ext a code nonce balance c))"
| step_etch: "seed_step ext keccak chain c (snd (etch_account_code ext a code c))"
| step_override: "seed_step ext keccak chain c
     (snd (override_account_code_with_missing_target ext basic_ref source target missing c))"
| step_verify: "hm_ok (code_seeds c) \<Longrightarrow> honest_fetcher chain c \<Longrightarrow>
     verify_code_seeds ext c = Some (Okay (rep, c')) \<Longrightarrow> seed_step ext keccak chain c c'"
| step_prepared: "(\<forall>v \<in> set (pp_values patch). pf_code_hash (pv_proof v) = chain (pv_address v)) \<Longrightarrow>
     seed_step ext keccak chain c (snd (apply_prepared_account_patch ext keccak patch c))"
| step_fetch: "local_account_info c a = None \<Longrightarrow> ai_code_hash i = chain a \<Longrightarrow>
     seed_step ext keccak chain c (c\<lparr>bk_accounts := hm_insert a i (bk_accounts c)\<rparr>)"
| step_update: "code_neutral u \<Longrightarrow> apply_update ext u c = Some (d, c') \<Longrightarrow> seed_step ext keccak chain c c'"

inductive_cases seed_stepE: "seed_step ext keccak chain c c'"

definition trusted_at ::
  "revm_ext \<Rightarrow> b256 \<Rightarrow> code_seed_state option \<Rightarrow> account_info option \<Rightarrow> bool" where
  "trusted_at ext h m i \<longleftrightarrow>
     (case m of
        None \<Rightarrow> (\<forall>i0. i = Some i0 \<longrightarrow> norm_hash ext (ai_code_hash i0) = norm_hash ext h)
      | Some (CsVerified h' n) \<Rightarrow> h' = norm_hash ext h \<and> h' \<noteq> 0
      | Some st \<Rightarrow> seed_code_hash st \<noteq> 0)"

definition trusted :: "revm_ext \<Rightarrow> (address \<Rightarrow> b256) \<Rightarrow> evm_cache \<Rightarrow> bool" where
  "trusted ext chain c \<longleftrightarrow> (\<forall>a. trusted_at ext (chain a) (mark_at c a) (local_account_info c a))"

lemma trustedD: "trusted ext chain c \<Longrightarrow> trusted_at ext (chain a) (mark_at c a) (local_account_info c a)"
  by (simp add: trusted_def)

lemma trusted_point:
  assumes "trusted ext chain c" and "trusted_at ext (chain a) (mark_at c' a) (local_account_info c' a)"
    and "\<And>b. b \<noteq> a \<Longrightarrow> mark_at c' b = mark_at c b \<and> local_account_info c' b = local_account_info c b"
  shows "trusted ext chain c'"
  using assms unfolding trusted_def by metis

lemma trusted_cong:
  "trusted ext chain c \<Longrightarrow> mark_at c' = mark_at c \<Longrightarrow> local_account_info c' = local_account_info c \<Longrightarrow> trusted ext chain c'"
  by (simp add: trusted_def)

lemma norm_normalize: "revm_ok ext \<Longrightarrow> norm_hash ext (ai_code_hash (normalize_code_hash ext i)) = norm_hash ext (ai_code_hash i)"
  by (auto simp: norm_hash_def normalize_code_hash_def revm_ok_def)

lemma norm_hash_slow: "revm_ok ext \<Longrightarrow> norm_hash ext (hash_slow ext code) = hash_slow ext code \<and> hash_slow ext code \<noteq> 0"
  by (simp add: norm_hash_def revm_ok_def)

lemma with_code_nonzero: "revm_ok ext \<Longrightarrow> ai_code_hash (with_code code (hash_slow ext code) i) \<noteq> 0"
  by (simp add: with_code_def revm_ok_def)

lemma trusted_marked_write:
  assumes ext: "revm_ok ext" and t: "trusted ext chain c"
    and m: "trusted_at ext (chain a) (Some m) (Some (with_code code (hash_slow ext code) i))"
  shows "trusted ext chain (set_mark a m (write_marked_code ext a (with_code code (hash_slow ext code) i) c))"
  by (rule trusted_point [OF t, of a]) (use m in \<open>simp_all add: local_write_marked [OF ext with_code_nonzero [OF ext]]\<close>)

lemma trusted_seed:
  assumes ext: "revm_ok ext" and t: "trusted ext chain c"
  shows "trusted ext chain (snd (seed_account_code_with ext a code nonce balance c))"
proof (cases "code \<noteq> [] \<and> mark_at c a = None \<and> local_account_info c a \<noteq> None")
  case True
  then obtain i where i: "local_account_info c a = Some i" by blast
  show ?thesis
  proof (cases "ai_code_hash i = hash_slow ext code")
    case same: True
    have m: "trusted_at ext (chain a) (Some (CsVerified (hash_slow ext code) n)) j" for n j
      using trustedD [OF t, of a] True i same norm_hash_slow [OF ext, of code] by (simp add: trusted_at_def)
    have "trusted ext chain (set_mark a (CsVerified (hash_slow ext code) n) c)" for n
      by (rule trusted_point [OF t, of a]) (use m in simp_all)
    with m True i same trusted_marked_write [OF ext t] show ?thesis
      by (simp add: seed_account_code_with_def Let_def flip: mark_at_def)
  next
    case False
    with True i t show ?thesis by (simp add: seed_account_code_with_def Let_def flip: mark_at_def)
  qed
next
  case False
  have m: "trusted_at ext (chain a) (Some (CsPending (hash_slow ext code))) j" for j
    using norm_hash_slow [OF ext] by (simp add: trusted_at_def)
  from False t trusted_marked_write [OF ext t m] show ?thesis
    by (auto simp: seed_account_code_with_def Let_def simp flip: mark_at_def split: option.splits bool.splits)
qed

lemma trusted_etch:
  assumes ext: "revm_ok ext" and t: "trusted ext chain c"
  shows "trusted ext chain (snd (etch_account_code ext a code c))"
proof -
  have m: "trusted_at ext (chain a) (Some (CsEtched (hash_slow ext code))) j" for j
    using norm_hash_slow [OF ext] by (simp add: trusted_at_def)
  from t trusted_marked_write [OF ext t m] show ?thesis by (simp add: etch_account_code_def Let_def)
qed

lemma trusted_override:
  assumes ext: "revm_ok ext" and t: "trusted ext chain c"
  shows "trusted ext chain (snd (override_account_code_with_missing_target ext basic_ref src target missing c))"
proof -
  have "trusted ext chain (set_mark target (CsEtched (hash_slow ext code)) (mark_base_dirty target
      (install_account ext target (with_code code (hash_slow ext code) i) c)))" for code i
  proof (rule trusted_point [OF t, of target])
    show "trusted_at ext (chain target) (mark_at (set_mark target (CsEtched (hash_slow ext code))
        (mark_base_dirty target (install_account ext target (with_code code (hash_slow ext code) i) c))) target) j" for j
      using norm_hash_slow [OF ext] by (simp add: trusted_at_def)
  qed (simp add: local_install [OF ext with_code_nonzero [OF ext]], simp add: mark_at_def install_account_def)
  with t show ?thesis
    by (simp add: override_account_code_with_missing_target_def Let_def flip: install_account_def
        split: option.splits sum.splits)
qed

lemma hm_extend_mem: "hm_get (hm_extend m xs) a = Some s \<Longrightarrow> hm_get m a = Some s \<or> (a, s) \<in> set xs"
  unfolding hm_extend_def
proof (induction xs arbitrary: m)
  case (Cons x xs)
  from Cons.IH [of "hm_insert (fst x) (snd x) m"] Cons.prems show ?case by (cases x) (auto split: if_splits)
qed simp

lemma trusted_verify:
  assumes t: "trusted ext chain c" and ok: "hm_ok (code_seeds c)" and honest: "honest_fetcher chain c"
    and r: "verify_code_seeds ext c = Some (Okay (rep, c'))"
  shows "trusted ext chain c'"
proof (cases "c' = c")
  case False
  then obtain fetcher samples where f: "account_fields_fetcher c = Some fetcher"
    "queried_seeds c \<noteq> []" "fetcher (queried_seeds c) (block c) = Some (Inr samples)"
    using r by (auto simp: verify_code_seeds_def queried_seeds_def Let_def split: if_splits option.splits sum.splits)
  let ?s = "hm_extend [] samples" and ?n = "unwrap_or (block_number c) 0"
  obtain rep0 where l: "verify_seed_loop ext ?s ?n (queried_seeds c) (rep0, c) = Some (rep, c')"
    using r verify_runs_loop [OF f(2,1,3), of ext] by auto
  have dist: "distinct (queried_seeds c)" using ok by (simp add: queried_seeds_def distinct_pending)
  have hash: "af_code_hash s = chain a" if "hm_get ?s a = Some s" for a s
    using honest f(1,3) hm_extend_mem [OF that] unfolding honest_fetcher_def by fastforce
  have "trusted_at ext (chain a) (settle_mark ?s ?n a (mark_at c a))
      (settle_account ?s a (mark_at c a) (local_account_info c a))" for a
    using trustedD [OF t, of a] hash [of a]
    by (auto simp: trusted_at_def settle_account_def norm_hash_def split: option.splits code_seed_state.splits)
  with t verify_loop_effect [OF l dist] show ?thesis unfolding trusted_def by metis
qed (use t in simp)

lemma trusted_fetch:
  assumes t: "trusted ext chain c" and "local_account_info c a = None" and "ai_code_hash i = chain a"
  shows "trusted ext chain (c\<lparr>bk_accounts := hm_insert a i (bk_accounts c)\<rparr>)"
proof (rule trusted_point [OF t, of a])
  show "trusted_at ext (chain a) (mark_at (c\<lparr>bk_accounts := hm_insert a i (bk_accounts c)\<rparr>) a)
      (local_account_info (c\<lparr>bk_accounts := hm_insert a i (bk_accounts c)\<rparr>) a)"
    using assms trustedD [OF t, of a]
    by (auto simp: trusted_at_def mark_at_def local_account_info_def split: option.splits code_seed_state.splits)
qed (simp add: mark_at_def local_account_info_def cong: option.case_cong)

section \<open>Updates that leave code alone\<close>

lemma mark_slot_write [simp]: "mark_at (write_slot_through a s v c) = mark_at c"
  by (simp add: fun_eq_iff mark_at_def write_slot_through_def mark_base_dirty_def)

lemma local_modify:
  "(\<And>d. da_info (f d) = da_info d) \<Longrightarrow>
   local_account_info (c\<lparr>db_accounts := hm_modify a f (db_accounts c)\<rparr>) = local_account_info c"
  by (auto simp: fun_eq_iff local_account_info_def split: option.splits)

lemma local_bk_storage [simp]: "local_account_info (c\<lparr>bk_storage := m\<rparr>) = local_account_info c"
  by (rule local_cong) simp_all

lemma local_slot_write [simp]: "local_account_info (write_slot_through a s v c) = local_account_info c"
proof -
  have "local_account_info (write_slot_through a s v c) =
      local_account_info (c\<lparr>db_accounts := hm_modify a (insert_slot s v) (db_accounts c)\<rparr>)"
    by (rule local_cong) (simp_all add: write_slot_through_def mark_base_dirty_def)
  then show ?thesis by (simp add: local_modify insert_slot_def)
qed

lemma trusted_slot: "trusted ext chain c \<Longrightarrow> trusted ext chain (write_slot_through a s v c)"
  by (rule trusted_cong) simp_all

lemma trusted_bump: "trusted ext chain c \<Longrightarrow> trusted ext chain (bump_snapshot_generation c)"
  by (rule trusted_cong) simp_all

lemma trusted_purge:
  assumes "trusted ext chain c"
  shows "trusted ext chain (snd (apply_purge a scope c))"
proof (cases scope)
  case PurgeAccount
  have "trusted ext chain (snd (purge_account_inner a c))"
    by (rule trusted_point [OF assms, of a]) (simp_all add: trusted_at_def)
  with PurgeAccount show ?thesis by (simp add: snd_apply_purge)
next
  case AllStorage
  have "trusted ext chain (snd (purge_contract_storage_inner a c))"
  proof (rule trusted_cong [OF assms])
    show "mark_at (snd (purge_contract_storage_inner a c)) = mark_at c"
      by (simp add: fun_eq_iff mark_at_def purge_contract_storage_inner_def Let_def mark_base_dirty_def)
    have "local_account_info (snd (purge_contract_storage_inner a c)) =
        local_account_info (c\<lparr>db_accounts := hm_modify a clear_slots (db_accounts c)\<rparr>)"
      by (rule local_cong) (simp_all add: purge_contract_storage_inner_def Let_def mark_base_dirty_def)
    then show "local_account_info (snd (purge_contract_storage_inner a c)) = local_account_info c"
      by (simp add: local_modify clear_slots_def)
  qed
  with AllStorage show ?thesis by (simp add: snd_apply_purge)
next
  case (Slots ss)
  have "trusted ext chain (snd (purge_contract_slots_inner a ss c))"
  proof (rule trusted_cong [OF assms])
    show "mark_at (snd (purge_contract_slots_inner a ss c)) = mark_at c"
      by (auto simp: fun_eq_iff mark_at_def purge_contract_slots_inner_def Let_def mark_base_dirty_def
          split: option.splits prod.splits)
    have "local_account_info (snd (purge_contract_slots_inner a ss c)) =
        local_account_info (c\<lparr>db_accounts := hm_modify a (remove_slots ss) (db_accounts c)\<rparr>)"
      by (rule local_cong) (auto simp: purge_contract_slots_inner_def Let_def mark_base_dirty_def
          split: option.splits prod.splits)
    then show "local_account_info (snd (purge_contract_slots_inner a ss c)) = local_account_info c"
      by (simp add: local_modify remove_slots_def)
  qed
  with Slots show ?thesis by (simp add: snd_apply_purge)
qed

lemma trusted_info_write:
  assumes ext: "revm_ok ext" and t: "trusted ext chain c" and l: "loaded_account_info ext c a = Some i"
    and h: "ai_code_hash j = ai_code_hash i"
  shows "trusted ext chain (write_account_info_through ext a j c)"
proof -
  obtain i0 where i0: "local_account_info c a = Some i0" "i = normalize_code_hash ext i0"
    using loaded_local [OF l] by blast
  have "norm_hash ext (ai_code_hash (normalize_code_hash ext j)) = norm_hash ext (ai_code_hash i0)"
    using h i0(2) norm_normalize [OF ext] by simp
  with trustedD [OF t, of a] i0(1)
  have "trusted_at ext (chain a) (mark_at c a) (Some (normalize_code_hash ext j))"
    by (simp add: trusted_at_def split: option.splits code_seed_state.splits)
  then show ?thesis
    by (intro trusted_point [OF t, of a]) (simp_all add: local_write_through [OF ext])
qed

lemma trusted_arm:
  assumes ext: "revm_ok ext" and t: "trusted ext chain c" and u: "code_neutral u"
    and arm: "apply_update_arm ext u c = Some (d, c')"
  shows "trusted ext chain c'"
proof (cases u)
  case (Purge a scope)
  with arm trusted_purge [OF t, of a scope] show ?thesis by (auto split: prod.splits)
next
  case (BalanceDelta a dl)
  with arm t trusted_info_write [OF ext t] show ?thesis
    by (auto simp: apply_balance_delta_def Let_def split: option.splits)
next
  case (Account a p)
  with u have "ai_code_hash (patch_info ext p i) = ai_code_hash i" for i
    by (auto simp: patch_info_def Let_def split: option.splits)
  with Account arm t trusted_info_write [OF ext t] show ?thesis
    by (auto simp: apply_account_patch_def Let_def split: option.splits if_splits sum.splits prod.splits)
qed (use arm t u in \<open>auto simp: apply_slot_def write_hot_slot_def Let_def trusted_slot split: option.splits\<close>)

lemma trusted_update:
  "revm_ok ext \<Longrightarrow> trusted ext chain c \<Longrightarrow> code_neutral u \<Longrightarrow> apply_update ext u c = Some (d, c') \<Longrightarrow> trusted ext chain c'"
  using trusted_arm [OF _ trusted_bump] by (auto simp: apply_update_def)

section \<open>Prepared patches\<close>

definition prepared_info :: "revm_ext \<Rightarrow> (bytes \<Rightarrow> b256) \<Rightarrow> evm_cache \<Rightarrow> prepared_account_value \<Rightarrow> account_info" where
  "prepared_info ext keccak c v = (unwrap_or (local_account_info c (pv_address v)) (default_info ext))
     \<lparr>ai_balance := pf_balance (pv_proof v), ai_nonce := pf_nonce (pv_proof v),
      ai_code_hash := keccak (pv_code v), ai_code := Some (pv_code v)\<rparr>"

definition prepared_entry ::
  "revm_ext \<Rightarrow> (bytes \<Rightarrow> b256) \<Rightarrow> evm_cache \<Rightarrow> prepared_account_value \<Rightarrow> address \<times> account_info \<times> b256" where
  "prepared_entry ext keccak c v = (pv_address v, prepared_info ext keccak c v, keccak (pv_code v))"

definition acceptable :: "(bytes \<Rightarrow> b256) \<Rightarrow> evm_cache \<Rightarrow> prepared_account_value \<Rightarrow> bool" where
  "acceptable keccak c v \<longleftrightarrow> pv_code v \<noteq> [] \<and> pf_slots (pv_proof v) = [] \<and>
     keccak (pv_code v) = pf_code_hash (pv_proof v) \<and> check_seed c (pv_address v) (keccak (pv_code v)) = None"

lemma prepare_values_ok:
  "prepare_values ext keccak c vs ids acc = Okay prepared \<longleftrightarrow>
     prepared = acc @ map (prepared_entry ext keccak c) vs \<and> list_all (acceptable keccak c) vs \<and>
     distinct (map pv_address vs) \<and> set (map pv_address vs) \<inter> set ids = {}"
proof (induction vs arbitrary: ids acc)
  case (Cons v vs)
  then show ?case
    by (auto simp: Let_def acceptable_def prepared_entry_def prepared_info_def split: option.splits)
qed auto

lemma fold_insert_infos:
  assumes ext: "revm_ok ext" and "distinct (map fst xs)" and "\<forall>(a, i, h) \<in> set xs. ai_code_hash i \<noteq> 0"
  shows "(\<forall>i h. (b, i, h) \<in> set xs \<longrightarrow>
       (\<exists>d. hm_get (fold (\<lambda>(a, info, _). insert_account_info ext a info) xs m) b = Some d \<and> da_info d = i)) \<and>
     (b \<notin> fst ` set xs \<longrightarrow> hm_get (fold (\<lambda>(a, info, _). insert_account_info ext a info) xs m) b = hm_get m b)"
  using assms(2,3)
proof (induction xs arbitrary: m)
  case (Cons x xs)
  obtain a i h where x: "x = (a, i, h)" by (cases x) auto
  obtain d where d: "hm_get (insert_account_info ext a i m) a = Some d" "da_info d = i"
    using insert_account_info_same [OF ext, of i a m] Cons.prems(2) x by auto
  have IH: "(\<forall>i h. (b, i, h) \<in> set xs \<longrightarrow>
       (\<exists>d. hm_get (fold (\<lambda>(a, info, _). insert_account_info ext a info) xs m) b = Some d \<and> da_info d = i)) \<and>
     (b \<notin> fst ` set xs \<longrightarrow> hm_get (fold (\<lambda>(a, info, _). insert_account_info ext a info) xs m) b = hm_get m b)" for m
    using Cons.prems by (intro Cons.IH) auto
  show ?case
  proof (cases "b = a")
    case True
    then have "b \<notin> fst ` set xs" using Cons.prems(1) x by auto
    moreover have "(b, j, k) \<notin> set xs" for j k using \<open>b \<notin> fst ` set xs\<close> by force
    ultimately show ?thesis using IH [of "insert_account_info ext a i m"] d True x by auto
  next
    case False
    then show ?thesis
      using IH [of "insert_account_info ext a i m"] insert_account_info_other [OF ext, of b a i m] x by auto
  qed
qed simp

lemma fold_hm_inserts:
  "b \<notin> fst ` set xs \<Longrightarrow> hm_get (fold (\<lambda>(a, info, _). hm_insert a info) xs m) b = hm_get m b"
  by (induction xs arbitrary: m) auto

lemma fold_marks:
  "distinct (map fst xs) \<Longrightarrow>
   (\<forall>i h. (b, i, h) \<in> set xs \<longrightarrow> mark_at (fold (\<lambda>(a, _, h) c. mark_base_dirty a (set_mark a (CsVerified h n) c)) xs c) b =
      Some (CsVerified h n)) \<and>
   (b \<notin> fst ` set xs \<longrightarrow> mark_at (fold (\<lambda>(a, _, h) c. mark_base_dirty a (set_mark a (CsVerified h n) c)) xs c) b = mark_at c b)"
  by (induction xs arbitrary: c) force+

lemma fold_marks_local:
  "local_account_info (fold (\<lambda>(a, _, h) c. mark_base_dirty a (set_mark a (CsVerified h n) c)) xs c) = local_account_info c"
  by (induction xs arbitrary: c) auto

lemma apply_prepared_effect:
  assumes ext: "revm_ok ext" and k: "\<forall>code. keccak code \<noteq> 0"
    and r: "prepare_prepared_account_patch ext keccak patch c = Okay prepared"
  defines "c' \<equiv> snd (apply_prepared_account_patch ext keccak patch c)"
  shows "prepared = map (prepared_entry ext keccak c) (pp_values patch)"
    and "distinct (map pv_address (pp_values patch))" and "list_all (acceptable keccak c) (pp_values patch)"
    and "as_block_hash (block c) = Some (pp_block_hash patch)"
    and "v \<in> set (pp_values patch) \<Longrightarrow>
      mark_at c' (pv_address v) = Some (CsVerified (keccak (pv_code v)) (pp_verified_at_block patch)) \<and>
      local_account_info c' (pv_address v) = Some (prepared_info ext keccak c v)"
    and "b \<notin> pv_address ` set (pp_values patch) \<Longrightarrow> mark_at c' b = mark_at c b \<and> local_account_info c' b = local_account_info c b"
proof -
  show p: "prepared = map (prepared_entry ext keccak c) (pp_values patch)"
    and d: "distinct (map pv_address (pp_values patch))" and "list_all (acceptable keccak c) (pp_values patch)"
    and "as_block_hash (block c) = Some (pp_block_hash patch)"
    using r by (simp_all add: prepare_prepared_account_patch_def Let_def prepare_values_ok split: if_splits)
  let ?ov = "fold (\<lambda>(a, info, _). insert_account_info ext a info) prepared (db_accounts c)"
    and ?bk = "fold (\<lambda>(a, info, _). hm_insert a info) prepared (bk_accounts c)"
  let ?c2 = "c\<lparr>db_accounts := ?ov, bk_accounts := ?bk\<rparr>"
  have dp: "distinct (map fst prepared)" using d by (simp add: p prepared_entry_def comp_def)
  have nz: "\<forall>(a, i, h) \<in> set prepared. ai_code_hash i \<noteq> 0" using k by (auto simp: p prepared_entry_def prepared_info_def)
  let ?c3 = "fold (\<lambda>(a, _, h) c. mark_base_dirty a (set_mark a (CsVerified h (pp_verified_at_block patch)) c)) prepared ?c2"
  have m: "mark_at c' = mark_at ?c3" and l: "local_account_info c' = local_account_info ?c2"
    using r by (simp_all add: c'_def apply_prepared_account_patch_def Let_def fold_marks_local)
  have m2: "mark_at ?c2 = mark_at c" by (simp add: fun_eq_iff mark_at_def)
  have fsts: "fst ` set prepared = pv_address ` set (pp_values patch)"
    by (simp add: p prepared_entry_def image_comp comp_def)
  show "v \<in> set (pp_values patch) \<Longrightarrow>
      mark_at c' (pv_address v) = Some (CsVerified (keccak (pv_code v)) (pp_verified_at_block patch)) \<and>
      local_account_info c' (pv_address v) = Some (prepared_info ext keccak c v)"
  proof -
    assume "v \<in> set (pp_values patch)"
    then have v: "(pv_address v, prepared_info ext keccak c v, keccak (pv_code v)) \<in> set prepared"
      by (auto simp: p prepared_entry_def)
    obtain d where "hm_get ?ov (pv_address v) = Some d" "da_info d = prepared_info ext keccak c v"
      using fold_insert_infos [OF ext dp nz, of "pv_address v" "db_accounts c"] v by blast
    then have "local_account_info ?c2 (pv_address v) = Some (prepared_info ext keccak c v)"
      by (simp add: local_account_info_def)
    moreover have "mark_at ?c3 (pv_address v) = Some (CsVerified (keccak (pv_code v)) (pp_verified_at_block patch))"
      using fold_marks [OF dp, of "pv_address v" "pp_verified_at_block patch" ?c2] v by blast
    ultimately show ?thesis unfolding m l by blast
  qed
  show "b \<notin> pv_address ` set (pp_values patch) \<Longrightarrow> mark_at c' b = mark_at c b \<and> local_account_info c' b = local_account_info c b"
    using fold_insert_infos [OF ext dp nz, of b "db_accounts c"] fold_hm_inserts [of b prepared "bk_accounts c"]
      fold_marks [OF dp, of b "pp_verified_at_block patch" ?c2] fsts
    unfolding m l by (simp add: local_account_info_def m2 cong: option.case_cong)
qed

text \<open>The checks of a prepared patch: the pin, and for each value in turn its identity, contents and mark.\<close>

fun mark_admits :: "code_seed_state option \<Rightarrow> b256 \<Rightarrow> bool" where
  "mark_admits None h = True"
| "mark_admits (Some (CsEtched _)) h = False"
| "mark_admits (Some m) h = (seed_code_hash m = h)"

lemma check_seed_admits: "check_seed c a h = None \<longleftrightarrow> mark_admits (mark_at c a) h"
  by (cases "mark_at c a" rule: option.exhaust; simp add: check_seed_def mark_at_def split: code_seed_state.splits)

definition patch_admissible :: "(bytes \<Rightarrow> b256) \<Rightarrow> prepared_account_patch \<Rightarrow> evm_cache \<Rightarrow> bool" where
  "patch_admissible keccak patch c \<longleftrightarrow> as_block_hash (block c) = Some (pp_block_hash patch) \<and>
     distinct (map pv_address (pp_values patch)) \<and>
     (\<forall>v \<in> set (pp_values patch). pv_code v \<noteq> [] \<and> pf_slots (pv_proof v) = [] \<and>
        keccak (pv_code v) = pf_code_hash (pv_proof v) \<and> mark_admits (mark_at c (pv_address v)) (keccak (pv_code v)))"

text \<open>What an error says of the patch and the cache.\<close>

fun error_holds :: "(bytes \<Rightarrow> b256) \<Rightarrow> prepared_account_patch \<Rightarrow> evm_cache \<Rightarrow> prepared_patch_error \<Rightarrow> bool" where
  "error_holds keccak patch c (BaselineMismatch expected actual) \<longleftrightarrow>
     expected = pp_block_hash patch \<and> actual = as_block_hash (block c) \<and> actual \<noteq> Some expected"
| "error_holds keccak patch c (DuplicateAccount a) \<longleftrightarrow>
     a \<in> pv_address ` set (pp_values patch) \<and> \<not> distinct (map pv_address (pp_values patch))"
| "error_holds keccak patch c (EmptyCode a) \<longleftrightarrow> (\<exists>v \<in> set (pp_values patch). pv_address v = a \<and> pv_code v = [])"
| "error_holds keccak patch c (UnexpectedProofSlots a n) \<longleftrightarrow>
     (\<exists>v \<in> set (pp_values patch). pv_address v = a \<and> n = length (pf_slots (pv_proof v)) \<and> n \<noteq> 0)"
| "error_holds keccak patch c (CodeHashMismatch a expected actual) \<longleftrightarrow>
     (\<exists>v \<in> set (pp_values patch). pv_address v = a \<and> expected = pf_code_hash (pv_proof v) \<and>
        actual = keccak (pv_code v) \<and> actual \<noteq> expected)"
| "error_holds keccak patch c (EtchedAccount a) \<longleftrightarrow>
     a \<in> pv_address ` set (pp_values patch) \<and> (\<exists>h. mark_at c a = Some (CsEtched h))"
| "error_holds keccak patch c (SeedConflict a existing incoming) \<longleftrightarrow>
     (\<exists>v \<in> set (pp_values patch). pv_address v = a \<and> incoming = keccak (pv_code v)) \<and>
     (\<exists>m. mark_at c a = Some m \<and> seed_code_hash m = existing \<and> existing \<noteq> incoming)"

lemma check_seed_error:
  assumes "check_seed c a h = Some e"
  shows "e = EtchedAccount a \<and> (\<exists>h'. mark_at c a = Some (CsEtched h')) \<or>
    (\<exists>m. mark_at c a = Some m \<and> e = SeedConflict a (seed_code_hash m) h \<and> seed_code_hash m \<noteq> h)"
  using assms by (auto simp: check_seed_def mark_at_def split: option.splits code_seed_state.splits if_splits)

lemma prepare_values_error:
  assumes "prepare_values ext keccak c vs ids acc = Err e"
    and "pp_values patch = us @ vs" and "set ids = pv_address ` set us"
  shows "error_holds keccak patch c e"
  using assms
proof (induction vs arbitrary: ids acc us)
  case (Cons v vs)
  have v: "v \<in> set (pp_values patch)" using Cons.prems(2) by simp
  note step = Cons.prems(1) [unfolded prepare_values.simps Let_def]
  show ?case
  proof (cases "pv_address v \<in> set ids")
    case True
    with step have "e = DuplicateAccount (pv_address v)" by simp
    with True Cons.prems(2,3) v show ?thesis by auto
  next
    case new: False
    show ?thesis
    proof (cases "pv_code v = [] \<or> pf_slots (pv_proof v) \<noteq> [] \<or> keccak (pv_code v) \<noteq> pf_code_hash (pv_proof v)")
      case True
      with step new v show ?thesis by (auto split: if_splits)
    next
      case False
      show ?thesis
      proof (cases "check_seed c (pv_address v) (keccak (pv_code v))")
        case None
        with step new False obtain acc' where "prepare_values ext keccak c vs (List.insert (pv_address v) ids) acc' = Err e"
          by simp
        then show ?thesis using Cons.IH [of _ _ "us @ [v]"] Cons.prems(2,3) by simp
      next
        case (Some e')
        with step new False have "e' = e" by simp
        with check_seed_error [OF Some] v show ?thesis by auto
      qed
    qed
  qed
qed simp

lemma prepare_admissible:
  "(\<exists>prepared. prepare_prepared_account_patch ext keccak patch c = Okay prepared) \<longleftrightarrow> patch_admissible keccak patch c"
  by (auto simp: prepare_prepared_account_patch_def Let_def prepare_values_ok patch_admissible_def list_all_iff
      acceptable_def check_seed_admits)

lemma prepare_error:
  assumes "prepare_prepared_account_patch ext keccak patch c = Err e"
  shows "error_holds keccak patch c e"
  using assms prepare_values_error [of ext keccak c "pp_values patch" "[]" "[]" e patch "[]"]
  by (auto simp: prepare_prepared_account_patch_def Let_def split: if_splits)

text \<open>
  \<^bold>\<open>C28.\<close> A prepared account patch is applied whole or not at all, and its checks decide which. It is
  accepted exactly if the cache is pinned to the patch's block hash, its accounts are distinct, and each value
  has code, a proof without slots, code that hashes to the proof's code hash, and a mark that admits it: none,
  or one that is not etched and is for the same hash. Otherwise the cache is unchanged and the error names
  a check that fails. When accepted, the reported count is the number of accounts, and each account carries
  the proof's balance and nonce and the prepared code under its hash, with a \<open>Verified\<close> mark at the patch's
  height; no other address changes.
\<close>

theorem prepared_patch_all_or_nothing:
  assumes ext: "revm_ok ext" and k: "\<forall>code. keccak code \<noteq> 0"
  shows "case apply_prepared_account_patch ext keccak patch c of
     (Inl e, c') \<Rightarrow> c' = c \<and> \<not> patch_admissible keccak patch c \<and> error_holds keccak patch c e
   | (Inr n, c') \<Rightarrow> patch_admissible keccak patch c \<and> n = length (pp_values patch) \<and>
       (\<forall>v \<in> set (pp_values patch).
          mark_at c' (pv_address v) = Some (CsVerified (pf_code_hash (pv_proof v)) (pp_verified_at_block patch)) \<and>
          (\<exists>i. local_account_info c' (pv_address v) = Some i \<and> ai_balance i = pf_balance (pv_proof v) \<and>
             ai_nonce i = pf_nonce (pv_proof v) \<and> ai_code i = Some (pv_code v) \<and>
             ai_code_hash i = keccak (pv_code v))) \<and>
       (\<forall>b. b \<notin> pv_address ` set (pp_values patch) \<longrightarrow>
          mark_at c' b = mark_at c b \<and> local_account_info c' b = local_account_info c b)"
proof (cases "prepare_prepared_account_patch ext keccak patch c")
  case (Inl e)
  then show ?thesis
    using prepare_error [OF Inl] prepare_admissible [of ext keccak patch c] by (simp add: apply_prepared_account_patch_def)
next
  case (Inr prepared)
  note eff = apply_prepared_effect [OF ext k Inr]
  obtain c' where c': "apply_prepared_account_patch ext keccak patch c = (Okay (length (pp_values patch)), c')"
    using Inr eff(1) by (simp add: apply_prepared_account_patch_def Let_def)
  have adm: "patch_admissible keccak patch c" using Inr prepare_admissible by blast
  then have "keccak (pv_code v) = pf_code_hash (pv_proof v)" if "v \<in> set (pp_values patch)" for v
    using that by (simp add: patch_admissible_def)
  with adm eff(5,6) c' show ?thesis by (simp add: prepared_info_def)
qed

definition pinned_cache :: evm_cache where
  "pinned_cache = sample_cache\<lparr>block := HashId 42 (Some True)\<rparr>"

definition sample_patch :: prepared_account_patch where
  "sample_patch = \<lparr>pp_block_hash = 42, pp_verified_at_block = 7, pp_values =
     [\<lparr>pv_address = 8, pv_proof = \<lparr>pf_storage_hash = 0, pf_balance = 5, pf_nonce = 6, pf_code_hash = 3, pf_slots = []\<rparr>,
       pv_code = [1, 2]\<rparr>]\<rparr>"

theorem prepared_patch_all_or_nothing_witness:
  "mark_at (snd (apply_prepared_account_patch sample_ext (\<lambda>code. 3) sample_patch pinned_cache)) 8 = Some (CsVerified 3 7)"
proof -
  have "fst (apply_prepared_account_patch sample_ext (\<lambda>code. 3) sample_patch pinned_cache) = Okay 1"
    by (simp add: apply_prepared_account_patch_def prepare_prepared_account_patch_def sample_patch_def pinned_cache_def
        check_seed_def sample_defs Let_def)
  with prepared_patch_all_or_nothing [OF sample_ext_ok, where keccak = "\<lambda>code. 3" and patch = sample_patch and c = pinned_cache] show ?thesis
    by (auto simp: sample_patch_def split: prod.splits sum.splits)
qed

section \<open>Verified means on the chain\<close>

lemma trusted_prepared:
  assumes ext: "revm_ok ext" and k: "\<forall>code. keccak code \<noteq> 0" and t: "trusted ext chain c"
    and honest: "\<forall>v \<in> set (pp_values patch). pf_code_hash (pv_proof v) = chain (pv_address v)"
  shows "trusted ext chain (snd (apply_prepared_account_patch ext keccak patch c))"
proof (cases "prepare_prepared_account_patch ext keccak patch c")
  case (Inl e)
  with t show ?thesis by (simp add: apply_prepared_account_patch_def)
next
  case (Inr prepared)
  note eff = apply_prepared_effect [OF ext k Inr]
  have "trusted_at ext (chain (pv_address v)) (Some (CsVerified (keccak (pv_code v)) n)) i"
    if "v \<in> set (pp_values patch)" for v n i
    using eff(3) that honest k
    by (auto simp: list_all_iff acceptable_def trusted_at_def norm_hash_def)
  then have "trusted_at ext (chain b) (mark_at (snd (apply_prepared_account_patch ext keccak patch c)) b)
      (local_account_info (snd (apply_prepared_account_patch ext keccak patch c)) b)" for b
    using eff(5,6) trustedD [OF t, of b] by (cases "b \<in> pv_address ` set (pp_values patch)") auto
  then show ?thesis by (simp add: trusted_def)
qed

lemma trusted_step:
  assumes "revm_ok ext" and "\<forall>code. keccak code \<noteq> 0" and "seed_step ext keccak chain c c'" and "trusted ext chain c"
  shows "trusted ext chain c'"
  using assms(3,4)
  by (cases rule: seed_step.cases)
    (auto intro: trusted_seed trusted_etch trusted_override trusted_verify trusted_fetch trusted_update assms(1)
      trusted_prepared [OF assms(1,2)])

text \<open>
  \<^bold>\<open>C10.\<close> A \<open>Verified\<close> mark is only ever on a hash the chain has. Start from a cache with no marks and
  no accounts, take any sequence of seeds, etches, overrides, verifications, prepared patches, backend
  fetches and updates that leave code alone, where what is fetched is honest: if an address is marked
  \<open>Verified\<close>, its hash is the chain's code hash of that address.
\<close>

theorem verified_marks_are_on_chain:
  assumes ext: "revm_ok ext" and k: "\<forall>code. keccak code \<noteq> 0"
    and start: "code_seeds c0 = []" "db_accounts c0 = []" "bk_accounts c0 = []"
    and reach: "(seed_step ext keccak chain)\<^sup>*\<^sup>* c0 c" and mark: "mark_at c a = Some (CsVerified h n)"
  shows "h = norm_hash ext (chain a)"
proof -
  have "trusted ext chain c0" using start by (simp add: trusted_def trusted_at_def mark_at_def local_account_info_def)
  with reach have "trusted ext chain c"
    by (induction rule: rtranclp_induct) (auto intro: trusted_step [OF ext k])
  from trustedD [OF this, of a] mark show ?thesis by (simp add: trusted_at_def)
qed

text \<open>Fetch an account whose code hash is 2, then seed its code: the seed is confirmed at once.\<close>

definition fetched_cache :: evm_cache where
  "fetched_cache = empty_cache\<lparr>bk_accounts := hm_insert 1 sample_info (bk_accounts empty_cache)\<rparr>"

definition confirmed_cache :: evm_cache where
  "confirmed_cache = snd (seed_account_code_with sample_ext 1 [96] 1 0 fetched_cache)"

theorem verified_marks_are_on_chain_witness:
  "mark_at confirmed_cache 1 = Some (CsVerified 2 0) \<and> 2 = norm_hash sample_ext ((\<lambda>a. 2) (1 :: address))"
proof -
  have "seed_step sample_ext (\<lambda>code. 3) (\<lambda>a. 2) empty_cache fetched_cache"
    unfolding fetched_cache_def
    by (rule step_fetch) (simp_all add: local_account_info_def empty_cache_def sample_info_def)
  moreover have "seed_step sample_ext (\<lambda>code. 3) (\<lambda>a. 2) fetched_cache confirmed_cache"
    unfolding confirmed_cache_def by (rule step_seed)
  ultimately have reach: "(seed_step sample_ext (\<lambda>code. 3) (\<lambda>a. 2))\<^sup>*\<^sup>* empty_cache confirmed_cache" by simp
  have mark: "mark_at confirmed_cache 1 = Some (CsVerified 2 0)"
    by (simp add: confirmed_cache_def fetched_cache_def seed_account_code_with_def local_account_info_def mark_at_def
        set_mark_def lacks_code_bytes_def sample_defs Let_def)
  have "\<forall>code :: bytes. (\<lambda>code. 3 :: b256) code \<noteq> 0" by simp
  with verified_marks_are_on_chain [OF sample_ext_ok _ _ _ _ reach mark] mark show ?thesis by (simp add: empty_cache_def)
qed

end
