(* ===== verification/Cache_Machine.thy ===== *)
theory Cache_Machine
  imports Snapshot_Clone Block_Context_Props Code_Seed_Props
begin

text \<open>
  The cache as a state machine. A step is any public operation of \<open>EvmCache\<close> that is modelled, the
  backend answering a miss (\<open>lazy_growth\<close>), or an EVM execution, which may replace layer 1 by any
  well-formed overlay and leave any block hashes in it. \<open>reachable\<close> starts from a cache without a memoised base. Every reachable
  cache has well-formed layers and a coherent memo, so a snapshot of it always succeeds and reads what
  the cache reads.
\<close>

section \<open>The remaining writers\<close>

lemma writer_dirty: "writer_step c (mark_base_dirty a c)"
  by (auto simp: writer_step_def tracked_def mark_base_dirty_def layers_ok_def)

lemma writer_fold_dirty: "writer_step c (fold mark_base_dirty as c)"
  by (induction as arbitrary: c) (auto intro: writer_step_trans writer_dirty)

lemma writer_overlay: "overlay_ok m \<Longrightarrow> hm_ok hs \<Longrightarrow> writer_step c (c\<lparr>db_accounts := m, db_block_hashes := hs\<rparr>)"
  by (auto simp: writer_step_def tracked_def layers_ok_def)

lemma writer_inject: "writer_step c (inject_storage_batch rs c)"
proof -
  have fields: "base (fold (\<lambda>(a, _, _). mark_base_dirty a) rs d) = base d"
    "base_storage_lens (fold (\<lambda>(a, _, _). mark_base_dirty a) rs d) = base_storage_lens d"
    "base_full_rebuild (fold (\<lambda>(a, _, _). mark_base_dirty a) rs d) = base_full_rebuild d"
    "set (base_dirty (fold (\<lambda>(a, _, _). mark_base_dirty a) rs d)) = set (base_dirty d) \<union> fst ` set rs"
    "bk_accounts (fold (\<lambda>(a, _, _). mark_base_dirty a) rs d) = bk_accounts d"
    "bk_storage (fold (\<lambda>(a, _, _). mark_base_dirty a) rs d) = bk_storage d"
    "db_accounts (fold (\<lambda>(a, _, _). mark_base_dirty a) rs d) = db_accounts d"
    "db_block_hashes (fold (\<lambda>(a, _, _). mark_base_dirty a) rs d) = db_block_hashes d"
    "bk_block_hashes (fold (\<lambda>(a, _, _). mark_base_dirty a) rs d) = bk_block_hashes d"
    for rs :: "(address \<times> u256 \<times> u256) list" and d
    by (induction rs arbitrary: d) (auto simp: mark_base_dirty_def)
  have other: "hm_get (fold (\<lambda>(a, s, v). write_backend_slot a s v) rs m) a = hm_get m a"
    if "a \<notin> fst ` set rs" for rs :: "(address \<times> u256 \<times> u256) list" and m a
    using that by (induction rs arbitrary: m) (auto simp: write_backend_slot_def)
  have "nested_ok m \<Longrightarrow> nested_ok (fold (\<lambda>(a, s, v). write_backend_slot a s v) rs m)" for m
    by (induction rs arbitrary: m) (auto intro: nested_ok_write)
  with other show ?thesis
    by (simp add: writer_step_def tracked_def layers_ok_def inject_storage_batch_def fields)
qed

lemma writer_modify_slot: "writer_step c (snd (modify_slot a s f c))"
  by (auto simp: modify_slot_def Let_def intro: writer_step_trans [OF writer_bump writer_slot] split: option.splits)

lemma writer_modify_balance: "revm_ok ext \<Longrightarrow> writer_step c (snd (modify_account_balance ext a f c))"
  by (auto simp: modify_account_balance_def Let_def intro: writer_info split: option.splits)

lemma writer_prewarm: "prewarm_slots requests c = Some (r, c') \<Longrightarrow> writer_step c c'"
  by (auto simp: prewarm_slots_def Let_def writer_inject split: option.splits prod.splits)

lemma writer_inject_fresh:
  "revm_ok ext \<Longrightarrow> inject_storage_batch_fresh ext rs c = Some c' \<Longrightarrow> writer_step c c'"
  by (auto simp: inject_storage_batch_fresh_def intro: writer_updates)

lemma writer_verify_core:
  "revm_ok ext \<Longrightarrow> verify_slots_core ext keys c = Some (Okay (r, c')) \<Longrightarrow> writer_step c c'"
  by (auto simp: verify_slots_core_def Let_def intro: writer_inject_fresh split: if_splits option.splits)

lemma writer_verify:
  assumes "revm_ok ext" "verify_slots ext keys c = Some (Okay (r, c'))"
  shows "writer_step c c'"
proof (cases "verify_slots_core ext keys c")
  case (Some x)
  with assms(2) writer_verify_core [OF assms(1)] show ?thesis
    by (cases x) (auto simp: verify_slots_def verify_slots_inner_def)
qed (use assms(2) in \<open>simp add: verify_slots_def verify_slots_inner_def\<close>)

lemma writer_reconcile:
  assumes "revm_ok ext" "reconcile_slots ext keys c = Some (r, c')"
  shows "writer_step c c'"
proof (cases "verify_slots_core ext keys c")
  case (Some x)
  with assms(2) writer_verify_core [OF assms(1)] show ?thesis
    by (cases x) (auto simp: reconcile_slots_def verify_slots_inner_def)
qed (use assms(2) in \<open>simp add: reconcile_slots_def verify_slots_inner_def\<close>)

lemma writer_invalidate: "writer_step c (invalidate_base c)"
  by (auto simp: writer_step_def tracked_def invalidate_base_def layers_ok_def)

text \<open>A bulk write of both layers followed by \<open>invalidate_base\<close>.\<close>

lemma writer_bulk:
  assumes "base c' = base c" "base_storage_lens c' = base_storage_lens c" "base_dirty c' = base_dirty c"
    and "layers_ok c \<Longrightarrow> layers_ok c'"
  shows "writer_step c (invalidate_base c')"
  using assms by (auto simp: writer_step_def tracked_def invalidate_base_def layers_ok_def)

lemma purge_contracts_loop_fields:
  "base (snd (purge_contracts_loop as n c)) = base c"
  "base_storage_lens (snd (purge_contracts_loop as n c)) = base_storage_lens c"
  "base_dirty (snd (purge_contracts_loop as n c)) = base_dirty c"
  "layers_ok c \<Longrightarrow> layers_ok (snd (purge_contracts_loop as n c))"
proof (induction as n c rule: purge_contracts_loop.induct)
  case (2 a rest n c)
  {
    case 4
    then have "layers_ok (c\<lparr>db_accounts := hm_modify a clear_slots (db_accounts c), bk_storage := hm_remove a (bk_storage c)\<rparr>)"
      by (auto simp: layers_ok_def clear_slots_def intro!: overlay_ok_modify nested_ok_remove)
    with 2 show ?case by simp
  }
qed simp_all

lemma writer_purge_contracts: "writer_step c (snd (purge_contracts_storage as c))"
  using writer_bulk [OF purge_contracts_loop_fields] by (simp add: purge_contracts_storage_def case_prod_unfold Let_def)

lemma overlay_ok_clear_all: "overlay_ok m \<Longrightarrow> overlay_ok (hm_map_values clear_slots m)"
  by (auto simp: overlay_ok_def clear_slots_def)

lemma writer_purge_all: "writer_step c (snd (purge_all_storage c))"
  unfolding purge_all_storage_def snd_conv
  by (rule writer_bulk) (auto simp: layers_ok_def nested_ok_def intro: overlay_ok_clear_all)

section \<open>Context operations\<close>

lemma writer_set_block: "writer_step c (set_block b c)"
proof (cases "block c = b")
  case True
  then show ?thesis
    by (intro writer_step_same_layers)
      (cases "concrete_number b"; simp add: set_block_def Let_def bump_snapshot_generation_def)+
next
  case False
  then have "base_full_rebuild (set_block b c)" "base (set_block b c) = base c"
    "base_storage_lens (set_block b c) = base_storage_lens c" "base_dirty (set_block b c) = base_dirty c"
    "db_accounts (set_block b c) = db_accounts c" "bk_accounts (set_block b c) = bk_accounts c"
    "bk_storage (set_block b c) = bk_storage c"
    "db_block_hashes (set_block b c) = db_block_hashes c" "bk_block_hashes (set_block b c) = bk_block_hashes c"
    by (cases "concrete_number b"; simp add: set_block_def Let_def bump_snapshot_generation_def invalidate_base_def)+
  then show ?thesis by (simp add: writer_step_def tracked_def layers_ok_def)
qed

lemma bump_memo_fields [simp]:
  "base (bump_snapshot_generation c) = base c"
  "base_storage_lens (bump_snapshot_generation c) = base_storage_lens c"
  "base_full_rebuild (bump_snapshot_generation c) = base_full_rebuild c"
  "base_dirty (bump_snapshot_generation c) = base_dirty c"
  by (simp_all add: bump_snapshot_generation_def)

lemma writer_compact: "writer_step c (advance_compact_block n h ts p c)"
  by (rule writer_step_same_layers) (simp_all add: advance_compact_block_def Let_def split: prod.splits)

lemma writer_advance: "writer_step c (snd (advance_block h c))"
  by (rule writer_step_same_layers) (simp_all add: advance_block_def Let_def split: sum.splits)

lemma writer_block_hashes:
  "writer_step c (invalidate_cached_block_hashes_from n c)" "writer_step c (set_cached_block_hash n h c)"
  by (rule writer_step_same_layers; simp add: invalidate_cached_block_hashes_from_def set_cached_block_hash_def Let_def)+

lemma writer_setters:
  "writer_step c (set_chain_id n c)" "writer_step c (set_timestamp t c)" "writer_step c (set_block_context t u c)"
  "writer_step c (set_basefee fee c)" "writer_step c (set_coinbase a c)" "writer_step c (set_prevrandao r c)"
  "writer_step c (set_block_gas_limit t c)" "writer_step c (set_block_context_requirements reqs c)"
  by (rule writer_step_same_layers; simp add: context_defs Let_def)+

lemma writer_context: "writer_step c (run_context_op op c)"
  by (cases op) (simp_all add: repin_to_block_def writer_set_block writer_compact writer_advance
      writer_block_hashes writer_setters)

section \<open>Seed operations\<close>

lemma writer_install:
  assumes ext: "revm_ok ext" and nz: "ai_code_hash i \<noteq> 0"
  shows "writer_step c (mark_base_dirty a (install_account ext a i c))"
  using overlay_ok_insert_info [OF ext nz]
  by (auto simp: writer_step_def tracked_def mark_base_dirty_def install_account_def layers_ok_def)

lemma writer_mark: "writer_step c (set_mark a m c)"
  by (rule writer_step_same_layers) (simp_all add: set_mark_def)

lemma writer_write_marked:
  assumes ext: "revm_ok ext"
  shows "writer_step c (write_marked_code ext a (with_code code (hash_slow ext code) i) c)"
  unfolding write_marked_code_def install_account_def [symmetric]
  by (rule writer_step_trans [OF writer_install [OF ext with_code_nonzero [OF ext]] writer_bump])

lemma writer_seed: "revm_ok ext \<Longrightarrow> writer_step c (snd (seed_account_code_with ext a code nonce balance c))"
  by (auto simp: seed_account_code_with_def Let_def split: option.splits bool.splits
      intro: writer_mark writer_step_trans [OF writer_write_marked writer_mark])

lemma writer_etch: "revm_ok ext \<Longrightarrow> writer_step c (snd (etch_account_code ext a code c))"
  by (auto simp: etch_account_code_def Let_def intro: writer_step_trans [OF writer_write_marked writer_mark])

lemma writer_override:
  "revm_ok ext \<Longrightarrow> writer_step c (snd (override_account_code_with_missing_target ext basic_ref src target missing c))"
  by (auto simp: override_account_code_with_missing_target_def Let_def simp flip: install_account_def
      intro: writer_step_trans [OF writer_install [OF _ with_code_nonzero] writer_mark] split: option.splits sum.splits)

lemma writer_materialize: "writer_step c (materialize_verified_balance a bal c)"
  by (auto simp: writer_step_def tracked_def materialize_verified_balance_def mark_base_dirty_def layers_ok_def
      intro!: overlay_ok_modify)

lemma writer_purge_account: "writer_step c (snd (purge_account_inner a (bump_snapshot_generation c)))"
  by (rule writer_step_trans [OF writer_bump cache_writer_step [OF account_purger.cache_writer_axioms]])

lemma writer_verify_seed:
  assumes "verify_seed ext sampled n a st = Some st'"
  shows "writer_step (snd st) (snd st')"
  using assms
  by (auto simp: verify_seed_def Let_def purge_account_eq writer_purge_account
      intro: writer_step_trans [OF writer_mark writer_materialize] split: option.splits code_seed_state.splits if_splits)

lemma writer_verify_loop:
  "verify_seed_loop ext sampled n as st = Some st' \<Longrightarrow> writer_step (snd st) (snd st')"
proof (induction as arbitrary: st)
  case (Cons a as)
  then obtain st1 where "verify_seed ext sampled n a st = Some st1" "verify_seed_loop ext sampled n as st1 = Some st'"
    by (cases "verify_seed ext sampled n a st") auto
  with Cons.IH writer_verify_seed show ?case by (blast intro: writer_step_trans)
qed simp

lemma writer_verify_seeds: "verify_code_seeds ext c = Some (Okay (rep, c')) \<Longrightarrow> writer_step c c'"
  by (auto simp: verify_code_seeds_def Let_def dest: writer_verify_loop split: if_splits option.splits sum.splits)

lemma prepared_marks_fields:
  fixes n xs c
  defines "f \<equiv> fold (\<lambda>(a, _, h) c. mark_base_dirty a (set_mark a (CsVerified h n) c)) xs"
  shows "base (f c) = base c" "base_storage_lens (f c) = base_storage_lens c"
    "base_full_rebuild (f c) = base_full_rebuild c" "bk_accounts (f c) = bk_accounts c" "bk_storage (f c) = bk_storage c"
    "db_accounts (f c) = db_accounts c" "db_block_hashes (f c) = db_block_hashes c" "bk_block_hashes (f c) = bk_block_hashes c"
    "set (base_dirty (f c)) = set (base_dirty c) \<union> fst ` set xs"
  unfolding f_def by (induction xs arbitrary: c) (auto simp: mark_base_dirty_def set_mark_def)

lemma writer_prepared:
  assumes ext: "revm_ok ext" and k: "\<forall>code. keccak code \<noteq> 0"
  shows "writer_step c (snd (apply_prepared_account_patch ext keccak patch c))"
proof (cases "prepare_prepared_account_patch ext keccak patch c")
  case (Inr prepared)
  have nz: "\<forall>(a, i, h) \<in> set prepared. ai_code_hash i \<noteq> 0"
    using apply_prepared_effect(1) [OF ext k Inr] k by (auto simp: prepared_entry_def prepared_info_def)
  have ov: "overlay_ok m \<Longrightarrow> overlay_ok (fold (\<lambda>(a, info, _). insert_account_info ext a info) prepared m)" for m
    using nz by (induction prepared arbitrary: m) (auto intro: overlay_ok_insert_info [OF ext])
  have bk: "hm_ok m \<Longrightarrow> hm_ok (fold (\<lambda>(a, info, _). hm_insert a info) prepared m)" for m :: account_map
    by (induction prepared arbitrary: m) auto
  show ?thesis
    using Inr ov bk fold_hm_inserts [where xs = prepared and m = "bk_accounts c"]
    by (auto simp: apply_prepared_account_patch_def Let_def writer_step_def tracked_def layers_ok_def prepared_marks_fields)
qed (simp add: apply_prepared_account_patch_def)

section \<open>Steps and reachable caches\<close>

inductive cache_step :: "revm_ext \<Rightarrow> (bytes \<Rightarrow> b256) \<Rightarrow> evm_cache \<Rightarrow> evm_cache \<Rightarrow> bool"
  for ext keccak where
  cs_update: "apply_update ext u c = Some (d, c') \<Longrightarrow> cache_step ext keccak c c'"
| cs_updates: "apply_updates ext us c = Some (d, c') \<Longrightarrow> cache_step ext keccak c c'"
| cs_inject: "cache_step ext keccak c (inject_storage_batch rs c)"
| cs_inject_fresh: "inject_storage_batch_fresh ext rs c = Some c' \<Longrightarrow> cache_step ext keccak c c'"
| cs_modify_slot: "cache_step ext keccak c (snd (modify_slot a s f c))"
| cs_modify_balance: "cache_step ext keccak c (snd (modify_account_balance ext a g c))"
| cs_prewarm: "prewarm_slots keys c = Some (pw, c') \<Longrightarrow> cache_step ext keccak c c'"
| cs_verify: "verify_slots ext keys c = Some (Okay (r, c')) \<Longrightarrow> cache_step ext keccak c c'"
| cs_reconcile: "reconcile_slots ext keys c = Some (rr, c') \<Longrightarrow> cache_step ext keccak c c'"
| cs_purge_contracts: "cache_step ext keccak c (snd (purge_contracts_storage as c))"
| cs_purge_all: "cache_step ext keccak c (snd (purge_all_storage c))"
| cs_context: "cache_step ext keccak c (run_context_op op c)"
| cs_seed: "cache_step ext keccak c (snd (seed_account_code_with ext a code nonce balance c))"
| cs_etch: "cache_step ext keccak c (snd (etch_account_code ext a code c))"
| cs_override: "cache_step ext keccak c
     (snd (override_account_code_with_missing_target ext basic_ref src target missing c))"
| cs_verify_seeds: "verify_code_seeds ext c = Some (Okay (rep, c')) \<Longrightarrow> cache_step ext keccak c c'"
| cs_prepared: "cache_step ext keccak c (snd (apply_prepared_account_patch ext keccak patch c))"
| cs_invalidate: "cache_step ext keccak c (invalidate_base c)"
| cs_execute: "overlay_ok m \<Longrightarrow> hm_ok hs \<Longrightarrow> cache_step ext keccak c (c\<lparr>db_accounts := m, db_block_hashes := hs\<rparr>)"
| cs_lazy: "lazy_growth c c' \<Longrightarrow> cache_step ext keccak c c'"
| cs_snapshot: "snapshot c = Some (sn, c') \<Longrightarrow> cache_step ext keccak c c'"

inductive_cases cache_stepE: "cache_step ext keccak c c'"

definition fresh_cache :: "evm_cache \<Rightarrow> bool" where
  "fresh_cache c \<longleftrightarrow> layers_ok c \<and> base c = None"

inductive reachable :: "revm_ext \<Rightarrow> (bytes \<Rightarrow> b256) \<Rightarrow> evm_cache \<Rightarrow> bool"
  for ext keccak where
  reach_fresh: "fresh_cache c \<Longrightarrow> reachable ext keccak c"
| reach_step: "reachable ext keccak c \<Longrightarrow> cache_step ext keccak c c' \<Longrightarrow> reachable ext keccak c'"
| reach_restore: "reachable ext keccak c \<Longrightarrow> reachable ext keccak c0 \<Longrightarrow> reachable ext keccak (restore (checkpoint c0) c)"

definition cache_inv :: "evm_cache \<Rightarrow> bool" where
  "cache_inv c \<longleftrightarrow> layers_ok c \<and> base_coherent c"

lemma writer_step_inv: "writer_step c c' \<Longrightarrow> cache_inv c \<Longrightarrow> cache_inv c'"
  by (auto simp: writer_step_def cache_inv_def intro: tracked_coherent)

lemma snapshot_inv: "snapshot c = Some (sn, c') \<Longrightarrow> cache_inv c \<Longrightarrow> cache_inv c'"
  using snapshot_reads [of c undefined] by (auto simp: cache_inv_def)

lemmas writer_steps =
  writer_update writer_updates writer_inject writer_inject_fresh writer_modify_slot writer_modify_balance
  writer_prewarm writer_verify writer_reconcile writer_purge_contracts writer_purge_all writer_context
  writer_seed writer_etch writer_override writer_verify_seeds writer_prepared writer_invalidate writer_overlay

lemma cache_step_inv:
  assumes ext: "revm_ok ext" and k: "\<forall>code. keccak code \<noteq> 0"
    and step: "cache_step ext keccak c c'" and inv: "cache_inv c"
  shows "cache_inv c'"
  using step
proof (cases rule: cache_step.cases)
  case cs_lazy
  with inv show ?thesis by (auto simp: cache_inv_def intro: lazy_growth_layers lazy_growth_coherent)
next
  case (cs_snapshot sn)
  with inv show ?thesis by (blast intro: snapshot_inv)
qed (use ext k in \<open>auto intro: writer_steps writer_step_inv [OF _ inv]\<close>)

lemma fresh_inv: "fresh_cache c \<Longrightarrow> cache_inv c"
  by (simp add: fresh_cache_def cache_inv_def base_coherent_def)

lemma restore_inv: "cache_inv c \<Longrightarrow> cache_inv c0 \<Longrightarrow> cache_inv (restore (checkpoint c0) c)"
  by (simp add: cache_inv_def restore_def checkpoint_def layers_ok_def base_coherent_def
      memo_account_ok_def memo_storage_ok_def)

lemma reachable_inv:
  assumes "revm_ok ext" and "\<forall>code. keccak code \<noteq> 0" and "reachable ext keccak c"
  shows "cache_inv c"
  using assms(3)
  by (induction rule: reachable.induct) (auto intro: fresh_inv restore_inv cache_step_inv [OF assms(1,2)])

end
