(* ===== verification/Machine_Props.thy ===== *)
theory Machine_Props
  imports Cache_Machine
begin

text \<open>
  Properties of every reachable cache and of the snapshots taken from it.
\<close>

section \<open>The invariant\<close>

text \<open>
  \<^bold>\<open>C7.\<close> In every reachable cache the layers are well formed (no key twice in any map of accounts, slots or block hashes) and the memoised
  base is coherent: what it holds of an address that is not marked dirty is what layer 2 holds of it, up
  to what layer 2 gained since by lazy loading, and the recorded slot count is that of the memo. No
  operation, execution, restore or lazy fetch, in any order, leaves a stale memo entry unmarked.
\<close>

theorem reachable_memo_is_coherent:
  assumes "revm_ok ext" and "\<forall>code. keccak code \<noteq> 0" and "reachable ext keccak c"
  shows "layers_ok c \<and> base_coherent c"
  using reachable_inv [OF assms] by (simp add: cache_inv_def)

text \<open>A run with a snapshot, a lazy fetch behind its back, a write and a second snapshot.\<close>

definition run1 :: evm_cache where
  "run1 = refresh_base sample_cache"

definition run2 :: evm_cache where
  "run2 = run1\<lparr>bk_storage := write_backend_slot 1 6 7 (bk_storage run1)\<rparr>"

definition run3 :: evm_cache where
  "run3 = inject_storage_batch [(1, 5, 101)] run2"

lemma sample_fresh: "fresh_cache sample_cache"
  by (simp add: fresh_cache_def layers_ok_def overlay_ok_def nested_ok_def sample_cache_def empty_cache_def hm_ok_def)

lemma run3_reachable: "reachable sample_ext (\<lambda>code. 3) run3"
proof -
  have "snapshot sample_cache = Some (with_context run1 (the (base run1)) (fold layer1_step (db_accounts run1) empty_fold), run1)"
    by (simp add: snapshot_def run1_def refresh_base_def build_base_full_def Let_def sample_cache_def empty_cache_def)
  then have "reachable sample_ext (\<lambda>code. 3) run1"
    by (blast intro: reach_step [OF reach_fresh [OF sample_fresh]] cs_snapshot)
  moreover have "lazy_growth run1 run2"
    unfolding run2_def
    by (rule lazy_slot) (simp add: backend_slot_def run1_def sample_cache_def empty_cache_def)
  ultimately have "reachable sample_ext (\<lambda>code. 3) run2"
    by (blast intro: reach_step cs_lazy)
  then show ?thesis unfolding run3_def by (blast intro: reach_step cs_inject)
qed

theorem reachable_memo_is_coherent_witness: "layers_ok run3 \<and> base_coherent run3"
  by (rule reachable_memo_is_coherent [OF sample_ext_ok _ run3_reachable]) simp

section \<open>Snapshots\<close>

text \<open>
  \<^bold>\<open>C2.\<close> A snapshot is a faithful freeze. In every reachable cache \<open>snapshot\<close> succeeds (the \<open>expect\<close> on the
  memoised base is never hit), every storage slot, every account and every block hash reads in the snapshot
  as it reads in the live cache, absence included, and every field of the block context is the live one:
  context hash, number, base fee, coinbase, randomness, gas limit, chain id, timestamp, spec and memory
  capacity. The cache it leaves differs in the memoised base and its bookkeeping only, so no read of it
  changes.
\<close>

definition same_context :: "evm_snapshot \<Rightarrow> evm_cache \<Rightarrow> bool" where
  "same_context sn c \<longleftrightarrow> sn_block_context_hash sn = as_block_hash (block c) \<and> sn_block_number sn = block_number c \<and>
     sn_basefee sn = basefee c \<and> sn_coinbase sn = coinbase c \<and> sn_prevrandao sn = prevrandao c \<and>
     sn_gas_limit sn = block_gas_limit c \<and> sn_chain_id sn = chain_id c \<and> sn_timestamp sn = timestamp_override c \<and>
     sn_spec_id sn = spec_id c \<and> sn_shared_memory_capacity sn = shared_memory_capacity c"

definition cached_block_hash :: "evm_cache \<Rightarrow> u64 \<Rightarrow> b256 option" where
  "cached_block_hash c n =
     (case hm_get (db_block_hashes c) (ucast n) of Some h \<Rightarrow> Some h | None \<Rightarrow> hm_get (bk_block_hashes c) (ucast n))"

lemma snapshot_context:
  assumes "snapshot c = Some (sn, c')" and "layers_ok c"
  shows "same_context sn c" and "snapshot_block_hash sn n = cached_block_hash c n"
    and "\<exists>b d r l. c' = c\<lparr>base := b, base_dirty := d, base_full_rebuild := r, base_storage_lens := l\<rparr>"
proof -
  obtain b d r l where m: "refresh_base c = with_memo b d r l c" using refresh_with_memo by blast
  have "hashes_ok c" using assms(2) by (simp add: layers_ok_def hashes_ok_def)
  moreover have "sn_block_hashes sn = snapshot_block_hashes c"
    using assms(1) by (auto simp: snapshot_def Let_def with_context_def m with_memo_def snapshot_block_hashes_def)
  ultimately show "snapshot_block_hash sn n = cached_block_hash c n"
    by (simp add: snapshot_block_hash_def cached_block_hash_def snapshot_block_hashes_get)
  show "same_context sn c"
    using assms(1) by (auto simp: snapshot_def Let_def with_context_def m with_memo_def same_context_def)
  have "c' = refresh_base c" using assms(1) by (auto simp: snapshot_def Let_def)
  then show "\<exists>b d r l. c' = c\<lparr>base := b, base_dirty := d, base_full_rebuild := r, base_storage_lens := l\<rparr>"
    unfolding m with_memo_def by blast
qed

theorem snapshot_reads_live_state:
  assumes "revm_ok ext" and "\<forall>code. keccak code \<noteq> 0" and "reachable ext keccak c"
  shows "\<exists>sn c'. snapshot c = Some (sn, c') \<and>
     (\<forall>a s. snapshot_storage_value sn a s = cached_storage_value c a s) \<and>
     (\<forall>a. map_option (normalize_code_hash ext) (snapshot_account_info sn a) = loaded_account_info ext c a) \<and>
     (\<forall>n. snapshot_block_hash sn n = cached_block_hash c n) \<and> same_context sn c \<and>
     (\<exists>b d r l. c' = c\<lparr>base := b, base_dirty := d, base_full_rebuild := r, base_storage_lens := l\<rparr>)"
proof -
  have inv: "layers_ok c" "base_coherent c" using reachable_inv [OF assms] by (simp_all add: cache_inv_def)
  from snapshot_reads [OF this, of ext] obtain sn c' where r: "snapshot c = Some (sn, c')"
    "\<forall>a s. snapshot_storage_value sn a s = cached_storage_value c a s"
    "\<forall>a. map_option (normalize_code_hash ext) (snapshot_account_info sn a) = loaded_account_info ext c a" by blast
  with snapshot_context [OF r(1) inv(1)] show ?thesis by blast
qed

theorem snapshot_reads_live_state_witness:
  "\<exists>sn c'. snapshot run3 = Some (sn, c') \<and> snapshot_storage_value sn 1 5 = Some 101 \<and>
     snapshot_storage_value sn 1 6 = Some 7"
proof -
  have "\<forall>code :: bytes. (\<lambda>code. 3 :: b256) code \<noteq> 0" by simp
  from snapshot_reads_live_state [OF sample_ext_ok this run3_reachable]
  obtain sn c' where "snapshot run3 = Some (sn, c')"
    "\<forall>a s. snapshot_storage_value sn a s = cached_storage_value run3 a s" by blast
  moreover have "cached_storage_value run3 1 5 = Some 101" "cached_storage_value run3 1 6 = Some 7"
    by (simp_all add: run3_def run2_def run1_def inject_storage_batch_def mark_base_dirty_def cached_storage_value_def
        backend_slot_def write_backend_slot_def hm_or_default_def sample_cache_def empty_cache_def)
  ultimately show ?thesis by auto
qed

text \<open>
  \<^bold>\<open>C8.\<close> The incremental, copy-on-write \<open>snapshot\<close> is equivalent to the reference \<open>snapshot_deep_clone\<close>, which
  copies both layers: in every reachable cache the two answer every storage, account and block-hash read
  alike, know code for the same hashes, and carry the same block context. Where the code hashes of the
  cached accounts identify their code they also return the same code for every hash; the cache does not
  check this of the accounts it is given, and with two codes under one hash either may be returned.
\<close>

theorem snapshot_equals_deep_clone:
  assumes "revm_ok ext" and "\<forall>code. keccak code \<noteq> 0" and "reachable ext keccak c"
  shows "\<exists>sn c'. snapshot c = Some (sn, c') \<and> reads_alike sn (snapshot_deep_clone c) \<and>
     ((\<exists>f. code_consistent f c) \<longrightarrow> same_code sn (snapshot_deep_clone c))"
  using reachable_inv [OF assms] snapshot_agrees_with_clone by (simp add: cache_inv_def)

theorem snapshot_equals_deep_clone_witness:
  "\<exists>sn c'. snapshot run3 = Some (sn, c') \<and> reads_alike sn (snapshot_deep_clone run3) \<and>
     same_code sn (snapshot_deep_clone run3)"
proof -
  have k: "\<forall>code :: bytes. (\<lambda>code. 3 :: b256) code \<noteq> 0" by simp
  have "code_consistent (\<lambda>h. [96]) run3"
    by (simp add: code_consistent_def code_by_def run3_def run2_def run1_def inject_storage_batch_def mark_base_dirty_def
        sample_cache_def empty_cache_def sample_info_def)
  with snapshot_equals_deep_clone [OF sample_ext_ok k run3_reachable] show ?thesis by blast
qed

section \<open>The resident set\<close>

lemma storage_keys_mem: "(a, s) \<in> set (storage_keys m) \<longleftrightarrow> (\<exists>sl. (a, sl) \<in> set m \<and> s \<in> fst ` set sl)"
  by (force simp: storage_keys_def)

lemma map_of_key: "k \<in> fst ` set m \<Longrightarrow> \<exists>v. map_of m k = Some v"
  by (metis map_of_eq_None_iff not_None_eq)

lemma storage_key_found: "hm_ok m \<Longrightarrow> (a, s) \<in> set (storage_keys m) \<Longrightarrow> \<exists>sl v. hm_get m a = Some sl \<and> hm_get sl s = Some v"
  using map_of_key by (fastforce simp: storage_keys_mem hm_get_iff_mem)

lemma hm_ok_layer1: "hm_ok (lf_storage f) \<Longrightarrow> hm_ok (lf_storage (fold layer1_step xs f))"
proof (induction xs arbitrary: f)
  case (Cons x xs)
  then show ?case by (cases x) (simp add: layer1_step_storage)
qed simp

lemma snapshot_maps_ok:
  assumes "layers_ok c" and "base_coherent c" and "snapshot c = Some (sn, c')"
  shows "hm_ok (bs_storage (sn_base sn)) \<and> hm_ok (sn_overlay_storage sn)"
proof -
  obtain b where r: "snapshot c = Some (with_context (refresh_base c) b
       (fold layer1_step (db_accounts (refresh_base c)) empty_fold), refresh_base c)"
    and m: "base_matches b (refresh_base c)" and "base_coherent (refresh_base c)"
    using snapshot_cases [OF assms(1,2)] .
  from r assms(3) m show ?thesis
    by (auto simp: with_context_def base_matches_def nested_ok_def empty_fold_def intro!: hm_ok_layer1)
qed

lemma resident_slot_found:
  assumes "hm_ok (bs_storage (sn_base sn))" and "hm_ok (sn_overlay_storage sn)"
    and "(a, s) \<in> set (storage_keys (bs_storage (sn_base sn))) \<union> set (storage_keys (sn_overlay_storage sn))"
  shows "snapshot_storage_value sn a s \<noteq> None"
  using assms(3) storage_key_found [OF assms(1), of a s] storage_key_found [OF assms(2), of a s]
  by (auto simp: snapshot_storage_value_def Let_def split: option.splits)

text \<open>
  \<^bold>\<open>C38.\<close> What a snapshot lists as resident it can answer: for a snapshot of a reachable cache, no account,
  code hash, slot or block number of \<open>resident_read_set\<close> is reported by \<open>missing_read_set\<close>.
\<close>

theorem resident_reads_are_not_missing:
  assumes "revm_ok ext" and "\<forall>code. keccak code \<noteq> 0" and "reachable ext keccak c"
    and "snapshot c = Some (sn, c')"
  shows "sal_is_empty (missing_read_set sn (resident_read_set sn))"
proof -
  have ok: "hm_ok (bs_storage (sn_base sn))" "hm_ok (sn_overlay_storage sn)"
    using reachable_inv [OF assms(1-3)] snapshot_maps_ok [OF _ _ assms(4)] by (simp_all add: cache_inv_def)
  have acc: "snapshot_account_info sn a \<noteq> None"
    if "a \<notin> set (sn_accounts_not_existing sn)"
      "a \<in> fst ` set (bs_accounts (sn_base sn)) \<union> fst ` set (sn_overlay_accounts sn)" for a
    using that map_of_key [of a "bs_accounts (sn_base sn)"] map_of_key [of a "sn_overlay_accounts sn"]
    by (fastforce simp: snapshot_account_info_def split: option.splits)
  have code: "snapshot_code sn h \<noteq> None"
    if "h \<in> fst ` set (bs_code_by_hash (sn_base sn)) \<union> fst ` set (sn_overlay_code_by_hash sn)" for h
    using that map_of_key [of h "bs_code_by_hash (sn_base sn)"] map_of_key [of h "sn_overlay_code_by_hash sn"]
    by (fastforce simp: snapshot_code_def split: option.splits)
  have hash: "hm_contains (sn_block_hashes sn) n" if "n \<in> fst ` set (sn_block_hashes sn)" for n
    using that map_of_key [of n "sn_block_hashes sn"] by auto
  have sets: "set (sal_accounts (resident_read_set sn)) = fst ` set (bs_accounts (sn_base sn)) \<union>
      fst ` set (sn_overlay_accounts sn) \<union> set (sn_accounts_not_existing sn)"
    "set (sal_code_hashes (resident_read_set sn)) =
      fst ` set (bs_code_by_hash (sn_base sn)) \<union> fst ` set (sn_overlay_code_by_hash sn)"
    "set (sal_slots (resident_read_set sn)) =
      set (storage_keys (bs_storage (sn_base sn))) \<union> set (storage_keys (sn_overlay_storage sn))"
    "set (sal_block_numbers (resident_read_set sn)) = fst ` set (sn_block_hashes sn)"
    by (simp_all add: resident_read_set_def)
  show ?thesis
    unfolding sal_is_empty_def missing_read_set_def filter_empty_conv storage_access_list.select_convs sets
  proof (intro conjI ballI)
    fix k
    assume "k \<in> set (storage_keys (bs_storage (sn_base sn))) \<union> set (storage_keys (sn_overlay_storage sn))"
    then show "\<not> (case k of (a, s) \<Rightarrow> snapshot_storage_value sn a s = None)"
      using resident_slot_found [OF ok] by (cases k) simp
  qed (use acc code hash in auto)
qed

theorem resident_reads_are_not_missing_witness:
  "\<exists>sn c'. snapshot run3 = Some (sn, c') \<and> sal_is_empty (missing_read_set sn (resident_read_set sn))"
proof -
  have k: "\<forall>code :: bytes. (\<lambda>code. 3 :: b256) code \<noteq> 0" by simp
  obtain sn c' where "snapshot run3 = Some (sn, c')"
    using reachable_inv [OF sample_ext_ok k run3_reachable] snapshot_reads [of run3 sample_ext]
    by (auto simp: cache_inv_def)
  with resident_reads_are_not_missing [OF sample_ext_ok k run3_reachable this] show ?thesis by blast
qed

end
