(* ===== verification/Overlay.thy ===== *)
theory Overlay
  imports Machine_Props
begin

text \<open>
  \<open>EvmOverlay\<close> (\<^verbatim>\<open>src/cache/overlay.rs\<close>): a cheap, thread-local database over an immutable snapshot.
  Reads go to the dirty layer, then to the snapshot, then to an optional external backend; without one,
  a miss reads as empty and is recorded.

  The EVM itself is revm, a parameter. A transaction is a tree of database questions
  (\<open>evm_run\<close>): it ends with a result or asks the database and continues with the answer, so that
  what an execution depends on is what it asked. Gas bounds every execution, hence the tree is finite. The
  external backend (\<open>ext_db\<close>) is a record of answers. The recycled memory buffer has no effect on
  results and is left out.
\<close>

section \<open>The overlay\<close>

record missing_state =
  ms_accounts :: "address hashset"
  ms_code_hashes :: "b256 hashset"
  ms_storage :: "slot_key hashset"
  ms_block_hashes :: "u64 hashset"

definition missing_default :: missing_state where
  "missing_default = \<lparr>ms_accounts = [], ms_code_hashes = [], ms_storage = [], ms_block_hashes = []\<rparr>"

definition missing_is_empty :: "missing_state \<Rightarrow> bool" where
  "missing_is_empty m \<longleftrightarrow> ms_accounts m = [] \<and> ms_code_hashes m = [] \<and> ms_storage m = [] \<and> ms_block_hashes m = []"

definition as_read_set :: "missing_state \<Rightarrow> storage_access_list" where
  "as_read_set m = \<lparr>sal_accounts = ms_accounts m, sal_code_hashes = ms_code_hashes m, sal_slots = ms_storage m,
     sal_block_numbers = ms_block_hashes m\<rparr>"

record ext_db =
  ext_basic :: "address \<Rightarrow> string + account_info option"
  ext_code_by_hash :: "b256 \<Rightarrow> string + bytes"
  ext_storage :: "address \<Rightarrow> u256 \<Rightarrow> string + u256"
  ext_block_hash :: "u64 \<Rightarrow> string + b256"

record evm_overlay =
  ov_snapshot :: evm_snapshot
  ov_dirty_accounts :: account_map
  ov_dirty_storage :: storage_map
  ov_ext_db :: "ext_db option"
  ov_blockhash_zero_fallback :: bool
  ov_missing_state :: missing_state

definition overlay_new :: "evm_snapshot \<Rightarrow> ext_db option \<Rightarrow> evm_overlay" where
  "overlay_new sn ext = \<lparr>ov_snapshot = sn, ov_dirty_accounts = [], ov_dirty_storage = [], ov_ext_db = ext,
     ov_blockhash_zero_fallback = False, ov_missing_state = missing_default\<rparr>"

definition overlay_reset :: "evm_overlay \<Rightarrow> evm_overlay" where
  "overlay_reset ov = ov\<lparr>ov_dirty_accounts := [], ov_dirty_storage := [], ov_blockhash_zero_fallback := False,
     ov_missing_state := missing_default\<rparr>"

section \<open>The database interface\<close>

definition miss_account :: "address \<Rightarrow> evm_overlay \<Rightarrow> evm_overlay" where
  "miss_account a ov = ov\<lparr>ov_missing_state := (ov_missing_state ov)
     \<lparr>ms_accounts := List.insert a (ms_accounts (ov_missing_state ov))\<rparr>\<rparr>"

definition miss_code :: "b256 \<Rightarrow> evm_overlay \<Rightarrow> evm_overlay" where
  "miss_code h ov = ov\<lparr>ov_missing_state := (ov_missing_state ov)
     \<lparr>ms_code_hashes := List.insert h (ms_code_hashes (ov_missing_state ov))\<rparr>\<rparr>"

definition miss_storage :: "address \<Rightarrow> u256 \<Rightarrow> evm_overlay \<Rightarrow> evm_overlay" where
  "miss_storage a s ov = ov\<lparr>ov_missing_state := (ov_missing_state ov)
     \<lparr>ms_storage := List.insert (a, s) (ms_storage (ov_missing_state ov))\<rparr>\<rparr>"

definition miss_block_hash :: "u64 \<Rightarrow> evm_overlay \<Rightarrow> evm_overlay" where
  "miss_block_hash n ov = ov\<lparr>ov_missing_state := (ov_missing_state ov)
     \<lparr>ms_block_hashes := List.insert n (ms_block_hashes (ov_missing_state ov))\<rparr>\<rparr>"

definition overlay_basic :: "address \<Rightarrow> evm_overlay \<Rightarrow> (string + account_info option) \<times> evm_overlay" where
  "overlay_basic a ov =
     (case hm_get (ov_dirty_accounts ov) a of
        Some info \<Rightarrow> (Okay (Some info), ov)
      | None \<Rightarrow>
          if a \<in> set (sn_accounts_not_existing (ov_snapshot ov)) then (Okay None, ov)
          else case snapshot_account_info (ov_snapshot ov) a of
            Some info \<Rightarrow> (Okay (Some info), ov)
          | None \<Rightarrow>
              (case ov_ext_db ov of
                 Some ext \<Rightarrow>
                   (case ext_basic ext a of
                      Inl e \<Rightarrow> (Err e, ov)
                    | Inr None \<Rightarrow> (Okay None, ov)
                    | Inr (Some info) \<Rightarrow>
                        (Okay (Some info), ov\<lparr>ov_dirty_accounts := hm_insert a info (ov_dirty_accounts ov)\<rparr>))
               | None \<Rightarrow> (Okay None, miss_account a ov)))"

definition dirty_code :: "account_map \<Rightarrow> b256 \<Rightarrow> bytes option" where
  "dirty_code m h =
     Option.bind (List.find (\<lambda>(a, i). ai_code_hash i = h \<and> ai_code i \<noteq> None) m) (\<lambda>(a, i). ai_code i)"

definition overlay_code_by_hash :: "b256 \<Rightarrow> evm_overlay \<Rightarrow> (string + bytes) \<times> evm_overlay" where
  "overlay_code_by_hash h ov =
     (case dirty_code (ov_dirty_accounts ov) h of
        Some code \<Rightarrow> (Okay code, ov)
      | None \<Rightarrow>
          (case snapshot_code (ov_snapshot ov) h of
             Some code \<Rightarrow> (Okay code, ov)
           | None \<Rightarrow>
               (case ov_ext_db ov of
                  Some ext \<Rightarrow> (ext_code_by_hash ext h, ov)
                | None \<Rightarrow> (Okay [], miss_code h ov))))"

definition dirty_slot :: "evm_overlay \<Rightarrow> address \<Rightarrow> u256 \<Rightarrow> u256 option" where
  "dirty_slot ov a s = Option.bind (hm_get (ov_dirty_storage ov) a) (\<lambda>m. hm_get m s)"

definition override_slot :: "address \<Rightarrow> u256 \<Rightarrow> u256 \<Rightarrow> evm_overlay \<Rightarrow> evm_overlay" where
  "override_slot a s v ov = ov\<lparr>ov_dirty_storage := write_backend_slot a s v (ov_dirty_storage ov)\<rparr>"

definition overlay_storage :: "address \<Rightarrow> u256 \<Rightarrow> evm_overlay \<Rightarrow> (string + u256) \<times> evm_overlay" where
  "overlay_storage a s ov =
     (case dirty_slot ov a s of
        Some v \<Rightarrow> (Okay v, ov)
      | None \<Rightarrow>
          (case snapshot_storage_value (ov_snapshot ov) a s of
             Some v \<Rightarrow> (Okay v, ov)
           | None \<Rightarrow>
               (case ov_ext_db ov of
                  Some ext \<Rightarrow>
                    (case ext_storage ext a s of
                       Inl e \<Rightarrow> (Err e, ov)
                     | Inr v \<Rightarrow> (Okay v, override_slot a s v ov))
                | None \<Rightarrow> (Okay 0, miss_storage a s ov))))"

definition overlay_block_hash :: "u64 \<Rightarrow> evm_overlay \<Rightarrow> (string + b256) \<times> evm_overlay" where
  "overlay_block_hash n ov =
     (case hm_get (sn_block_hashes (ov_snapshot ov)) n of
        Some h \<Rightarrow> (Okay h, ov)
      | None \<Rightarrow>
          (case ov_ext_db ov of
             Some ext \<Rightarrow> (ext_block_hash ext n, ov)
           | None \<Rightarrow> (Okay 0, miss_block_hash n (ov\<lparr>ov_blockhash_zero_fallback := True\<rparr>))))"

text \<open>A committed account: its info and the present values of its storage.\<close>

record committed_account =
  cam_info :: account_info
  cam_storage :: "(u256, u256) hashmap"

definition overlay_commit :: "(address, committed_account) hashmap \<Rightarrow> evm_overlay \<Rightarrow> evm_overlay" where
  "overlay_commit changes ov =
     fold (\<lambda>(a, acc) ov.
        ov\<lparr>ov_dirty_accounts := hm_insert a (cam_info acc) (ov_dirty_accounts ov),
           ov_dirty_storage := hm_insert a
             (hm_extend (hm_or_default (ov_dirty_storage ov) a) (cam_storage acc)) (ov_dirty_storage ov)\<rparr>)
       changes ov"

section \<open>Executions\<close>

datatype 'r evm_run =
    Done 'r
  | AskBasic address "account_info option \<Rightarrow> 'r evm_run"
  | AskCode b256 "bytes \<Rightarrow> 'r evm_run"
  | AskStorage address u256 "u256 \<Rightarrow> 'r evm_run"
  | AskBlockHash u64 "b256 \<Rightarrow> 'r evm_run"

text \<open>A database error ends the transaction.\<close>

primrec run_evm :: "'r evm_run \<Rightarrow> evm_overlay \<Rightarrow> (string + 'r) \<times> evm_overlay" where
  "run_evm (Done r) = (\<lambda>ov. (Okay r, ov))"
| "run_evm (AskBasic a k) = (\<lambda>ov. case overlay_basic a ov of
     (Inl e, ov') \<Rightarrow> (Err e, ov') | (Inr i, ov') \<Rightarrow> run_evm (k i) ov')"
| "run_evm (AskCode h k) = (\<lambda>ov. case overlay_code_by_hash h ov of
     (Inl e, ov') \<Rightarrow> (Err e, ov') | (Inr c, ov') \<Rightarrow> run_evm (k c) ov')"
| "run_evm (AskStorage a s k) = (\<lambda>ov. case overlay_storage a s ov of
     (Inl e, ov') \<Rightarrow> (Err e, ov') | (Inr v, ov') \<Rightarrow> run_evm (k v) ov')"
| "run_evm (AskBlockHash n k) = (\<lambda>ov. case overlay_block_hash n ov of
     (Inl e, ov') \<Rightarrow> (Err e, ov') | (Inr h, ov') \<Rightarrow> run_evm (k h) ov')"

record block_env =
  be_chain_id :: u64
  be_spec_id :: nat
  be_timestamp :: u256
  be_number :: "u256 option"
  be_basefee :: "u64 option"
  be_beneficiary :: "address option"
  be_prevrandao :: "b256 option"
  be_gas_limit :: "u64 option"

text \<open>The block environment of an EVM on this overlay; \<open>None\<close> leaves revm's default.\<close>

definition build_evm_with_local :: "u64 \<Rightarrow> evm_overlay \<Rightarrow> block_env" where
  "build_evm_with_local system_now ov =
     (let sn = ov_snapshot ov
      in \<lparr>be_chain_id = sn_chain_id sn, be_spec_id = sn_spec_id sn,
          be_timestamp = ucast (unwrap_or (sn_timestamp sn) system_now),
          be_number = map_option ucast (sn_block_number sn), be_basefee = sn_basefee sn,
          be_beneficiary = sn_coinbase sn, be_prevrandao = sn_prevrandao sn, be_gas_limit = sn_gas_limit sn\<rparr>)"

record tx_config =
  tx_value :: u256
  tx_gas_limit :: "u64 option"
  tx_gas_price :: "128 word option"
  tx_nonce :: "u64 option"
  tx_access_list :: "access_list option"

record tx_env =
  te_caller :: address
  te_to :: address
  te_data :: bytes
  te_config :: tx_config

datatype execution_result =
    ExecSuccess u64 "bytes list" bytes
  | ExecRevert u64 bytes
  | ExecHalt u64 string

record journal_account =
  ja_touched :: bool
  ja_code_hash :: b256
  ja_slots :: "u256 list"

type_synonym journal = "(address, journal_account) hashmap"

record revm_evm =
  build_tx :: "tx_env \<Rightarrow> string option"
  transact_one :: "block_env \<Rightarrow> tx_env \<Rightarrow> (string + execution_result \<times> journal) evm_run"

definition journal_step :: "revm_ext \<Rightarrow> address \<times> journal_account \<Rightarrow> storage_access_list \<Rightarrow> storage_access_list" where
  "journal_step ext entry l =
     (let a = fst entry; acc = snd entry
      in if ja_touched acc
         then l\<lparr>sal_accounts := List.insert a (sal_accounts l),
                sal_code_hashes := (if ja_code_hash acc \<noteq> 0 \<and> ja_code_hash acc \<noteq> keccak_empty ext
                   then List.insert (ja_code_hash acc) (sal_code_hashes l) else sal_code_hashes l),
                sal_slots := hs_extend (sal_slots l) (map (\<lambda>s. (a, s)) (ja_slots acc))\<rparr>
         else l)"

definition call_raw_with_access_list_with ::
  "revm_ext \<Rightarrow> revm_evm \<Rightarrow> u64 \<Rightarrow> address \<Rightarrow> address \<Rightarrow> bytes \<Rightarrow> tx_config \<Rightarrow> evm_overlay
     \<Rightarrow> (string + execution_result \<times> storage_access_list) \<times> evm_overlay" where
  "call_raw_with_access_list_with ext evm system_now from to data tx ov =
     (let env = \<lparr>te_caller = from, te_to = to, te_data = data, te_config = tx\<rparr>
      in case build_tx evm env of
           Some e \<Rightarrow> (Err e, ov)
         | None \<Rightarrow>
             (case run_evm (transact_one evm (build_evm_with_local system_now ov) env) ov of
                (Inl e, ov') \<Rightarrow> (Err e, ov')
              | (Inr (Inl e), ov') \<Rightarrow> (Err e, ov')
              | (Inr (Inr (result, journal)), ov') \<Rightarrow>
                  (Okay (result, fold (journal_step ext) journal sal_empty), ov')))"

end
