(* ===== verification/Overlay_Props.thy ===== *)
theory Overlay_Props
  imports Overlay
begin

text \<open>
  An overlay without an external backend is a pure reader. \<open>eval_run\<close> runs a transaction against
  answer functions and returns its result with the questions it asked; an offline overlay gives that
  result and records exactly the questions its snapshot could not answer.
\<close>

section \<open>Pure runs\<close>

datatype db_query = QBasic address | QCode b256 | QStorage address u256 | QBlockHash u64

record answers =
  an_basic :: "address \<Rightarrow> account_info option"
  an_code :: "b256 \<Rightarrow> bytes"
  an_storage :: "slot_key \<Rightarrow> u256"
  an_block_hash :: "u64 \<Rightarrow> b256"

primrec eval_run :: "answers \<Rightarrow> 'r evm_run \<Rightarrow> 'r \<times> db_query list" where
  "eval_run w (Done r) = (r, [])"
| "eval_run w (AskBasic a k) = (let x = eval_run w (k (an_basic w a)) in (fst x, QBasic a # snd x))"
| "eval_run w (AskCode h k) = (let x = eval_run w (k (an_code w h)) in (fst x, QCode h # snd x))"
| "eval_run w (AskStorage a s k) = (let x = eval_run w (k (an_storage w (a, s))) in (fst x, QStorage a s # snd x))"
| "eval_run w (AskBlockHash n k) = (let x = eval_run w (k (an_block_hash w n)) in (fst x, QBlockHash n # snd x))"

fun same_answer :: "answers \<Rightarrow> answers \<Rightarrow> db_query \<Rightarrow> bool" where
  "same_answer w w' (QBasic a) \<longleftrightarrow> an_basic w' a = an_basic w a"
| "same_answer w w' (QCode h) \<longleftrightarrow> an_code w' h = an_code w h"
| "same_answer w w' (QStorage a s) \<longleftrightarrow> an_storage w' (a, s) = an_storage w (a, s)"
| "same_answer w w' (QBlockHash n) \<longleftrightarrow> an_block_hash w' n = an_block_hash w n"

text \<open>An execution depends only on the answers to the questions it asked.\<close>

lemma eval_run_local:
  "\<forall>q \<in> set (snd (eval_run w t)). same_answer w w' q \<Longrightarrow> eval_run w' t = eval_run w t"
  by (induction t) (auto simp: Let_def)

section \<open>Offline overlays\<close>

definition offline_answers :: "evm_overlay \<Rightarrow> answers" where
  "offline_answers ov =
     \<lparr>an_basic = (\<lambda>a. case hm_get (ov_dirty_accounts ov) a of
         Some i \<Rightarrow> Some i | None \<Rightarrow> snapshot_account_info (ov_snapshot ov) a),
      an_code = (\<lambda>h. case dirty_code (ov_dirty_accounts ov) h of
         Some code \<Rightarrow> code | None \<Rightarrow> unwrap_or (snapshot_code (ov_snapshot ov) h) []),
      an_storage = (\<lambda>(a, s). case dirty_slot ov a s of
         Some v \<Rightarrow> v | None \<Rightarrow> unwrap_or (snapshot_storage_value (ov_snapshot ov) a s) 0),
      an_block_hash = (\<lambda>n. unwrap_or (hm_get (sn_block_hashes (ov_snapshot ov)) n) 0)\<rparr>"

fun answerable :: "evm_overlay \<Rightarrow> db_query \<Rightarrow> bool" where
  "answerable ov (QBasic a) \<longleftrightarrow> hm_contains (ov_dirty_accounts ov) a \<or>
     a \<in> set (sn_accounts_not_existing (ov_snapshot ov)) \<or> snapshot_account_info (ov_snapshot ov) a \<noteq> None"
| "answerable ov (QCode h) \<longleftrightarrow> dirty_code (ov_dirty_accounts ov) h \<noteq> None \<or> snapshot_code (ov_snapshot ov) h \<noteq> None"
| "answerable ov (QStorage a s) \<longleftrightarrow> dirty_slot ov a s \<noteq> None \<or> snapshot_storage_value (ov_snapshot ov) a s \<noteq> None"
| "answerable ov (QBlockHash n) \<longleftrightarrow> hm_contains (sn_block_hashes (ov_snapshot ov)) n"

fun miss :: "db_query \<Rightarrow> evm_overlay \<Rightarrow> evm_overlay" where
  "miss (QBasic a) ov = miss_account a ov"
| "miss (QCode h) ov = miss_code h ov"
| "miss (QStorage a s) ov = miss_storage a s ov"
| "miss (QBlockHash n) ov = miss_block_hash n (ov\<lparr>ov_blockhash_zero_fallback := True\<rparr>)"

lemmas miss_defs = miss_account_def miss_code_def miss_storage_def miss_block_hash_def

definition note_query :: "db_query \<Rightarrow> evm_overlay \<Rightarrow> evm_overlay" where
  "note_query q ov = (if answerable ov q then ov else miss q ov)"

lemma miss_fields [simp]:
  "ov_snapshot (miss q ov) = ov_snapshot ov" "ov_dirty_accounts (miss q ov) = ov_dirty_accounts ov"
  "ov_dirty_storage (miss q ov) = ov_dirty_storage ov" "ov_ext_db (miss q ov) = ov_ext_db ov"
  by (cases q; simp add: miss_defs)+

lemma note_fields [simp]:
  "ov_snapshot (note_query q ov) = ov_snapshot ov" "ov_dirty_accounts (note_query q ov) = ov_dirty_accounts ov"
  "ov_dirty_storage (note_query q ov) = ov_dirty_storage ov" "ov_ext_db (note_query q ov) = ov_ext_db ov"
  by (simp_all add: note_query_def)

lemma dirty_slot_cong: "ov_dirty_storage ov' = ov_dirty_storage ov \<Longrightarrow> dirty_slot ov' = dirty_slot ov"
  by (simp add: fun_eq_iff dirty_slot_def)

lemma offline_answers_note [simp]: "offline_answers (note_query q ov) = offline_answers ov"
proof -
  have "dirty_slot (note_query q ov) = dirty_slot ov" by (rule dirty_slot_cong) simp
  then show ?thesis unfolding offline_answers_def note_fields by simp
qed

lemma answerable_note [simp]: "answerable (note_query q' ov) q = answerable ov q"
  by (cases q) (simp_all add: dirty_slot_cong [of "note_query q' ov" ov])

lemma offline_reads:
  assumes "ov_ext_db ov = None"
  shows "overlay_basic a ov = (Okay (an_basic (offline_answers ov) a), note_query (QBasic a) ov)"
    and "overlay_code_by_hash h ov = (Okay (an_code (offline_answers ov) h), note_query (QCode h) ov)"
    and "overlay_storage a s ov = (Okay (an_storage (offline_answers ov) (a, s)), note_query (QStorage a s) ov)"
    and "overlay_block_hash n ov = (Okay (an_block_hash (offline_answers ov) n), note_query (QBlockHash n) ov)"
  using assms
  by (auto simp: overlay_basic_def overlay_code_by_hash_def overlay_storage_def overlay_block_hash_def
      offline_answers_def note_query_def snapshot_account_info_def split: option.splits)

text \<open>The offline overlay is a pure evaluator that keeps notes.\<close>

lemma offline_run:
  "ov_ext_db ov = None \<Longrightarrow>
   run_evm t ov = (Okay (fst (eval_run (offline_answers ov) t)), fold note_query (snd (eval_run (offline_answers ov) t)) ov)"
  by (induction t arbitrary: ov) (simp_all add: offline_reads Let_def)

subsection \<open>What is recorded as missing\<close>

fun recorded :: "evm_overlay \<Rightarrow> db_query \<Rightarrow> bool" where
  "recorded ov (QBasic a) \<longleftrightarrow> a \<in> set (ms_accounts (ov_missing_state ov))"
| "recorded ov (QCode h) \<longleftrightarrow> h \<in> set (ms_code_hashes (ov_missing_state ov))"
| "recorded ov (QStorage a s) \<longleftrightarrow> (a, s) \<in> set (ms_storage (ov_missing_state ov))"
| "recorded ov (QBlockHash n) \<longleftrightarrow> n \<in> set (ms_block_hashes (ov_missing_state ov))"

lemma recorded_miss: "recorded (miss q ov) q' \<longleftrightarrow> q' = q \<or> recorded ov q'"
  by (cases q; cases q') (auto simp: miss_defs)

lemma recorded_note: "recorded (note_query q ov) q' \<longleftrightarrow> recorded ov q' \<or> (q' = q \<and> \<not> answerable ov q)"
  by (simp add: note_query_def recorded_miss) blast

lemma recorded_notes:
  "recorded (fold note_query qs ov) q \<longleftrightarrow> recorded ov q \<or> (q \<in> set qs \<and> \<not> answerable ov q)"
proof (induction qs arbitrary: ov)
  case (Cons p qs)
  show ?case by (simp add: Cons.IH recorded_note) blast
qed simp

lemma notes_frame:
  "ov_snapshot (fold note_query qs ov) = ov_snapshot ov" "ov_ext_db (fold note_query qs ov) = ov_ext_db ov"
  "ov_dirty_accounts (fold note_query qs ov) = ov_dirty_accounts ov"
  "ov_dirty_storage (fold note_query qs ov) = ov_dirty_storage ov"
  by (induction qs arbitrary: ov) auto

lemma fallback_notes:
  "ov_blockhash_zero_fallback (fold note_query qs ov) \<longleftrightarrow>
     ov_blockhash_zero_fallback ov \<or> (\<exists>n. QBlockHash n \<in> set qs \<and> \<not> answerable ov (QBlockHash n))"
proof (induction qs arbitrary: ov)
  case (Cons p qs)
  have "ov_blockhash_zero_fallback (note_query p ov) \<longleftrightarrow>
      ov_blockhash_zero_fallback ov \<or> (\<exists>n. p = QBlockHash n \<and> \<not> answerable ov (QBlockHash n))"
    by (cases p) (auto simp: note_query_def miss_defs)
  then show ?case by (simp add: Cons.IH del: answerable.simps) blast
qed simp

lemma nilI: "(\<And>x. x \<notin> set xs) \<Longrightarrow> xs = []"
  by (cases xs) auto

lemma nothing_recorded: "missing_is_empty (ov_missing_state ov) \<longleftrightarrow> (\<forall>q. \<not> recorded ov q)"
proof
  assume "\<forall>q. \<not> recorded ov q"
  then have none: "\<not> recorded ov q" for q by blast
  have "ms_accounts (ov_missing_state ov) = []" by (rule nilI) (use none [of "QBasic _"] in simp)
  moreover have "ms_code_hashes (ov_missing_state ov) = []" by (rule nilI) (use none [of "QCode _"] in simp)
  moreover have "ms_storage (ov_missing_state ov) = []"
  proof (rule nilI)
    fix k show "k \<notin> set (ms_storage (ov_missing_state ov))" by (cases k) (use none [of "QStorage _ _"] in simp)
  qed
  moreover have "ms_block_hashes (ov_missing_state ov) = []" by (rule nilI) (use none [of "QBlockHash _"] in simp)
  ultimately show "missing_is_empty (ov_missing_state ov)" by (simp add: missing_is_empty_def)
next
  assume "missing_is_empty (ov_missing_state ov)"
  then have "\<not> recorded ov q" for q by (cases q) (simp_all add: missing_is_empty_def)
  then show "\<forall>q. \<not> recorded ov q" by blast
qed

text \<open>A prefetched read set covers a question.\<close>

fun in_read_set :: "storage_access_list \<Rightarrow> db_query \<Rightarrow> bool" where
  "in_read_set l (QBasic a) \<longleftrightarrow> a \<in> set (sal_accounts l)"
| "in_read_set l (QCode h) \<longleftrightarrow> h \<in> set (sal_code_hashes l)"
| "in_read_set l (QStorage a s) \<longleftrightarrow> (a, s) \<in> set (sal_slots l)"
| "in_read_set l (QBlockHash n) \<longleftrightarrow> n \<in> set (sal_block_numbers l)"

lemma recorded_as_read_set: "recorded ov q \<longleftrightarrow> in_read_set (as_read_set (ov_missing_state ov)) q"
  by (cases q) (simp_all add: as_read_set_def)

lemma missing_read_set_answerable:
  "in_read_set required q \<Longrightarrow> \<not> in_read_set (missing_read_set sn required) q \<Longrightarrow> answerable (overlay_new sn ext) q"
  by (cases q) (auto simp: missing_read_set_def overlay_new_def)

lemma fresh_not_recorded: "\<not> recorded (overlay_new sn ext) q"
  by (cases q) (simp_all add: overlay_new_def missing_default_def)

text \<open>
  \<^bold>\<open>C40.\<close> Offline completeness. For any transaction on a fresh overlay without a backend, the recorded missing
  state is exactly the set of questions the transaction asked that the snapshot cannot answer, and the
  execution never fails on the database. So if everything it asks is in a read set that
  \<open>missing_read_set\<close> finds nothing missing of, nothing is recorded and no \<open>BLOCKHASH\<close> fell back to zero.
\<close>

theorem offline_missing_state_exact:
  "(\<exists>r. fst (run_evm t (overlay_new sn None)) = Okay r) \<and>
   (\<forall>q. in_read_set (as_read_set (ov_missing_state (snd (run_evm t (overlay_new sn None))))) q \<longleftrightarrow>
      q \<in> set (snd (eval_run (offline_answers (overlay_new sn None)) t)) \<and> \<not> answerable (overlay_new sn None) q) \<and>
   (sal_is_empty (missing_read_set sn required) \<and>
    list_all (in_read_set required) (snd (eval_run (offline_answers (overlay_new sn None)) t)) \<longrightarrow>
      missing_is_empty (ov_missing_state (snd (run_evm t (overlay_new sn None)))) \<and>
      \<not> ov_blockhash_zero_fallback (snd (run_evm t (overlay_new sn None))))"
proof -
  let ?ov = "overlay_new sn None"
  let ?qs = "snd (eval_run (offline_answers ?ov) t)"
  have run: "run_evm t ?ov = (Okay (fst (eval_run (offline_answers ?ov) t)), fold note_query ?qs ?ov)"
    by (rule offline_run) (simp add: overlay_new_def)
  have rec: "recorded (snd (run_evm t ?ov)) q \<longleftrightarrow> q \<in> set ?qs \<and> \<not> answerable ?ov q" for q
    unfolding run by (simp add: recorded_notes fresh_not_recorded del: answerable.simps)
  have "answerable ?ov q"
    if "sal_is_empty (missing_read_set sn required)" "list_all (in_read_set required) ?qs" "q \<in> set ?qs" for q
  proof (rule missing_read_set_answerable [of required])
    show "in_read_set required q" using that by (simp add: list_all_iff)
    show "\<not> in_read_set (missing_read_set sn required) q"
      using that(1) by (cases q) (simp_all add: sal_is_empty_def)
  qed
  moreover have "\<not> ov_blockhash_zero_fallback ?ov" by (simp add: overlay_new_def)
  ultimately show ?thesis
    using run rec by (auto simp: nothing_recorded recorded_as_read_set fallback_notes simp del: answerable.simps)
qed

definition probe :: "u256 evm_run" where
  "probe = AskStorage 1 5 (\<lambda>v. AskStorage 1 9 (\<lambda>w. Done (v + w)))"

theorem offline_missing_state_exact_witness:
  "\<exists>sn c'. snapshot run3 = Some (sn, c') \<and>
     (\<exists>r. fst (run_evm probe (overlay_new sn None)) = Okay r) \<and>
     (in_read_set (as_read_set (ov_missing_state (snd (run_evm probe (overlay_new sn None))))) (QStorage 1 9) \<longleftrightarrow>
       \<not> answerable (overlay_new sn None) (QStorage 1 9))"
proof -
  obtain sn c' where "snapshot run3 = Some (sn, c')"
    using reachable_inv [OF sample_ext_ok _ run3_reachable] snapshot_reads [of run3 sample_ext]
    by (auto simp: cache_inv_def)
  moreover have "QStorage 1 9 \<in> set (snd (eval_run w probe))" for w by (simp add: probe_def Let_def)
  ultimately show ?thesis using offline_missing_state_exact [of probe sn] by blast
qed

end
