(* ===== verification/Float64.thy ===== *)
theory Float64
  imports Complex_Main
begin

text \<open>
  Double-precision arithmetic of non-negative normal numbers: rounding a real to 53 significant bits, ties
  to even. The facts used are that rounding is monotone and keeps the binade.
\<close>

definition round_half_even :: "real \<Rightarrow> int" where
  "round_half_even y =
     (let n = \<lfloor>y\<rfloor>
      in if y - of_int n < 1 / 2 then n
         else if 1 / 2 < y - of_int n then n + 1
         else if even n then n else n + 1)"

definition f64_round :: "real \<Rightarrow> real" where
  "f64_round x =
     (if x = 0 then 0
      else let u = 2 powr (of_int \<lfloor>log 2 x\<rfloor> - 52) in of_int (round_half_even (x / u)) * u)"

lemma round_half_even_bounds: "\<lfloor>y\<rfloor> \<le> round_half_even y \<and> round_half_even y \<le> \<lfloor>y\<rfloor> + 1"
  by (simp add: round_half_even_def Let_def)

lemma round_half_even_of_int [simp]: "round_half_even (of_int n) = n"
  by (simp add: round_half_even_def Let_def)

lemma round_half_even_mono:
  assumes "y \<le> z" shows "round_half_even y \<le> round_half_even z"
proof (cases "\<lfloor>y\<rfloor> = \<lfloor>z\<rfloor>")
  case True
  then show ?thesis using assms by (simp add: round_half_even_def Let_def)
next
  case False
  then have "\<lfloor>y\<rfloor> + 1 \<le> \<lfloor>z\<rfloor>" using floor_mono [OF assms] by simp
  then show ?thesis using round_half_even_bounds [of y] round_half_even_bounds [of z] by linarith
qed

text \<open>A number lies in its binade, and rounding does not leave the closed binade.\<close>

lemma binade:
  assumes "0 < x"
  shows "2 powr of_int \<lfloor>log 2 x\<rfloor> \<le> x" "x < 2 powr (of_int \<lfloor>log 2 x\<rfloor> + 1)"
proof -
  have "of_int \<lfloor>log 2 x\<rfloor> \<le> log 2 x" "log 2 x < of_int \<lfloor>log 2 x\<rfloor> + 1" by linarith+
  then have "2 powr of_int \<lfloor>log 2 x\<rfloor> \<le> 2 powr log 2 x" "2 powr log 2 x < 2 powr (of_int \<lfloor>log 2 x\<rfloor> + 1)"
    by (simp_all only: powr_le_cancel_iff powr_less_cancel_iff)
  then show "2 powr of_int \<lfloor>log 2 x\<rfloor> \<le> x" "x < 2 powr (of_int \<lfloor>log 2 x\<rfloor> + 1)"
    using assms by simp_all
qed

lemma f64_round_binade:
  assumes "0 < x"
  shows "2 powr of_int \<lfloor>log 2 x\<rfloor> \<le> f64_round x" "f64_round x \<le> 2 powr (of_int \<lfloor>log 2 x\<rfloor> + 1)"
proof -
  let ?e = "real_of_int \<lfloor>log 2 x\<rfloor>" and ?u = "2 powr (real_of_int \<lfloor>log 2 x\<rfloor> - 52)"
  have scale: "2 powr ?e = of_int (2 ^ 52) * ?u" "2 powr (?e + 1) = of_int (2 ^ 53) * ?u"
    by (simp_all add: powr_diff powr_add)
  have "of_int (2 ^ 52) \<le> x / ?u" "x / ?u \<le> of_int (2 ^ 53)"
    using binade [OF assms] unfolding scale by (simp_all add: field_simps)
  then have "round_half_even (of_int (2 ^ 52)) \<le> round_half_even (x / ?u)"
    "round_half_even (x / ?u) \<le> round_half_even (of_int (2 ^ 53))"
    by (blast intro: round_half_even_mono)+
  then have "2 ^ 52 \<le> round_half_even (x / ?u)" "round_half_even (x / ?u) \<le> 2 ^ 53"
    by (simp_all only: round_half_even_of_int)
  then have "of_int (2 ^ 52) * ?u \<le> of_int (round_half_even (x / ?u)) * ?u"
    "of_int (round_half_even (x / ?u)) * ?u \<le> of_int (2 ^ 53) * ?u"
    by (simp_all only: mult_right_mono of_int_le_iff powr_ge_zero)
  then show "2 powr ?e \<le> f64_round x" "f64_round x \<le> 2 powr (?e + 1)"
    unfolding scale using assms by (simp_all add: f64_round_def Let_def)
qed

lemma f64_round_nonneg: "0 \<le> x \<Longrightarrow> 0 \<le> f64_round x"
  using f64_round_binade(1) [of x] order_trans [OF powr_ge_zero [of "2 :: real" "of_int \<lfloor>log 2 x\<rfloor>"], of "f64_round x"]
  by (cases "x = 0") (simp_all add: f64_round_def [of 0] del: powr_ge_zero)

lemma f64_round_mono:
  assumes "0 \<le> x" "x \<le> y"
  shows "f64_round x \<le> f64_round y"
proof (cases "x = 0")
  case True
  then show ?thesis using f64_round_nonneg [of y] assms by (simp add: f64_round_def [of 0])
next
  case False
  then have pos: "0 < x" "0 < y" using assms by simp_all
  show ?thesis
  proof (cases "\<lfloor>log 2 x\<rfloor> = \<lfloor>log 2 y\<rfloor>")
    case True
    have "round_half_even (x / u) \<le> round_half_even (y / u)" if "0 < u" for u
      using that assms by (intro round_half_even_mono divide_right_mono) simp_all
    then show ?thesis using pos True by (simp add: f64_round_def Let_def mult_right_mono)
  next
    case False
    have "log 2 x \<le> log 2 y" using assms pos by simp
    then have "\<lfloor>log 2 x\<rfloor> \<le> \<lfloor>log 2 y\<rfloor>" by (rule floor_mono)
    with False have "(2 :: real) powr (of_int \<lfloor>log 2 x\<rfloor> + 1) \<le> 2 powr of_int \<lfloor>log 2 y\<rfloor>" by simp
    then show ?thesis using f64_round_binade(2) [OF pos(1)] f64_round_binade(1) [OF pos(2)] by linarith
  qed
qed

end
