(* ===== verification/Slot_Observations.thy ===== *)
theory Slot_Observations
  imports Float64 State_Update
begin

text \<open>
  The slot observation tracker (\<^verbatim>\<open>src/cache/slot_observations.rs\<close>): per slot, the last
  value seen, how often it was observed and how often it changed, and the prediction
  \<open>should_refetch\<close> that decides from them whether a cached value is still good.

  \<open>f64\<close> arithmetic is arithmetic on reals followed by rounding to 53 significant bits, ties to even
  (\<open>f64_round\<close>). Every operand here is zero or between \<open>2^-32\<close> and \<open>2^96\<close>, far from subnormals and
  overflow; \<open>u32\<close> converts exactly and \<open>u64\<close> with rounding. The two counters are \<open>u32\<close> words.
\<close>

section \<open>Observations\<close>

record slot_observation =
  so_last_value :: u256
  so_observation_count :: u32
  so_change_count :: u32
  so_last_checked :: u64
  so_last_changed :: u64

record slot_observation_tracker =
  tr_observations :: "(slot_key, slot_observation) hashmap"
  tr_skipped_this_cycle :: "slot_key list"
  tr_dirty :: bool

definition tracker_new :: slot_observation_tracker where
  "tracker_new = \<lparr>tr_observations = [], tr_skipped_this_cycle = [], tr_dirty = False\<rparr>"

record freshness_params =
  fp_min_observations :: u32
  fp_max_reuse :: u64
  fp_staleness_threshold :: real
  fp_always_refetch_rate :: real
  fp_cycle_interval :: u64

definition params_default :: freshness_params where
  "params_default = \<lparr>fp_min_observations = 10, fp_max_reuse = 300, fp_staleness_threshold = f64_round (5 / 100),
     fp_always_refetch_rate = f64_round (9 / 10), fp_cycle_interval = 1\<rparr>"

definition for_wall_clock :: freshness_params where
  "for_wall_clock = params_default\<lparr>fp_max_reuse := 7 * 86400, fp_cycle_interval := 60\<rparr>"

definition u64_as_f64 :: "u64 \<Rightarrow> real" where
  "u64_as_f64 n = f64_round (of_nat (unat n))"

definition saturating_sub64 :: "u64 \<Rightarrow> u64 \<Rightarrow> u64" where
  "saturating_sub64 a b = (if a \<le> b then 0 else a - b)"

text \<open>
  The \<open>f64\<close> quotient for a positive number of observations. With changes but no observations, which only a wrapped
  counter or a foreign file can hold, it is infinite and above every threshold; \<open>should_refetch\<close> treats that
  case separately. Thresholds are finite.
\<close>

definition change_rate :: "slot_observation \<Rightarrow> real" where
  "change_rate obs = f64_round (of_nat (unat (so_change_count obs)) / of_nat (unat (so_observation_count obs)))"

definition expected_changes :: "slot_observation \<Rightarrow> u64 \<Rightarrow> freshness_params \<Rightarrow> real" where
  "expected_changes obs now p =
     (let units_elapsed = u64_as_f64 (saturating_sub64 now (so_last_checked obs));
          cycle_interval = u64_as_f64 (max (fp_cycle_interval p) 1);
          cycles_elapsed = max (f64_round (units_elapsed / cycle_interval)) 1
      in f64_round (change_rate obs * cycles_elapsed))"

definition should_refetch :: "address \<Rightarrow> u256 \<Rightarrow> u64 \<Rightarrow> freshness_params \<Rightarrow> slot_observation_tracker \<Rightarrow> bool" where
  "should_refetch a s now p t =
     (case hm_get (tr_observations t) (a, s) of
        None \<Rightarrow> True
      | Some obs \<Rightarrow>
          if so_observation_count obs < fp_min_observations p then True
          else if fp_max_reuse p < saturating_sub64 now (so_last_checked obs) then True
          else if so_change_count obs = 0 then False
          else if so_observation_count obs = 0 \<or> fp_always_refetch_rate p < change_rate obs then True
          else fp_staleness_threshold p < expected_changes obs now p)"

definition observe_entry :: "u256 \<Rightarrow> u64 \<Rightarrow> slot_observation \<Rightarrow> slot_observation" where
  "observe_entry v now obs =
     (let changed = so_last_value obs \<noteq> v;
          obs1 = obs\<lparr>so_observation_count := so_observation_count obs + 1\<rparr>;
          obs2 = (if changed
            then obs1\<lparr>so_change_count := so_change_count obs1 + 1, so_last_changed := now, so_last_value := v\<rparr>
            else obs1)
      in obs2\<lparr>so_last_checked := now\<rparr>)"

definition observe :: "address \<Rightarrow> u256 \<Rightarrow> u256 \<Rightarrow> u64 \<Rightarrow> slot_observation_tracker \<Rightarrow> bool \<times> slot_observation_tracker" where
  "observe a s v now t =
     (let t = t\<lparr>tr_dirty := True\<rparr>
      in case hm_get (tr_observations t) (a, s) of
           Some obs \<Rightarrow>
             (so_last_value obs \<noteq> v,
              t\<lparr>tr_observations := hm_insert (a, s) (observe_entry v now obs) (tr_observations t)\<rparr>)
         | None \<Rightarrow>
             (False,
              t\<lparr>tr_observations := hm_insert (a, s)
                \<lparr>so_last_value = v, so_observation_count = 1, so_change_count = 0, so_last_checked = now,
                 so_last_changed = 0\<rparr> (tr_observations t)\<rparr>))"

definition record_skip :: "address \<Rightarrow> u256 \<Rightarrow> slot_observation_tracker \<Rightarrow> slot_observation_tracker" where
  "record_skip a s t = t\<lparr>tr_skipped_this_cycle := tr_skipped_this_cycle t @ [(a, s)]\<rparr>"

definition take_skipped :: "slot_observation_tracker \<Rightarrow> slot_key list \<times> slot_observation_tracker" where
  "take_skipped t = (tr_skipped_this_cycle t, t\<lparr>tr_skipped_this_cycle := []\<rparr>)"

definition reset_contract :: "address \<Rightarrow> slot_observation_tracker \<Rightarrow> slot_observation_tracker" where
  "reset_contract a t = t\<lparr>tr_observations := hm_retain (\<lambda>k. fst k \<noteq> a) (tr_observations t), tr_dirty := True\<rparr>"

definition begin_cycle :: "slot_observation_tracker \<Rightarrow> slot_observation_tracker" where
  "begin_cycle t = t\<lparr>tr_skipped_this_cycle := []\<rparr>"

definition tracker_len :: "slot_observation_tracker \<Rightarrow> nat" where
  "tracker_len t = hm_len (tr_observations t)"

definition tracker_is_empty :: "slot_observation_tracker \<Rightarrow> bool" where
  "tracker_is_empty t \<longleftrightarrow> tr_observations t = []"

definition last_value :: "address \<Rightarrow> u256 \<Rightarrow> slot_observation_tracker \<Rightarrow> u256 option" where
  "last_value a s t = map_option so_last_value (hm_get (tr_observations t) (a, s))"

end
