(* ===== verification/Slot_Observation_Props.thy ===== *)
theory Slot_Observation_Props
  imports Slot_Observations
begin

text \<open>
  Correctness of the observation tracker: its counters summarise the history of observations, and the
  prediction \<open>should_refetch\<close>, though computed in rounded arithmetic, never turns a stale slot fresh by
  the mere passing of time.
\<close>

section \<open>Staleness is monotone in time\<close>

lemma unat_saturating_sub64: "unat (saturating_sub64 a b) = unat a - unat b"
  by (simp add: saturating_sub64_def word_le_nat_alt unat_sub)

lemma saturating_sub64_mono: "now \<le> later \<Longrightarrow> saturating_sub64 now b \<le> saturating_sub64 later b"
  by (simp add: word_le_nat_alt unat_saturating_sub64 diff_le_mono)

lemma u64_as_f64_mono: "a \<le> b \<Longrightarrow> u64_as_f64 a \<le> u64_as_f64 b"
  unfolding u64_as_f64_def word_le_nat_alt by (intro f64_round_mono of_nat_0_le_iff of_nat_mono)

lemma u64_as_f64_nonneg: "0 \<le> u64_as_f64 a"
  unfolding u64_as_f64_def by (intro f64_round_nonneg of_nat_0_le_iff)

lemma change_rate_nonneg: "0 \<le> change_rate obs"
  unfolding change_rate_def by (intro f64_round_nonneg divide_nonneg_nonneg of_nat_0_le_iff)

lemma expected_changes_mono:
  assumes "now \<le> later"
  shows "expected_changes obs now p \<le> expected_changes obs later p"
proof -
  have "f64_round (u64_as_f64 (saturating_sub64 now c) / u64_as_f64 d)
      \<le> f64_round (u64_as_f64 (saturating_sub64 later c) / u64_as_f64 d)" for c d
    by (intro f64_round_mono divide_right_mono divide_nonneg_nonneg u64_as_f64_mono
        saturating_sub64_mono assms u64_as_f64_nonneg)
  then have "max (f64_round (u64_as_f64 (saturating_sub64 now c) / u64_as_f64 d)) 1
      \<le> max (f64_round (u64_as_f64 (saturating_sub64 later c) / u64_as_f64 d)) 1" for c d
    by (rule max.mono) simp
  then show ?thesis
    unfolding expected_changes_def Let_def
    by (intro f64_round_mono mult_left_mono mult_nonneg_nonneg change_rate_nonneg) (simp_all add: le_max_iff_disj)
qed

text \<open>
  \<^bold>\<open>C23.\<close> Once \<open>should_refetch\<close> asks for a slot, it keeps asking at every later time until the slot is
  observed again, for all parameters and in the rounded arithmetic the code computes with; and time alone
  always gets there: as soon as more than \<open>max_reuse\<close> has passed since the last check it asks.
\<close>

theorem staleness_is_monotone:
  assumes "should_refetch a s now p t \<or>
      (\<exists>obs. hm_get (tr_observations t) (a, s) = Some obs \<and> so_last_checked obs \<le> now \<and>
        fp_max_reuse p < now - so_last_checked obs)"
    and "now \<le> later"
  shows "should_refetch a s later p t"
proof (cases "hm_get (tr_observations t) (a, s)")
  case None
  then show ?thesis by (simp add: should_refetch_def)
next
  case (Some obs)
  have elapsed: "saturating_sub64 now (so_last_checked obs) \<le> saturating_sub64 later (so_last_checked obs)"
    by (rule saturating_sub64_mono [OF assms(2)])
  have "fp_max_reuse p < saturating_sub64 now (so_last_checked obs)"
    if "so_last_checked obs \<le> now" "fp_max_reuse p < now - so_last_checked obs"
    using that by (cases "now = so_last_checked obs") (auto simp: saturating_sub64_def)
  then have "so_last_checked obs \<le> now \<Longrightarrow> fp_max_reuse p < now - so_last_checked obs \<Longrightarrow> should_refetch a s now p t"
    using Some by (simp add: should_refetch_def)
  with Some assms(1) have "should_refetch a s now p t" by auto
  then show ?thesis
    using Some less_le_trans [OF _ elapsed, of "fp_max_reuse p"]
      less_le_trans [OF _ expected_changes_mono [OF assms(2), of obs p], of "fp_staleness_threshold p"]
    by (auto simp: should_refetch_def split: if_splits)
qed

definition seen_tracker :: slot_observation_tracker where
  "seen_tracker = snd (observe 1 5 7 100 tracker_new)"

theorem staleness_is_monotone_witness:
  "should_refetch 1 5 500 params_default seen_tracker"
proof (rule staleness_is_monotone [of 1 5 450])
  show "should_refetch 1 5 450 params_default seen_tracker \<or>
      (\<exists>obs. hm_get (tr_observations seen_tracker) (1, 5) = Some obs \<and> so_last_checked obs \<le> 450 \<and>
        fp_max_reuse params_default < 450 - so_last_checked obs)"
    by (simp add: seen_tracker_def observe_def tracker_new_def params_default_def)
qed simp

section \<open>The counters summarise the history\<close>

type_synonym observation = "slot_key \<times> u256 \<times> u64"

definition observe_all :: "observation list \<Rightarrow> slot_observation_tracker \<Rightarrow> slot_observation_tracker" where
  "observe_all os t = fold (\<lambda>(k, v, now) t. snd (observe (fst k) (snd k) v now t)) os t"

definition history :: "slot_key \<Rightarrow> observation list \<Rightarrow> (u256 \<times> u64) list" where
  "history k os = map snd (filter (\<lambda>ob. fst ob = k) os)"

text \<open>The consecutive pairs of observations between which the value changed.\<close>

definition value_changes :: "(u256 \<times> u64) list \<Rightarrow> ((u256 \<times> u64) \<times> (u256 \<times> u64)) list" where
  "value_changes h = filter (\<lambda>(x, y). fst x \<noteq> fst y) (zip h (tl h))"

definition summary :: "(u256 \<times> u64) list \<Rightarrow> slot_observation" where
  "summary h = \<lparr>so_last_value = fst (last h), so_observation_count = of_nat (length h),
     so_change_count = of_nat (length (value_changes h)), so_last_checked = snd (last h),
     so_last_changed = (if value_changes h = [] then 0 else snd (snd (last (value_changes h))))\<rparr>"

lemma zip_tl_snoc: "h \<noteq> [] \<Longrightarrow> zip (h @ [x]) (tl (h @ [x])) = zip h (tl h) @ [(last h, x)]"
proof (induction h)
  case (Cons y h)
  then show ?case by (cases h) simp_all
qed simp

lemma value_changes_snoc:
  "h \<noteq> [] \<Longrightarrow> value_changes (h @ [x]) = value_changes h @ (if fst (last h) = fst x then [] else [(last h, x)])"
  unfolding value_changes_def zip_tl_snoc by simp

lemma summary_snoc: "h \<noteq> [] \<Longrightarrow> summary (h @ [(v, now)]) = observe_entry v now (summary h)"
  by (simp add: summary_def value_changes_snoc observe_entry_def Let_def)

lemma summary_single:
  "summary [(v, now)] = \<lparr>so_last_value = v, so_observation_count = 1, so_change_count = 0, so_last_checked = now,
     so_last_changed = 0\<rparr>"
  by (simp add: summary_def value_changes_def)

lemma history_snoc: "history k (os @ [ob]) = history k os @ (if fst ob = k then [snd ob] else [])"
  by (simp add: history_def)

lemma observe_all_summary:
  "hm_get (tr_observations (observe_all os tracker_new)) k =
     (if history k os = [] then None else Some (summary (history k os)))"
proof (induction os rule: rev_induct)
  case Nil
  then show ?case by (simp add: observe_all_def history_def tracker_new_def)
next
  case (snoc ob os)
  obtain k' v now where ob: "ob = (k', v, now)" by (cases ob)
  have "observe_all (os @ [ob]) tracker_new = snd (observe (fst k') (snd k') v now (observe_all os tracker_new))"
    by (simp add: observe_all_def ob)
  then show ?case
    using snoc by (cases k'; cases "history k os = []")
      (auto simp: ob history_snoc observe_def Let_def summary_snoc summary_single split: option.splits if_splits)
qed

lemma value_changes_bound: "h \<noteq> [] \<Longrightarrow> length (value_changes h) < length h"
  unfolding value_changes_def by (rule le_less_trans [OF length_filter_le]) (cases h; simp)

text \<open>
  \<^bold>\<open>C24.\<close> The tracker entry of a slot is the summary of that slot's own history of observations, whatever
  else was observed in between: the last value and time, how often it was observed, how often consecutive
  observations differed, and when last. While fewer than \<open>2^32\<close> observations were made the counters are
  exact and the change count stays below the observation count, so the change rate is below 1.
\<close>

theorem tracker_summarises_history:
  "hm_get (tr_observations (observe_all os tracker_new)) k =
     (if history k os = [] then None else Some (summary (history k os))) \<and>
   last_value (fst k) (snd k) (observe_all os tracker_new) =
     (if history k os = [] then None else Some (fst (last (history k os)))) \<and>
   (length os < 2 ^ 32 \<and> history k os \<noteq> [] \<longrightarrow>
     unat (so_observation_count (summary (history k os))) = length (history k os) \<and>
     unat (so_change_count (summary (history k os))) = length (value_changes (history k os)) \<and>
     so_change_count (summary (history k os)) < so_observation_count (summary (history k os)))"
proof -
  have "length (history k os) \<le> length os" by (simp add: history_def)
  moreover have "history k os \<noteq> [] \<Longrightarrow> length (value_changes (history k os)) < length (history k os)"
    by (rule value_changes_bound)
  ultimately show ?thesis
    by (auto simp: observe_all_summary last_value_def summary_def unat_of_nat word_less_nat_alt)
qed

definition two_changes :: "observation list" where
  "two_changes = [((1, 5), 7, 100), ((2, 5), 1, 100), ((1, 5), 7, 101), ((1, 5), 8, 102)]"

theorem tracker_summarises_history_witness:
  "so_change_count (summary (history (1, 5) two_changes)) < so_observation_count (summary (history (1, 5) two_changes))"
  using tracker_summarises_history [of two_changes "(1, 5)"] by (simp add: two_changes_def history_def)

end
