(* ===== verification/Freshness.thy ===== *)
theory Freshness
  imports Overlay_Props Slot_Observation_Props
begin

text \<open>
  Speculative simulation with background validation (\<^verbatim>\<open>src/freshness.rs\<close>): the validity registry, the
  clocks and policies, the controller's \<open>run\<close> and the validator \<open>run_validator\<close>.

  The validator task is its input record; the shared cells behind \<open>Arc\<close> (tracker, pending
  corrections, re-run counter) are the record \<open>shared\<close> that it is given and returns. It reads none of
  them to decide. The cancel flag is asked at numbered checkpoints and is a function of them: \<open>0\<close> at the
  start, \<open>1\<close> before and \<open>2\<close> after the first fetch, \<open>3 + round\<close> in the loop. The wall clock of
  an execution, used only when the snapshot carries no timestamp, is a function of the round and the request.
  An indexing panic is the result \<open>None\<close>. The message of an \<open>Unverified\<close> verdict is represented by
  its cause and the values it prints.
\<close>

section \<open>The registry\<close>

datatype validity = Pinned | Volatile | ValidThrough u64

record freshness_registry =
  reg_default :: validity
  reg_accounts :: "(address, validity) hashmap"
  reg_slots :: "(slot_key, validity) hashmap"

definition registry_with_default :: "validity \<Rightarrow> freshness_registry" where
  "registry_with_default v = \<lparr>reg_default = v, reg_accounts = [], reg_slots = []\<rparr>"

definition registry_new :: freshness_registry where
  "registry_new = \<lparr>reg_default = Volatile, reg_accounts = [], reg_slots = []\<rparr>"

definition set_account :: "address \<Rightarrow> validity \<Rightarrow> freshness_registry \<Rightarrow> freshness_registry" where
  "set_account a v r = r\<lparr>reg_accounts := hm_insert a v (reg_accounts r)\<rparr>"

definition set_slot :: "address \<Rightarrow> u256 \<Rightarrow> validity \<Rightarrow> freshness_registry \<Rightarrow> freshness_registry" where
  "set_slot a s v r = r\<lparr>reg_slots := hm_insert (a, s) v (reg_slots r)\<rparr>"

definition pin :: "address \<Rightarrow> freshness_registry \<Rightarrow> freshness_registry" where
  "pin a = set_account a Pinned"

definition pin_slot :: "address \<Rightarrow> u256 \<Rightarrow> freshness_registry \<Rightarrow> freshness_registry" where
  "pin_slot a s = set_slot a s Pinned"

definition mark_volatile :: "address \<Rightarrow> freshness_registry \<Rightarrow> freshness_registry" where
  "mark_volatile a = set_account a Volatile"

definition mark_volatile_slot :: "address \<Rightarrow> u256 \<Rightarrow> freshness_registry \<Rightarrow> freshness_registry" where
  "mark_volatile_slot a s = set_slot a s Volatile"

definition valid_through :: "address \<Rightarrow> u64 \<Rightarrow> freshness_registry \<Rightarrow> freshness_registry" where
  "valid_through a n = set_account a (ValidThrough n)"

definition valid_through_slot :: "address \<Rightarrow> u256 \<Rightarrow> u64 \<Rightarrow> freshness_registry \<Rightarrow> freshness_registry" where
  "valid_through_slot a s n = set_slot a s (ValidThrough n)"

fun invalidate_validity :: "u64 \<Rightarrow> validity \<Rightarrow> validity" where
  "invalidate_validity first (ValidThrough n) = (if first \<le> n then Volatile else ValidThrough n)"
| "invalidate_validity first v = v"

definition invalidate_valid_through_from :: "u64 \<Rightarrow> freshness_registry \<Rightarrow> freshness_registry" where
  "invalidate_valid_through_from first r =
     \<lparr>reg_default = invalidate_validity first (reg_default r),
      reg_accounts = hm_map_values (invalidate_validity first) (reg_accounts r),
      reg_slots = hm_map_values (invalidate_validity first) (reg_slots r)\<rparr>"

definition validity :: "address \<Rightarrow> u256 \<Rightarrow> freshness_registry \<Rightarrow> validity" where
  "validity a s r =
     (case hm_get (reg_slots r) (a, s) of
        Some v \<Rightarrow> v
      | None \<Rightarrow> (case hm_get (reg_accounts r) a of Some v \<Rightarrow> v | None \<Rightarrow> reg_default r))"

definition is_volatile :: "address \<Rightarrow> u256 \<Rightarrow> u64 \<Rightarrow> freshness_registry \<Rightarrow> bool" where
  "is_volatile a s now r =
     (case validity a s r of Pinned \<Rightarrow> False | Volatile \<Rightarrow> True | ValidThrough m \<Rightarrow> m < now)"

section \<open>Clocks and policies\<close>

datatype freshness_clock = BlockClock u64 | WallClock

fun clock_now :: "u64 \<Rightarrow> freshness_clock \<Rightarrow> u64" where
  "clock_now system_secs (BlockClock n) = n"
| "clock_now system_secs WallClock = system_secs"

fun clock_advance :: "u64 \<Rightarrow> freshness_clock \<Rightarrow> freshness_clock" where
  "clock_advance now (BlockClock n) = BlockClock now"
| "clock_advance now WallClock = WallClock"

datatype freshness_policy = AlwaysVerify | NeverVerify | ObservationDriven freshness_params

fun policy_select ::
  "freshness_policy \<Rightarrow> slot_key list \<Rightarrow> slot_observation_tracker \<Rightarrow> u64 \<Rightarrow> slot_key list" where
  "policy_select AlwaysVerify candidates obs now = candidates"
| "policy_select NeverVerify candidates obs now = []"
| "policy_select (ObservationDriven p) candidates obs now =
     filter (\<lambda>(a, s). should_refetch a s now p obs) candidates"

section \<open>Results\<close>

datatype sim_status = SimSuccess | SimRevert | SimHalt string

record call_simulation_result =
  sim_result_status :: sim_status
  sim_gas_used :: u64
  sim_token_deltas :: "(address, int) hashmap"
  sim_logs :: "bytes list"
  sim_access_list :: access_list
  sim_output :: bytes

fun result_to_sim :: "execution_result \<Rightarrow> access_list \<Rightarrow> call_simulation_result" where
  "result_to_sim (ExecSuccess gas logs output) al = \<lparr>sim_result_status = SimSuccess, sim_gas_used = gas,
     sim_token_deltas = [], sim_logs = logs, sim_access_list = al, sim_output = output\<rparr>"
| "result_to_sim (ExecRevert gas output) al = \<lparr>sim_result_status = SimRevert, sim_gas_used = gas,
     sim_token_deltas = [], sim_logs = [], sim_access_list = al, sim_output = output\<rparr>"
| "result_to_sim (ExecHalt gas reason) al = \<lparr>sim_result_status = SimHalt reason, sim_gas_used = gas,
     sim_token_deltas = [], sim_logs = [], sim_access_list = al, sim_output = []\<rparr>"

datatype unverified_reason =
    BlockhashRead nat
  | NoFetcher
  | FetchError address u256 string
  | FetchOmitted address u256
  | RerunFailed nat string
  | RerunBlockhashRead nat
  | RoundCapExceeded

datatype validation =
    ConfirmedStorage
  | ConfirmedFull
  | Corrected "call_simulation_result list" "slot_change list" "account_change list"
  | Unverified unverified_reason

record sim_request =
  sr_from :: address
  sr_to :: address
  sr_calldata :: bytes
  sr_tx :: tx_config

definition tx_config_default :: tx_config where
  "tx_config_default = \<lparr>tx_value = 0, tx_gas_limit = None, tx_gas_price = None, tx_nonce = None, tx_access_list = None\<rparr>"

definition sim_request_new :: "address \<Rightarrow> address \<Rightarrow> bytes \<Rightarrow> sim_request" where
  "sim_request_new from to data = \<lparr>sr_from = from, sr_to = to, sr_calldata = data, sr_tx = tx_config_default\<rparr>"

definition with_access_list :: "access_list \<Rightarrow> sim_request \<Rightarrow> sim_request" where
  "with_access_list al req = req\<lparr>sr_tx := (sr_tx req)\<lparr>tx_access_list := Some al\<rparr>\<rparr>"

definition with_value :: "u256 \<Rightarrow> sim_request \<Rightarrow> sim_request" where
  "with_value v req = req\<lparr>sr_tx := (sr_tx req)\<lparr>tx_value := v\<rparr>\<rparr>"

definition with_gas_limit :: "u64 \<Rightarrow> sim_request \<Rightarrow> sim_request" where
  "with_gas_limit g req = req\<lparr>sr_tx := (sr_tx req)\<lparr>tx_gas_limit := Some g\<rparr>\<rparr>"

definition with_gas_price :: "128 word \<Rightarrow> sim_request \<Rightarrow> sim_request" where
  "with_gas_price g req = req\<lparr>sr_tx := (sr_tx req)\<lparr>tx_gas_price := Some g\<rparr>\<rparr>"

section \<open>The validator\<close>

record validator_input =
  vi_snapshot :: evm_snapshot
  vi_fetcher :: "storage_fetcher option"
  vi_requests :: "sim_request list"
  vi_read_sets :: "slot_key list list"
  vi_registry :: freshness_registry
  vi_now :: u64
  vi_verify_set :: "slot_key list"
  vi_optimistic :: "call_simulation_result list"
  vi_validation_block :: block_id
  vi_blockhash_readers :: "nat list"

record shared =
  sh_tracker :: slot_observation_tracker
  sh_pending :: "slot_change list"
  sh_rerun_count :: nat

definition max_validation_rounds :: nat where
  "max_validation_rounds = 8"

fun collect_values ::
  "(address \<times> u256 \<times> (string + u256)) list \<Rightarrow> (slot_key, u256) hashmap
     \<Rightarrow> unverified_reason + (slot_key, u256) hashmap" where
  "collect_values [] m = Okay m"
| "collect_values ((a, s, Inr v) # rest) m = collect_values rest (hm_insert (a, s) v m)"
| "collect_values ((a, s, Inl e) # rest) m = Err (FetchError a s e)"

definition collect_fetch_results ::
  "slot_key list \<Rightarrow> (address \<times> u256 \<times> (string + u256)) list \<Rightarrow> unverified_reason + (slot_key, u256) hashmap" where
  "collect_fetch_results requested results =
     (case collect_values results [] of
        Inl e \<Rightarrow> Err e
      | Inr m \<Rightarrow>
          (case List.find (\<lambda>k. \<not> hm_contains m k) requested of
             Some k \<Rightarrow> Err (FetchOmitted (fst k) (snd k))
           | None \<Rightarrow> Okay m))"

type_synonym changed_map = "(slot_key, slot_change) hashmap"

text \<open>Compare fetched slots with the snapshot and observe each.\<close>

fun diff_and_observe ::
  "evm_snapshot \<Rightarrow> u64 \<Rightarrow> (slot_key, u256) hashmap \<Rightarrow> slot_key list \<Rightarrow> slot_observation_tracker \<Rightarrow> changed_map
     \<Rightarrow> bool \<Rightarrow> (slot_observation_tracker \<times> changed_map \<times> bool) option" where
  "diff_and_observe sn now fresh [] t changed grew = Some (t, changed, grew)"
| "diff_and_observe sn now fresh ((a, s) # ks) t changed grew =
     (case hm_get fresh (a, s) of
        None \<Rightarrow> None
      | Some new \<Rightarrow>
          let old = unwrap_or (snapshot_storage_value sn a s) 0;
              t' = snd (observe a s new now t)
          in if new \<noteq> old
             then diff_and_observe sn now fresh ks t'
               (hm_insert (a, s) \<lparr>sc_address = a, sc_slot = s, sc_old = old, sc_new = new\<rparr> changed) True
             else diff_and_observe sn now fresh ks t' changed grew)"

definition volatile_slots :: "freshness_registry \<Rightarrow> u64 \<Rightarrow> storage_access_list \<Rightarrow> slot_key list" where
  "volatile_slots r now access = filter (\<lambda>(a, s). is_volatile a s now r) (sal_slots access)"

definition corrected_overlay :: "evm_snapshot \<Rightarrow> (address \<times> u256 \<times> u256) list \<Rightarrow> evm_overlay" where
  "corrected_overlay sn overrides = fold (\<lambda>(a, s, v). override_slot a s v) overrides (overlay_new sn None)"

record rerun_state =
  rs_results :: "call_simulation_result list"
  rs_reads :: "slot_key list list"
  rs_indices :: "nat hashset"
  rs_any_rerun :: bool
  rs_candidates :: "slot_key hashset"

text \<open>
  One pass over the requests: re-run every simulation whose read set meets a changed slot. The outer
  \<open>None\<close> is an indexing panic.
\<close>

fun rerun_affected ::
  "revm_ext \<Rightarrow> revm_evm \<Rightarrow> (nat \<Rightarrow> u64) \<Rightarrow> validator_input \<Rightarrow> slot_key list \<Rightarrow> (address \<times> u256 \<times> u256) list
     \<Rightarrow> slot_key hashset \<Rightarrow> nat \<Rightarrow> sim_request list \<Rightarrow> rerun_state \<Rightarrow> (unverified_reason + rerun_state) option" where
  "rerun_affected ext evm clock inp changed_keys overrides verified i [] rs = Some (Okay rs)"
| "rerun_affected ext evm clock inp changed_keys overrides verified i (req # reqs) rs =
     (if length (rs_reads rs) \<le> i then None
      else if \<not> list_ex (\<lambda>k. k \<in> set changed_keys) (rs_reads rs ! i)
      then rerun_affected ext evm clock inp changed_keys overrides verified (i + 1) reqs rs
      else case call_raw_with_access_list_with ext evm (clock i) (sr_from req) (sr_to req) (sr_calldata req) (sr_tx req)
                  (corrected_overlay (vi_snapshot inp) overrides) of
             (Inl e, ov) \<Rightarrow> Some (Err (RerunFailed i e))
           | (Inr (result, access), ov) \<Rightarrow>
               if ov_blockhash_zero_fallback ov then Some (Err (RerunBlockhashRead i))
               else if length (rs_results rs) \<le> i then None
               else let new_volatile = volatile_slots (vi_registry inp) (vi_now inp) access
                 in rerun_affected ext evm clock inp changed_keys overrides verified (i + 1) reqs
                     \<lparr>rs_results = (rs_results rs)[i := result_to_sim result (to_eip2930 access)],
                      rs_reads = (rs_reads rs)[i := new_volatile],
                      rs_indices = List.insert i (rs_indices rs),
                      rs_any_rerun = True,
                      rs_candidates = hs_extend (rs_candidates rs) (filter (\<lambda>k. k \<notin> set verified) new_volatile)\<rparr>)"

definition override_list :: "changed_map \<Rightarrow> (address \<times> u256 \<times> u256) list" where
  "override_list changed = map (\<lambda>(k, ch). (sc_address ch, sc_slot ch, sc_new ch)) changed"

text \<open>Leaving the loop: count the re-run simulations, queue the corrections and report them.\<close>

definition finish_corrected :: "rerun_state \<Rightarrow> changed_map \<Rightarrow> shared \<Rightarrow> validation \<times> shared" where
  "finish_corrected rs changed sh =
     (let changed_slots = map snd changed
      in (Corrected (rs_results rs) changed_slots [],
          sh\<lparr>sh_rerun_count := sh_rerun_count sh + length (rs_indices rs), sh_pending := sh_pending sh @ changed_slots\<rparr>))"

text \<open>
  The task of the validator: its verdict with the shared cells it leaves. A missing verdict is a task that
  panicked, in the caller's fetcher or, which is shown not to happen, at an index; the cells keep what was
  written before.
\<close>

function validator_loop ::
  "revm_ext \<Rightarrow> revm_evm \<Rightarrow> (nat \<Rightarrow> nat \<Rightarrow> u64) \<Rightarrow> (nat \<Rightarrow> bool) \<Rightarrow> storage_fetcher \<Rightarrow> validator_input
     \<Rightarrow> nat \<Rightarrow> changed_map \<Rightarrow> slot_key hashset \<Rightarrow> rerun_state \<Rightarrow> shared \<Rightarrow> validation option \<times> shared" where
  "validator_loop ext evm clock cancelled fetcher inp rnd changed verified rs sh =
     (case rerun_affected ext evm (clock rnd) inp (map fst changed) (override_list changed) verified 0 (vi_requests inp)
             (rs\<lparr>rs_any_rerun := False, rs_candidates := []\<rparr>) of
        None \<Rightarrow> (None, sh)
      | Some (Inl reason) \<Rightarrow> (Some (Unverified reason), sh)
      | Some (Inr rs') \<Rightarrow>
          if \<not> rs_any_rerun rs' \<or> rs_candidates rs' = [] then apfst Some (finish_corrected rs' changed sh)
          else if max_validation_rounds \<le> rnd then (Some (Unverified RoundCapExceeded), sh)
          else if cancelled (3 + rnd) then (Some ConfirmedStorage, sh)
          else (case fetcher (rs_candidates rs') (vi_validation_block inp) of
                  None \<Rightarrow> (None, sh)
                | Some results \<Rightarrow>
                    (case collect_fetch_results (rs_candidates rs') results of
                       Inl reason \<Rightarrow> (Some (Unverified reason), sh)
                     | Inr fresh \<Rightarrow>
                         (case diff_and_observe (vi_snapshot inp) (vi_now inp) fresh (rs_candidates rs') (sh_tracker sh) changed False of
                            None \<Rightarrow> (None, sh)
                          | Some (t, changed', grew) \<Rightarrow>
                              if \<not> grew then apfst Some (finish_corrected rs' changed' (sh\<lparr>sh_tracker := t\<rparr>))
                              else validator_loop ext evm clock cancelled fetcher inp (rnd + 1) changed'
                                     (hs_extend verified (rs_candidates rs')) rs' (sh\<lparr>sh_tracker := t\<rparr>)))))"
  by pat_completeness auto
termination
  by (relation "measure (\<lambda>(ext, evm, clock, cancelled, fetcher, inp, rnd, changed, verified, rs, sh).
        max_validation_rounds - rnd)") auto

definition verify_slots_of :: "validator_input \<Rightarrow> slot_key list" where
  "verify_slots_of inp =
     filter (\<lambda>(a, s). is_volatile a s (vi_now inp) (vi_registry inp))
       (fold (\<lambda>set acc. hs_extend acc set) (vi_read_sets inp) (remdups (vi_verify_set inp)))"

definition run_validator ::
  "revm_ext \<Rightarrow> revm_evm \<Rightarrow> (nat \<Rightarrow> nat \<Rightarrow> u64) \<Rightarrow> (nat \<Rightarrow> bool) \<Rightarrow> validator_input \<Rightarrow> shared
     \<Rightarrow> validation option \<times> shared" where
  "run_validator ext evm clock cancelled inp sh =
     (if cancelled 0 then (Some ConfirmedStorage, sh)
      else case vi_blockhash_readers inp of
        first # _ \<Rightarrow> (Some (Unverified (BlockhashRead first)), sh)
      | [] \<Rightarrow>
          (case vi_fetcher inp of
             None \<Rightarrow> (Some (Unverified NoFetcher), sh)
           | Some fetcher \<Rightarrow>
               let verify = verify_slots_of inp
               in if verify = [] then (Some ConfirmedStorage, sh)
                  else if cancelled 1 then (Some ConfirmedStorage, sh)
                  else (case fetcher verify (vi_validation_block inp) of
                          None \<Rightarrow> (None, sh)
                        | Some results \<Rightarrow>
                            (case collect_fetch_results verify results of
                               Inl reason \<Rightarrow> (Some (Unverified reason), sh)
                             | Inr fresh \<Rightarrow>
                                 if cancelled 2 then (Some ConfirmedStorage, sh)
                                 else (case diff_and_observe (vi_snapshot inp) (vi_now inp) fresh verify (sh_tracker sh) [] False of
                                         None \<Rightarrow> (None, sh)
                                       | Some (t, changed, grew) \<Rightarrow>
                                           if changed = [] then (Some ConfirmedStorage, sh\<lparr>sh_tracker := t\<rparr>)
                                           else validator_loop ext evm clock cancelled fetcher inp 0 changed verify
                                                  \<lparr>rs_results = vi_optimistic inp, rs_reads = vi_read_sets inp, rs_indices = [],
                                                   rs_any_rerun = False, rs_candidates = []\<rparr>
                                                  (sh\<lparr>sh_tracker := t\<rparr>))))))"

section \<open>The controller\<close>

record freshness_controller =
  fc_registry :: freshness_registry
  fc_policy :: freshness_policy
  fc_clock :: freshness_clock
  fc_shared :: shared

definition controller_with_clock :: "freshness_registry \<Rightarrow> freshness_policy \<Rightarrow> freshness_clock \<Rightarrow> freshness_controller" where
  "controller_with_clock r p clk = \<lparr>fc_registry = r, fc_policy = p, fc_clock = clk,
     fc_shared = \<lparr>sh_tracker = tracker_new, sh_pending = [], sh_rerun_count = 0\<rparr>\<rparr>"

definition controller_new :: "freshness_registry \<Rightarrow> freshness_policy \<Rightarrow> freshness_controller" where
  "controller_new r p = controller_with_clock r p (BlockClock 0)"

definition with_tracker :: "slot_observation_tracker \<Rightarrow> freshness_controller \<Rightarrow> freshness_controller" where
  "with_tracker t ctl = ctl\<lparr>fc_shared := (fc_shared ctl)\<lparr>sh_tracker := t\<rparr>\<rparr>"

definition pending_len :: "freshness_controller \<Rightarrow> nat" where
  "pending_len ctl = length (sh_pending (fc_shared ctl))"

definition rerun_count :: "freshness_controller \<Rightarrow> nat" where
  "rerun_count ctl = sh_rerun_count (fc_shared ctl)"

definition on_new_block :: "u64 \<Rightarrow> freshness_controller \<Rightarrow> freshness_controller" where
  "on_new_block n ctl = ctl\<lparr>fc_clock := clock_advance n (fc_clock ctl)\<rparr>"

text \<open>The handle: the optimistic results and the spawned task.\<close>

record speculative_sim =
  sp_optimistic :: "call_simulation_result list"
  sp_validation :: validator_input

definition drain_pending :: "revm_ext \<Rightarrow> freshness_controller \<Rightarrow> evm_cache \<Rightarrow> (freshness_controller \<times> evm_cache) option" where
  "drain_pending ext ctl c =
     (let pending = sh_pending (fc_shared ctl)
      in if pending = [] then Some (ctl, c)
         else map_option (\<lambda>(d, c'). (ctl\<lparr>fc_shared := (fc_shared ctl)\<lparr>sh_pending := []\<rparr>\<rparr>, c'))
                (apply_updates ext (map (\<lambda>ch. Slot (sc_address ch) (sc_slot ch) (sc_new ch)) pending) c))"

record optimistic_state =
  op_results :: "call_simulation_result list"
  op_read_sets :: "slot_key list list"
  op_blockhash_readers :: "nat list"

fun optimistic_sims ::
  "revm_ext \<Rightarrow> revm_evm \<Rightarrow> (nat \<Rightarrow> u64) \<Rightarrow> freshness_registry \<Rightarrow> u64 \<Rightarrow> evm_snapshot \<Rightarrow> nat \<Rightarrow> sim_request list
     \<Rightarrow> optimistic_state \<Rightarrow> string + optimistic_state" where
  "optimistic_sims ext evm clock reg now sn i [] st = Okay st"
| "optimistic_sims ext evm clock reg now sn i (req # reqs) st =
     (case call_raw_with_access_list_with ext evm (clock i) (sr_from req) (sr_to req) (sr_calldata req) (sr_tx req)
             (overlay_new sn None) of
        (Inl e, ov) \<Rightarrow> Err e
      | (Inr (result, access), ov) \<Rightarrow>
          optimistic_sims ext evm clock reg now sn (i + 1) reqs
            \<lparr>op_results = op_results st @ [result_to_sim result (to_eip2930 access)],
             op_read_sets = op_read_sets st @ [volatile_slots reg now access],
             op_blockhash_readers = (if ov_blockhash_zero_fallback ov then op_blockhash_readers st @ [i]
               else op_blockhash_readers st)\<rparr>)"

text \<open>The slots a request's access list announces; a 32-byte key is the slot it encodes.\<close>

definition announced_slots :: "sim_request \<Rightarrow> slot_key list" where
  "announced_slots req =
     (case tx_access_list (sr_tx req) of
        None \<Rightarrow> []
      | Some al \<Rightarrow> concat (map (\<lambda>(a, keys). map (\<lambda>key. (a, key)) keys) al))"

definition predicted_candidates :: "freshness_registry \<Rightarrow> u64 \<Rightarrow> sim_request list \<Rightarrow> slot_key list" where
  "predicted_candidates reg now reqs =
     fold (\<lambda>req acc. hs_extend acc (filter (\<lambda>(a, s). is_volatile a s now reg) (announced_slots req))) reqs []"

definition controller_run ::
  "revm_ext \<Rightarrow> revm_evm \<Rightarrow> (nat \<Rightarrow> u64) \<Rightarrow> u64 \<Rightarrow> sim_request list \<Rightarrow> freshness_controller \<Rightarrow> evm_cache
     \<Rightarrow> ((string + speculative_sim) \<times> freshness_controller \<times> evm_cache) option" where
  "controller_run ext evm clock system_secs requests ctl c =
     (let now = clock_now system_secs (fc_clock ctl)
      in case drain_pending ext ctl c of
           None \<Rightarrow> None
         | Some (ctl1, c1) \<Rightarrow>
             (case snapshot c1 of
                None \<Rightarrow> None
              | Some (sn, c2) \<Rightarrow>
                  (case optimistic_sims ext evm clock (fc_registry ctl1) now sn 0 requests
                          \<lparr>op_results = [], op_read_sets = [], op_blockhash_readers = []\<rparr> of
                     Inl e \<Rightarrow> Some (Err e, ctl1, c2)
                   | Inr st \<Rightarrow>
                       let candidates = predicted_candidates (fc_registry ctl1) now requests;
                           verify_set = policy_select (fc_policy ctl1) candidates (sh_tracker (fc_shared ctl1)) now
                       in Some (Okay
                            \<lparr>sp_optimistic = op_results st,
                             sp_validation =
                               \<lparr>vi_snapshot = sn, vi_fetcher = storage_batch_fetcher c2, vi_requests = requests,
                                vi_read_sets = op_read_sets st, vi_registry = fc_registry ctl1, vi_now = now,
                                vi_verify_set = verify_set, vi_optimistic = op_results st,
                                vi_validation_block = block c2, vi_blockhash_readers = op_blockhash_readers st\<rparr>\<rparr>,
                            ctl1, c2))))"

datatype freshness_error = ValidationHandleConsumed | ValidationTaskFailed | OverlayFailed string

text \<open>
  Awaiting the handle runs the task with no cancellation; its effects are on the controller's shared cells. A task
  that panicked is the join error. The handle is consumed by the call, so it is never found taken.
\<close>

definition validate ::
  "revm_ext \<Rightarrow> revm_evm \<Rightarrow> (nat \<Rightarrow> nat \<Rightarrow> u64) \<Rightarrow> speculative_sim \<Rightarrow> freshness_controller
     \<Rightarrow> (freshness_error + validation) \<times> freshness_controller" where
  "validate ext evm clock sim ctl =
     (let (v, sh) = run_validator ext evm clock (\<lambda>_. False) (sp_validation sim) (fc_shared ctl)
      in (case v of None \<Rightarrow> Err ValidationTaskFailed | Some v \<Rightarrow> Okay v, ctl\<lparr>fc_shared := sh\<rparr>))"

text \<open>
  Taking the optimistic results, or dropping the handle, sets the flag before some checkpoint; what the task
  still does is on the shared cells.
\<close>

definition into_optimistic ::
  "revm_ext \<Rightarrow> revm_evm \<Rightarrow> (nat \<Rightarrow> nat \<Rightarrow> u64) \<Rightarrow> nat \<Rightarrow> speculative_sim \<Rightarrow> freshness_controller
     \<Rightarrow> call_simulation_result list \<times> freshness_controller" where
  "into_optimistic ext evm clock k sim ctl =
     (sp_optimistic sim,
      ctl\<lparr>fc_shared := snd (run_validator ext evm clock (\<lambda>j. k \<le> j) (sp_validation sim) (fc_shared ctl))\<rparr>)"

end
