(* ===== verification/Freshness_Laws.thy ===== *)
theory Freshness_Laws
  imports Freshness
begin

text \<open>
  Laws of the validator. The reference is a world \<open>W\<close>: answers to every database question that agree
  with the snapshot on everything but volatile storage and unknown block hashes, where the chain decides. The
  validator's rounds keep an invariant: every current result is the execution on the snapshot under some
  of the accumulated corrections, and every slot it read is verified.
\<close>

declare validator_loop.simps [simp del]

section \<open>Executions in a world\<close>

definition tx_of :: "sim_request \<Rightarrow> tx_env" where
  "tx_of req = \<lparr>te_caller = sr_from req, te_to = sr_to req, te_data = sr_calldata req, te_config = sr_tx req\<rparr>"

definition sim_on ::
  "revm_ext \<Rightarrow> revm_evm \<Rightarrow> u64 \<Rightarrow> evm_snapshot \<Rightarrow> answers \<Rightarrow> sim_request \<Rightarrow> string + call_simulation_result" where
  "sim_on ext evm secs sn w req =
     (case build_tx evm (tx_of req) of
        Some e \<Rightarrow> Err e
      | None \<Rightarrow>
          (case fst (eval_run w (transact_one evm (build_evm_with_local secs (overlay_new sn None)) (tx_of req))) of
             Inl e \<Rightarrow> Err e
           | Inr (res, j) \<Rightarrow> Okay (result_to_sim res (to_eip2930 (fold (journal_step ext) j sal_empty)))))"

definition snap_value :: "evm_snapshot \<Rightarrow> slot_key \<Rightarrow> u256" where
  "snap_value sn k = unwrap_or (snapshot_storage_value sn (fst k) (snd k)) 0"

definition volatile_at :: "validator_input \<Rightarrow> slot_key \<Rightarrow> bool" where
  "volatile_at inp k = is_volatile (fst k) (snd k) (vi_now inp) (vi_registry inp)"

text \<open>The world behind a snapshot: volatile slots and block hashes that are not resident are the chain's.\<close>

definition world_of :: "validator_input \<Rightarrow> answers \<Rightarrow> bool" where
  "world_of inp w \<longleftrightarrow>
     an_basic w = an_basic (offline_answers (overlay_new (vi_snapshot inp) None)) \<and>
     an_code w = an_code (offline_answers (overlay_new (vi_snapshot inp) None)) \<and>
     (\<forall>k. \<not> volatile_at inp k \<longrightarrow> an_storage w k = snap_value (vi_snapshot inp) k) \<and>
     (\<forall>n h. hm_get (sn_block_hashes (vi_snapshot inp)) n = Some h \<longrightarrow> an_block_hash w n = h)"

text \<open>
  A read that the journal hides: the execution of \<open>req\<close> under the answers \<open>w'\<close> that gave \<open>r\<close> asked for a slot
  whose value differs in \<open>w\<close>, and the access list built from the journal, which has the slots of touched accounts
  only, does not list it. revm untouches the accounts of a call it reverts, so reverted calls read this way.
\<close>

definition hidden_read ::
  "revm_ext \<Rightarrow> revm_evm \<Rightarrow> u64 \<Rightarrow> evm_snapshot \<Rightarrow> answers \<Rightarrow> answers \<Rightarrow> sim_request \<Rightarrow> call_simulation_result \<Rightarrow> bool" where
  "hidden_read ext evm secs sn w' w req r \<longleftrightarrow> sim_on ext evm secs sn w' req = Okay r \<and>
     (\<exists>res j qs a s. eval_run w' (transact_one evm (build_evm_with_local secs (overlay_new sn None)) (tx_of req)) = (Inr (res, j), qs) \<and>
        QStorage a s \<in> set qs \<and> an_storage w' (a, s) \<noteq> an_storage w (a, s) \<and>
        (a, s) \<notin> set (sal_slots (fold (journal_step ext) j sal_empty)))"

text \<open>
  A result is right for a world if it is that of executing the request there, at the second the execution saw or,
  when the snapshot carries a timestamp, at any; the exception is a hidden read of the execution it came from,
  which saw for each slot the snapshot's value or the world's.
\<close>

definition right_in ::
  "revm_ext \<Rightarrow> revm_evm \<Rightarrow> validator_input \<Rightarrow> answers \<Rightarrow> sim_request \<Rightarrow> call_simulation_result \<Rightarrow> bool" where
  "right_in ext evm inp w req r \<longleftrightarrow>
     (\<exists>secs. sim_on ext evm secs (vi_snapshot inp) w req = Okay r) \<and>
       (sn_timestamp (vi_snapshot inp) \<noteq> None \<longrightarrow> (\<forall>secs. sim_on ext evm secs (vi_snapshot inp) w req = Okay r)) \<or>
     (\<exists>secs w'. world_of inp w' \<and>
       (\<forall>k. an_storage w' k = snap_value (vi_snapshot inp) k \<or> an_storage w' k = an_storage w k) \<and>
       hidden_read ext evm secs (vi_snapshot inp) w' w req r)"

definition honest_storage :: "storage_fetcher \<Rightarrow> block_id \<Rightarrow> answers \<Rightarrow> bool" where
  "honest_storage fetcher b w \<longleftrightarrow>
     (\<forall>keys rs a s v. fetcher keys b = Some rs \<and> (a, s, Inr v) \<in> set rs \<longrightarrow> v = an_storage w (a, s))"

section \<open>Fetch results\<close>

lemma collect_values_get:
  assumes "collect_values rs m0 = Okay m" "hm_get m (a, s) = Some v"
  shows "(a, s, Inr v) \<in> set rs \<or> hm_get m0 (a, s) = Some v"
  using assms by (induction rs m0 rule: collect_values.induct) (auto split: if_splits)

lemma collect_fetch_ok:
  assumes "collect_fetch_results ks rs = Okay m"
  shows "k \<in> set ks \<Longrightarrow> hm_contains m k" and "hm_get m (a, s) = Some v \<Longrightarrow> (a, s, Inr v) \<in> set rs"
  using assms collect_values_get [of rs "[]" m a s v]
  by (cases k; auto simp: collect_fetch_results_def find_None_iff split: sum.splits option.splits)+

section \<open>The changed set\<close>

text \<open>Corrections hold the chain's value of their slot.\<close>

definition corrections_ok :: "answers \<Rightarrow> changed_map \<Rightarrow> bool" where
  "corrections_ok w ch \<longleftrightarrow> hm_ok ch \<and> (\<forall>(k, c) \<in> set ch. k = (sc_address c, sc_slot c) \<and> sc_new c = an_storage w k)"

definition changes_ok :: "validator_input \<Rightarrow> answers \<Rightarrow> slot_key set \<Rightarrow> changed_map \<Rightarrow> bool" where
  "changes_ok inp w ver ch \<longleftrightarrow> corrections_ok w ch \<and> fst ` set ch \<subseteq> ver \<and>
     (\<forall>(k, c) \<in> set ch. sc_old c = snap_value (vi_snapshot inp) k \<and> sc_old c \<noteq> sc_new c) \<and>
     (\<forall>k \<in> ver. volatile_at inp k \<and> (k \<notin> fst ` set ch \<longrightarrow> snap_value (vi_snapshot inp) k = an_storage w k))"

lemma set_hm_insert: "hm_ok m \<Longrightarrow> set (hm_insert k v m) = insert (k, v) {x \<in> set m. fst x \<noteq> k}"
proof (induction m)
  case (Cons x m)
  then show ?case by (cases x) (auto simp: hm_ok_def image_iff)
qed simp

lemma keys_hm_insert: "fst ` set (hm_insert k v m) = insert k (fst ` set m)"
  unfolding dom_map_of_conv_image_fst [symmetric] hm_get_insert by simp

lemma changes_ok_insert:
  assumes "changes_ok inp w ver ch" "volatile_at inp (a, s)" "new = an_storage w (a, s)"
    "old = snap_value (vi_snapshot inp) (a, s)" "new \<noteq> old"
  shows "changes_ok inp w (insert (a, s) ver)
    (hm_insert (a, s) \<lparr>sc_address = a, sc_slot = s, sc_old = old, sc_new = new\<rparr> ch)"
  using assms unfolding changes_ok_def corrections_ok_def keys_hm_insert by (auto simp: set_hm_insert)

lemma changes_ok_verify:
  assumes "changes_ok inp w ver ch" "volatile_at inp k" "an_storage w k = snap_value (vi_snapshot inp) k"
  shows "changes_ok inp w (insert k ver) ch"
  using assms by (auto simp: changes_ok_def)

lemma diff_and_observe_ok:
  assumes "diff_and_observe (vi_snapshot inp) now fresh ks t ch grew = Some (t', ch', grew')"
    and "changes_ok inp w ver ch" and "\<forall>k \<in> set ks. volatile_at inp k"
    and "\<forall>k v. hm_get fresh k = Some v \<longrightarrow> v = an_storage w k"
  shows "changes_ok inp w (ver \<union> set ks) ch' \<and> fst ` set ch \<subseteq> fst ` set ch' \<and>
    (grew' \<longrightarrow> grew \<or> (\<exists>k \<in> set ks. an_storage w k \<noteq> snap_value (vi_snapshot inp) k)) \<and>
    (\<not> grew' \<longrightarrow> ch' = ch \<and> \<not> grew)"
  using assms
proof (induction ks arbitrary: ver t ch grew)
  case Nil
  then show ?case by auto
next
  case (Cons k ks)
  obtain a s where k: "k = (a, s)" by (cases k)
  from Cons.prems(1) obtain new where new: "hm_get fresh (a, s) = Some new"
    by (auto simp: k split: option.splits)
  let ?old = "snap_value (vi_snapshot inp) (a, s)"
  have w: "new = an_storage w (a, s)" using Cons.prems(4) new by blast
  have vol: "volatile_at inp (a, s)" "\<forall>k \<in> set ks. volatile_at inp k" using Cons.prems(3) by (simp_all add: k)
  show ?case
  proof (cases "new = ?old")
    case True
    then have "diff_and_observe (vi_snapshot inp) now fresh ks (snd (observe a s new now t)) ch grew = Some (t', ch', grew')"
      using Cons.prems(1) new by (simp add: k snap_value_def Let_def)
    from Cons.IH [OF this changes_ok_verify [OF Cons.prems(2) vol(1)] vol(2) Cons.prems(4)] True w
    show ?thesis by (auto simp: k)
  next
    case False
    let ?ch = "hm_insert (a, s) \<lparr>sc_address = a, sc_slot = s, sc_old = ?old, sc_new = new\<rparr> ch"
    have "diff_and_observe (vi_snapshot inp) now fresh ks (snd (observe a s new now t)) ?ch True = Some (t', ch', grew')"
      using Cons.prems(1) new False by (simp add: k snap_value_def Let_def)
    note IH = Cons.IH [OF this changes_ok_insert [OF Cons.prems(2) vol(1) w refl False] vol(2) Cons.prems(4)]
    moreover have "fst ` set ch \<subseteq> fst ` set ?ch"
      unfolding keys_hm_insert by blast
    ultimately show ?thesis using False w by (auto simp: k)
  qed
qed

lemma diff_and_observe_total:
  "\<forall>k \<in> set ks. hm_contains fresh k \<Longrightarrow> diff_and_observe sn now fresh ks t ch grew \<noteq> None"
proof (induction ks arbitrary: t ch grew)
  case (Cons k ks)
  then show ?case by (cases k) (auto simp: Let_def)
qed simp

end
