(* ===== verification/Freshness_Rounds.thy ===== *)
theory Freshness_Rounds
  imports Freshness_Laws
begin

text \<open>
  The validator's rounds: an execution on corrected state equals the execution in the world as soon as
  every volatile slot it read is corrected or confirmed, and the loop reaches that point or does not
  return a trusted verdict.
\<close>

section \<open>Corrected overlays\<close>

lemma override_fields [simp]:
  "ov_snapshot (override_slot a s v ov) = ov_snapshot ov" "ov_ext_db (override_slot a s v ov) = ov_ext_db ov"
  "ov_dirty_accounts (override_slot a s v ov) = ov_dirty_accounts ov"
  "ov_blockhash_zero_fallback (override_slot a s v ov) = ov_blockhash_zero_fallback ov"
  by (simp_all add: override_slot_def)

lemma overrides_fields:
  "ov_snapshot (fold (\<lambda>(a, s, v). override_slot a s v) os ov) = ov_snapshot ov"
  "ov_ext_db (fold (\<lambda>(a, s, v). override_slot a s v) os ov) = ov_ext_db ov"
  "ov_dirty_accounts (fold (\<lambda>(a, s, v). override_slot a s v) os ov) = ov_dirty_accounts ov"
  "ov_blockhash_zero_fallback (fold (\<lambda>(a, s, v). override_slot a s v) os ov) = ov_blockhash_zero_fallback ov"
  by (induction os arbitrary: ov) auto

lemma corrected_fields [simp]:
  "ov_snapshot (corrected_overlay sn os) = sn" "ov_ext_db (corrected_overlay sn os) = None"
  "ov_dirty_accounts (corrected_overlay sn os) = []" "\<not> ov_blockhash_zero_fallback (corrected_overlay sn os)"
  by (simp_all add: corrected_overlay_def overrides_fields) (simp_all add: overlay_new_def)

lemma dirty_code_Nil [simp]: "dirty_code [] h = None"
  by (simp add: dirty_code_def)

lemma corrected_none [simp]: "corrected_overlay sn [] = overlay_new sn None"
  by (simp add: corrected_overlay_def)

lemma dirty_slot_override:
  "dirty_slot (override_slot a s v ov) b t = (if (b, t) = (a, s) then Some v else dirty_slot ov b t)"
  by (auto simp: dirty_slot_def override_slot_def write_backend_slot_def hm_or_default_def split: option.splits)

lemma dirty_slot_overrides:
  "dirty_slot (fold (\<lambda>(a, s, v). override_slot a s v) os ov) b t =
     (case map_of (rev (map (\<lambda>(a, s, v). ((a, s), v)) os)) (b, t) of Some v \<Rightarrow> Some v | None \<Rightarrow> dirty_slot ov b t)"
proof (induction os rule: rev_induct)
  case (snoc x os)
  then show ?case by (cases x) (simp add: dirty_slot_override)
qed simp

lemma corrected_storage:
  assumes "corrections_ok w ch"
  shows "an_storage (offline_answers (corrected_overlay sn (override_list ch))) k =
    (if k \<in> fst ` set ch then an_storage w k else snap_value sn k)"
proof -
  let ?m = "rev (map (\<lambda>(a, s, v). ((a, s), v)) (override_list ch))"
  obtain a s where k: "k = (a, s)" by (cases k)
  have keys: "fst ` set ?m = fst ` set ch" and vals: "\<And>v. (k, v) \<in> set ?m \<Longrightarrow> v = an_storage w k"
    using assms by (force simp: override_list_def corrections_ok_def)+
  have "dirty_slot (corrected_overlay sn (override_list ch)) a s = map_of ?m k"
    unfolding corrected_overlay_def dirty_slot_overrides
    by (auto simp: k dirty_slot_def overlay_new_def split: option.splits)
  moreover have "map_of ?m k = (if k \<in> fst ` set ch then Some (an_storage w k) else None)"
  proof (cases "map_of ?m k")
    case None
    then show ?thesis using keys by (simp add: map_of_eq_None_iff)
  next
    case (Some v)
    from map_of_SomeD [OF this] have "(k, v) \<in> set ?m" .
    then show ?thesis using vals keys Some by force
  qed
  ultimately show ?thesis by (simp add: offline_answers_def k snap_value_def)
qed

section \<open>Executions\<close>

lemma build_evm_cong:
  "ov_snapshot ov = ov_snapshot ov' \<Longrightarrow> sn_timestamp (ov_snapshot ov) \<noteq> None \<or> secs = secs' \<Longrightarrow>
   build_evm_with_local secs ov = build_evm_with_local secs' ov'"
  by (auto simp: build_evm_with_local_def Let_def)

lemma offline_call:
  assumes "ov_ext_db ov = None"
  shows "call_raw_with_access_list_with ext evm secs (sr_from req) (sr_to req) (sr_calldata req) (sr_tx req) ov =
    (case build_tx evm (tx_of req) of
       Some e \<Rightarrow> (Err e, ov)
     | None \<Rightarrow>
         let x = eval_run (offline_answers ov) (transact_one evm (build_evm_with_local secs ov) (tx_of req))
         in (case fst x of
               Inl e \<Rightarrow> Err e
             | Inr (res, j) \<Rightarrow> Okay (res, fold (journal_step ext) j sal_empty),
             fold note_query (snd x) ov))"
  by (simp add: call_raw_with_access_list_with_def offline_run [OF assms] tx_of_def Let_def split: option.splits sum.splits)

text \<open>A result with its volatile read set, from an execution on the snapshot under the given corrections.\<close>

definition executed ::
  "revm_ext \<Rightarrow> revm_evm \<Rightarrow> validator_input \<Rightarrow> changed_map \<Rightarrow> sim_request \<Rightarrow> call_simulation_result
     \<Rightarrow> slot_key list \<Rightarrow> bool" where
  "executed ext evm inp ch req r reads \<longleftrightarrow>
     (\<exists>secs res access ov.
        call_raw_with_access_list_with ext evm secs (sr_from req) (sr_to req) (sr_calldata req) (sr_tx req)
          (corrected_overlay (vi_snapshot inp) (override_list ch)) = (Okay (res, access), ov) \<and>
        \<not> ov_blockhash_zero_fallback ov \<and> r = result_to_sim res (to_eip2930 access) \<and>
        reads = volatile_slots (vi_registry inp) (vi_now inp) access)"

lemma sim_on_secs: "sn_timestamp sn \<noteq> None \<Longrightarrow> sim_on ext evm secs sn w req = sim_on ext evm secs' sn w req"
proof -
  assume "sn_timestamp sn \<noteq> None"
  then have "build_evm_with_local secs (overlay_new sn None) = build_evm_with_local secs' (overlay_new sn None)"
    by (intro build_evm_cong) (simp_all add: overlay_new_def)
  then show ?thesis by (simp only: sim_on_def)
qed

lemma corrected_world:
  assumes "corrections_ok w ch" "world_of inp w"
  shows "world_of inp (offline_answers (corrected_overlay (vi_snapshot inp) (override_list ch)))"
  using assms(2) unfolding world_of_def corrected_storage [OF assms(1)]
  by (auto simp: offline_answers_def overlay_new_def)

lemma executed_in_world:
  assumes run: "executed ext evm inp ch req r reads" and ch: "corrections_ok w ch" and world: "world_of inp w"
    and fresh: "\<forall>k \<in> set reads. k \<in> fst ` set ch \<or> snap_value (vi_snapshot inp) k = an_storage w k"
  shows "right_in ext evm inp w req r"
proof -
  let ?sn = "vi_snapshot inp" and ?ov = "corrected_overlay (vi_snapshot inp) (override_list ch)"
  let ?w = "offline_answers ?ov"
  obtain secs res access ov where call:
    "call_raw_with_access_list_with ext evm secs (sr_from req) (sr_to req) (sr_calldata req) (sr_tx req) ?ov = (Okay (res, access), ov)"
    and hash: "\<not> ov_blockhash_zero_fallback ov" and r: "r = result_to_sim res (to_eip2930 access)"
    and reads: "reads = volatile_slots (vi_registry inp) (vi_now inp) access"
    using run by (auto simp: executed_def)
  let ?t = "transact_one evm (build_evm_with_local secs (overlay_new ?sn None)) (tx_of req)"
  have env: "build_evm_with_local secs ?ov = build_evm_with_local secs (overlay_new ?sn None)"
    by (intro build_evm_cong) (simp_all add: overlay_new_def)
  obtain j where tx: "build_tx evm (tx_of req) = None" and j: "fst (eval_run ?w ?t) = Inr (res, j)"
    and access: "access = fold (journal_step ext) j sal_empty" and ov: "ov = fold note_query (snd (eval_run ?w ?t)) ?ov"
    using call by (auto simp: offline_call env Let_def split: option.splits sum.splits prod.splits)
  have other: "same_answer ?w w q" if "q \<in> set (snd (eval_run ?w ?t))" "\<forall>a s. q \<noteq> QStorage a s" for q
  proof (cases q)
    case (QBlockHash n)
    then have "answerable ?ov (QBlockHash n)" using hash that unfolding ov fallback_notes by blast
    then show ?thesis using world by (auto simp: QBlockHash world_of_def offline_answers_def)
  qed (use that world in \<open>auto simp: world_of_def offline_answers_def overlay_new_def\<close>)
  have listed: "an_storage ?w k = an_storage w k" if "k \<in> set (sal_slots access)" for k
  proof -
    have "volatile_at inp k \<Longrightarrow> k \<in> set reads" using that by (auto simp: reads volatile_slots_def volatile_at_def)
    moreover have "\<not> volatile_at inp k \<Longrightarrow> snap_value ?sn k = an_storage w k"
      using world unfolding world_of_def by metis
    ultimately have "k \<in> fst ` set ch \<or> snap_value ?sn k = an_storage w k" using fresh by blast
    then show ?thesis by (auto simp: corrected_storage [OF ch])
  qed
  show ?thesis
  proof (cases "\<exists>a s. QStorage a s \<in> set (snd (eval_run ?w ?t)) \<and> an_storage ?w (a, s) \<noteq> an_storage w (a, s)")
    case True
    then obtain a s where as: "QStorage a s \<in> set (snd (eval_run ?w ?t))" "an_storage ?w (a, s) \<noteq> an_storage w (a, s)" by blast
    then have "(a, s) \<notin> set (sal_slots (fold (journal_step ext) j sal_empty))" using listed access by blast
    moreover have "eval_run ?w ?t = (Inr (res, j), snd (eval_run ?w ?t))" using j by (metis prod.collapse)
    moreover have "sim_on ext evm secs ?sn ?w req = Okay r" using tx j by (simp add: sim_on_def r access)
    ultimately have "hidden_read ext evm secs ?sn ?w w req r" using as unfolding hidden_read_def by blast
    moreover have "\<forall>k. an_storage ?w k = snap_value ?sn k \<or> an_storage ?w k = an_storage w k"
      by (simp add: corrected_storage [OF ch])
    ultimately show ?thesis using corrected_world [OF ch world] unfolding right_in_def by blast
  next
    case False
    have "same_answer ?w w q" if "q \<in> set (snd (eval_run ?w ?t))" for q
      using other [OF that] that False by (cases q) auto
    then have "eval_run w ?t = eval_run ?w ?t" by (intro eval_run_local) blast
    then have "sim_on ext evm secs ?sn w req = Okay r" using j tx by (simp add: sim_on_def r access)
    then show ?thesis unfolding right_in_def using sim_on_secs [of ?sn] by metis
  qed
qed

section \<open>One pass over the requests\<close>

text \<open>Before a pass every slot a current result read is verified; after it, confirmed, corrected or a candidate.\<close>

definition sim_ready ::
  "revm_ext \<Rightarrow> revm_evm \<Rightarrow> validator_input \<Rightarrow> answers \<Rightarrow> slot_key set \<Rightarrow> changed_map \<Rightarrow> rerun_state \<Rightarrow> nat \<Rightarrow> bool" where
  "sim_ready ext evm inp w ver ch rs j \<longleftrightarrow>
     (\<exists>ch0. corrections_ok w ch0 \<and> fst ` set ch0 \<subseteq> fst ` set ch \<and>
        executed ext evm inp ch0 (vi_requests inp ! j) (rs_results rs ! j) (rs_reads rs ! j) \<and>
        set (rs_reads rs ! j) \<subseteq> ver)"

definition sim_current ::
  "revm_ext \<Rightarrow> revm_evm \<Rightarrow> validator_input \<Rightarrow> answers \<Rightarrow> slot_key set \<Rightarrow> changed_map \<Rightarrow> rerun_state \<Rightarrow> nat \<Rightarrow> bool" where
  "sim_current ext evm inp w ver ch rs j \<longleftrightarrow>
     (\<exists>ch0. corrections_ok w ch0 \<and> fst ` set ch0 \<subseteq> fst ` set ch \<and>
        executed ext evm inp ch0 (vi_requests inp ! j) (rs_results rs ! j) (rs_reads rs ! j) \<and>
        (\<forall>k \<in> set (rs_reads rs ! j). k \<in> fst ` set ch0 \<or> k \<in> ver - fst ` set ch \<or> k \<in> set (rs_candidates rs)))"

definition sized :: "validator_input \<Rightarrow> rerun_state \<Rightarrow> bool" where
  "sized inp rs \<longleftrightarrow> length (rs_results rs) = length (vi_requests inp) \<and> length (rs_reads rs) = length (vi_requests inp)"

definition pass_inv ::
  "revm_ext \<Rightarrow> revm_evm \<Rightarrow> validator_input \<Rightarrow> answers \<Rightarrow> slot_key set \<Rightarrow> changed_map \<Rightarrow> nat \<Rightarrow> rerun_state \<Rightarrow> bool" where
  "pass_inv ext evm inp w ver ch i rs \<longleftrightarrow> sized inp rs \<and>
     (\<forall>j < length (vi_requests inp).
        if j < i then sim_current ext evm inp w ver ch rs j else sim_ready ext evm inp w ver ch rs j) \<and>
     (\<forall>k \<in> set (rs_candidates rs). volatile_at inp k \<and> k \<notin> ver) \<and> (rs_any_rerun rs \<or> rs_candidates rs = [])"

lemma untouched_current:
  "sim_ready ext evm inp w ver ch rs j \<Longrightarrow> \<not> list_ex (\<lambda>k. k \<in> set (map fst ch)) (rs_reads rs ! j) \<Longrightarrow>
   sim_current ext evm inp w ver ch rs j"
  unfolding sim_ready_def sim_current_def list_ex_iff set_map by blast

text \<open>The effect of one re-run on the pass.\<close>

definition rerun_result :: "validator_input \<Rightarrow> slot_key hashset \<Rightarrow> nat \<Rightarrow> execution_result \<Rightarrow> storage_access_list
     \<Rightarrow> rerun_state \<Rightarrow> rerun_state" where
  "rerun_result inp verified i result access rs =
     (let new_volatile = volatile_slots (vi_registry inp) (vi_now inp) access
      in \<lparr>rs_results = (rs_results rs)[i := result_to_sim result (to_eip2930 access)],
          rs_reads = (rs_reads rs)[i := new_volatile], rs_indices = List.insert i (rs_indices rs), rs_any_rerun = True,
          rs_candidates = hs_extend (rs_candidates rs) (filter (\<lambda>k. k \<notin> set verified) new_volatile)\<rparr>)"

lemma rerun_result_fields [simp]:
  "rs_results (rerun_result inp vl i res access rs) = (rs_results rs)[i := result_to_sim res (to_eip2930 access)]"
  "rs_reads (rerun_result inp vl i res access rs) = (rs_reads rs)[i := volatile_slots (vi_registry inp) (vi_now inp) access]"
  "rs_any_rerun (rerun_result inp vl i res access rs)"
  "set (rs_candidates (rerun_result inp vl i res access rs)) =
     set (rs_candidates rs) \<union> (set (volatile_slots (vi_registry inp) (vi_now inp) access) - set vl)"
  by (auto simp: rerun_result_def Let_def)

lemma ready_cong:
  "rs_results rs' ! j = rs_results rs ! j \<Longrightarrow> rs_reads rs' ! j = rs_reads rs ! j \<Longrightarrow>
   sim_ready ext evm inp w ver ch rs j \<Longrightarrow> sim_ready ext evm inp w ver ch rs' j"
  by (simp add: sim_ready_def)

lemma current_mono:
  assumes "rs_results rs' ! j = rs_results rs ! j" "rs_reads rs' ! j = rs_reads rs ! j"
    "set (rs_candidates rs) \<subseteq> set (rs_candidates rs')" "sim_current ext evm inp w ver ch rs j"
  shows "sim_current ext evm inp w ver ch rs' j"
proof -
  obtain ch0 where "corrections_ok w ch0" "fst ` set ch0 \<subseteq> fst ` set ch"
    "executed ext evm inp ch0 (vi_requests inp ! j) (rs_results rs ! j) (rs_reads rs ! j)"
    "\<forall>k \<in> set (rs_reads rs ! j). k \<in> fst ` set ch0 \<or> k \<in> ver - fst ` set ch \<or> k \<in> set (rs_candidates rs)"
    using assms(4) unfolding sim_current_def by blast
  with assms(1-3) show ?thesis unfolding sim_current_def by (intro exI [of _ ch0]) auto
qed

lemma rerun_result_other:
  assumes "j \<noteq> i"
  shows "sim_ready ext evm inp w ver ch rs j \<Longrightarrow> sim_ready ext evm inp w ver ch (rerun_result inp vl i res access rs) j"
    and "sim_current ext evm inp w ver ch rs j \<Longrightarrow> sim_current ext evm inp w ver ch (rerun_result inp vl i res access rs) j"
  using assms by (auto intro: ready_cong [of _ j rs] current_mono [of _ j rs])

lemma rerun_result_pass:
  assumes inv: "pass_inv ext evm inp w (set verified) ch i rs" and "i < length (vi_requests inp)" "corrections_ok w ch"
    and call: "call_raw_with_access_list_with ext evm secs (sr_from req) (sr_to req) (sr_calldata req) (sr_tx req)
      (corrected_overlay (vi_snapshot inp) (override_list ch)) = (Inr (res, access), ov)"
    and "req = vi_requests inp ! i" "\<not> ov_blockhash_zero_fallback ov"
  shows "pass_inv ext evm inp w (set verified) ch (i + 1) (rerun_result inp verified i res access rs)"
proof -
  let ?rs = "rerun_result inp verified i res access rs"
  have sized: "sized inp ?rs" using inv by (simp add: pass_inv_def sized_def)
  have "executed ext evm inp ch req (rs_results ?rs ! i) (rs_reads ?rs ! i)"
    using call assms(2,6) inv by (auto simp: executed_def pass_inv_def sized_def)
  then have here: "sim_current ext evm inp w (set verified) ch ?rs i"
    unfolding sim_current_def using assms(2,3,5) inv
    by (intro exI [of _ ch]) (auto simp: pass_inv_def sized_def)
  have "if j < i + 1 then sim_current ext evm inp w (set verified) ch ?rs j else sim_ready ext evm inp w (set verified) ch ?rs j"
    if "j < length (vi_requests inp)" for j
    using inv that here rerun_result_other [of j i] unfolding pass_inv_def by (cases "j = i") (auto split: if_splits)
  moreover have "\<forall>k \<in> set (rs_candidates ?rs). volatile_at inp k \<and> k \<notin> set verified"
    using inv by (auto simp: pass_inv_def volatile_slots_def volatile_at_def)
  ultimately show ?thesis using sized unfolding pass_inv_def by simp
qed

lemma rerun_affected_ok:
  assumes "rerun_affected ext evm clk inp (map fst ch) (override_list ch) verified i reqs rs = Some (Okay rs')"
    and "reqs = drop i (vi_requests inp)" and "corrections_ok w ch" and "pass_inv ext evm inp w (set verified) ch i rs"
  shows "pass_inv ext evm inp w (set verified) ch (length (vi_requests inp)) rs'"
  using assms
proof (induction reqs arbitrary: i rs)
  case Nil
  then have "length (vi_requests inp) \<le> i" by simp
  then show ?case using Nil by (auto simp: pass_inv_def)
next
  case (Cons req reqs)
  then have i: "i < length (vi_requests inp)" by (metis drop_eq_Nil linorder_not_le list.distinct(1))
  with Cons.prems(2) have req: "req = vi_requests inp ! i" "reqs = drop (i + 1) (vi_requests inp)"
    by (simp_all add: Cons_nth_drop_Suc [symmetric])
  show ?case
  proof (cases "list_ex (\<lambda>k. k \<in> set (map fst ch)) (rs_reads rs ! i)")
    case False
    then have "sim_current ext evm inp w (set verified) ch rs i"
      using Cons.prems(4) i by (auto simp: pass_inv_def intro!: untouched_current)
    then have "pass_inv ext evm inp w (set verified) ch (i + 1) rs"
      using Cons.prems(4) by (auto simp: pass_inv_def less_Suc_eq split: if_splits)
    moreover have "rerun_affected ext evm clk inp (map fst ch) (override_list ch) verified (i + 1) reqs rs = Some (Okay rs')"
      using Cons.prems(1) False by (simp split: if_splits)
    ultimately show ?thesis using Cons.IH req(2) Cons.prems(3) by blast
  next
    case True
    obtain res access ov where call: "call_raw_with_access_list_with ext evm (clk i) (sr_from req) (sr_to req) (sr_calldata req)
        (sr_tx req) (corrected_overlay (vi_snapshot inp) (override_list ch)) = (Inr (res, access), ov)"
      and hash: "\<not> ov_blockhash_zero_fallback ov"
      and rest: "rerun_affected ext evm clk inp (map fst ch) (override_list ch) verified (i + 1) reqs
        (rerun_result inp verified i res access rs) = Some (Okay rs')"
      using Cons.prems(1) True
      by (auto simp: rerun_result_def Let_def split: if_splits prod.splits sum.splits)
    from rest req(2) Cons.prems(3) rerun_result_pass [OF Cons.prems(4) i Cons.prems(3) call req(1) hash]
    show ?thesis by (rule Cons.IH)
  qed
qed

end
