(* ===== verification/Freshness_Loop.thy ===== *)
theory Freshness_Loop
  imports Freshness_Rounds
begin

text \<open>
  The whole loop of \<open>run_validator\<close>: soundness of its verdicts, their effects on the shared cells, and that
  it always returns.
\<close>

section \<open>Soundness of the loop\<close>

text \<open>What a verdict says of the world, and what it did to the shared cells.\<close>

definition verdict_ok ::
  "revm_ext \<Rightarrow> revm_evm \<Rightarrow> validator_input \<Rightarrow> answers \<Rightarrow> validation \<Rightarrow> bool" where
  "verdict_ok ext evm inp w v \<longleftrightarrow>
     (case v of
        Corrected rs chs accs \<Rightarrow>
          accs = [] \<and> list_all2 (right_in ext evm inp w) (vi_requests inp) rs \<and>
          (\<exists>ver ch. changes_ok inp w ver ch \<and> chs = map snd ch)
      | ConfirmedFull \<Rightarrow> False
      | _ \<Rightarrow> True)"

definition queues_only_corrections :: "shared \<Rightarrow> validation \<Rightarrow> shared \<Rightarrow> bool" where
  "queues_only_corrections sh v sh' \<longleftrightarrow>
     (case v of
        Corrected rs chs accs \<Rightarrow> sh_pending sh' = sh_pending sh @ chs
      | _ \<Rightarrow> sh_pending sh' = sh_pending sh \<and> sh_rerun_count sh' = sh_rerun_count sh)"

lemma queues_ignore_tracker: "queues_only_corrections (sh\<lparr>sh_tracker := t\<rparr>) v sh' = queues_only_corrections sh v sh'"
  by (cases v) (simp_all add: queues_only_corrections_def)

lemma current_in_world:
  assumes "sim_current ext evm inp w ver ch rs j" "changes_ok inp w ver ch" "j < length (vi_requests inp)"
    and "world_of inp w"
    and "\<forall>k \<in> set (rs_candidates rs). snap_value (vi_snapshot inp) k = an_storage w k"
  shows "right_in ext evm inp w (vi_requests inp ! j) (rs_results rs ! j)"
proof -
  obtain ch0 where ch0: "corrections_ok w ch0"
    "executed ext evm inp ch0 (vi_requests inp ! j) (rs_results rs ! j) (rs_reads rs ! j)"
    "\<forall>k \<in> set (rs_reads rs ! j). k \<in> fst ` set ch0 \<or> k \<in> ver - fst ` set ch \<or> k \<in> set (rs_candidates rs)"
    using assms(1) unfolding sim_current_def by blast
  have "\<forall>k \<in> set (rs_reads rs ! j). k \<in> fst ` set ch0 \<or> snap_value (vi_snapshot inp) k = an_storage w k"
    using ch0(3) assms(2,5) unfolding changes_ok_def by blast
  with executed_in_world [OF ch0(2,1) assms(4)] assms(3) show ?thesis by simp
qed

lemma finish_ok:
  assumes "pass_inv ext evm inp w ver ch (length (vi_requests inp)) rs" "changes_ok inp w ver ch"
    and "world_of inp w"
    and "\<forall>k \<in> set (rs_candidates rs). snap_value (vi_snapshot inp) k = an_storage w k"
  shows "verdict_ok ext evm inp w (fst (finish_corrected rs ch sh)) \<and>
    queues_only_corrections sh (fst (finish_corrected rs ch sh)) (snd (finish_corrected rs ch sh))"
proof -
  have "right_in ext evm inp w (vi_requests inp ! j) (rs_results rs ! j)"
    if "j < length (vi_requests inp)" for j
    using current_in_world [OF _ assms(2) that assms(3,4)] assms(1) that by (simp add: pass_inv_def)
  then have "list_all2 (right_in ext evm inp w) (vi_requests inp) (rs_results rs)"
    using assms(1) by (simp add: list_all2_conv_all_nth pass_inv_def sized_def)
  then show ?thesis using assms(2)
    by (auto simp: finish_corrected_def verdict_ok_def queues_only_corrections_def Let_def)
qed

lemma ready_of_current:
  assumes "sim_current ext evm inp w ver ch rs j" "changes_ok inp w ver ch" "fst ` set ch \<subseteq> fst ` set ch'"
    and "set (rs_candidates rs) \<union> ver \<subseteq> ver'"
  shows "sim_ready ext evm inp w ver' ch' rs j"
proof -
  obtain ch0 where ch0: "corrections_ok w ch0" "fst ` set ch0 \<subseteq> fst ` set ch"
    "executed ext evm inp ch0 (vi_requests inp ! j) (rs_results rs ! j) (rs_reads rs ! j)"
    and reads: "\<forall>k \<in> set (rs_reads rs ! j). k \<in> fst ` set ch0 \<or> k \<in> ver - fst ` set ch \<or> k \<in> set (rs_candidates rs)"
    using assms(1) unfolding sim_current_def by blast
  have "fst ` set ch \<subseteq> ver" using assms(2) by (simp add: changes_ok_def)
  then have "fst ` set ch0 \<subseteq> ver'" using ch0(2) assms(4) by blast
  with reads assms(4) have "set (rs_reads rs ! j) \<subseteq> ver'" by blast
  with ch0 order_trans [OF ch0(2) assms(3)] show ?thesis unfolding sim_ready_def by blast
qed

lemma unchanged_confirmed:
  assumes "changes_ok inp w (ver \<union> C) ch" "changes_ok inp w ver ch" "\<forall>k \<in> C. volatile_at inp k \<and> k \<notin> ver"
  shows "\<forall>k \<in> C. snap_value (vi_snapshot inp) k = an_storage w k"
proof
  fix k assume k: "k \<in> C"
  have "fst ` set ch \<subseteq> ver" using assms(2) by (simp add: changes_ok_def)
  with k assms(3) have "k \<notin> fst ` set ch" by blast
  with k assms(1) show "snap_value (vi_snapshot inp) k = an_storage w k" by (simp add: changes_ok_def)
qed

lemma loop_start:
  assumes "sized inp rs" "\<forall>j < length (vi_requests inp). sim_ready ext evm inp w ver ch rs j"
  shows "pass_inv ext evm inp w ver ch 0 (rs\<lparr>rs_any_rerun := False, rs_candidates := []\<rparr>)"
  using assms by (auto simp: pass_inv_def sized_def intro: ready_cong [of _ _ rs])

text \<open>The invariant at the head of the loop.\<close>

definition loop_inv :: "revm_ext \<Rightarrow> revm_evm \<Rightarrow> validator_input \<Rightarrow> answers \<Rightarrow> changed_map \<Rightarrow> slot_key list \<Rightarrow> rerun_state \<Rightarrow> bool" where
  "loop_inv ext evm inp w ch verified rs \<longleftrightarrow> changes_ok inp w (set verified) ch \<and> sized inp rs \<and>
     (\<forall>j < length (vi_requests inp). sim_ready ext evm inp w (set verified) ch rs j)"

lemma pass_of_loop:
  assumes "rerun_affected ext evm clk inp (map fst ch) (override_list ch) verified 0 (vi_requests inp)
      (rs\<lparr>rs_any_rerun := False, rs_candidates := []\<rparr>) = Some (Okay rs')"
    and "loop_inv ext evm inp w ch verified rs"
  shows "pass_inv ext evm inp w (set verified) ch (length (vi_requests inp)) rs'"
  by (rule rerun_affected_ok [OF assms(1) _ _ loop_start]) (use assms(2) in \<open>auto simp: loop_inv_def changes_ok_def\<close>)

lemma fetched_round:
  assumes results: "fetcher ks (vi_validation_block inp) = Some results" and "collect_fetch_results ks results = Okay fresh"
    and "diff_and_observe (vi_snapshot inp) now fresh ks t ch False = Some (t', ch', grew)"
    and "honest_storage fetcher (vi_validation_block inp) w" "changes_ok inp w ver ch" "\<forall>k \<in> set ks. volatile_at inp k"
  shows "changes_ok inp w (ver \<union> set ks) ch' \<and> fst ` set ch \<subseteq> fst ` set ch' \<and>
    (\<not> grew \<longrightarrow> ch' = ch)"
proof -
  have "\<forall>k v. hm_get fresh k = Some v \<longrightarrow> v = an_storage w k"
    using collect_fetch_ok(2) [OF assms(2)] assms(4) results unfolding honest_storage_def by force
  from diff_and_observe_ok [OF assms(3,5,6) this] show ?thesis by blast
qed

lemma apfst_Some_eq [simp]: "apfst Some x = (Some v, y) \<longleftrightarrow> x = (v, y)" "apfst Some x \<noteq> (None, y)"
  by (cases x; simp)+

lemma validator_loop_cases:
  assumes "validator_loop ext evm clock cancelled fetcher inp rnd ch verified rs sh = (Some v, sh')"
  obtains (stop) "(\<exists>e. v = Unverified e) \<or> v = ConfirmedStorage \<and> cancelled (3 + rnd)" "sh' = sh"
  | (pass) rs' where "rerun_affected ext evm (clock rnd) inp (map fst ch) (override_list ch) verified 0 (vi_requests inp)
        (rs\<lparr>rs_any_rerun := False, rs_candidates := []\<rparr>) = Some (Okay rs')"
      "\<not> rs_any_rerun rs' \<or> rs_candidates rs' = []" "(v, sh') = finish_corrected rs' ch sh"
  | (fetch) rs' results fresh t ch' grew where "rerun_affected ext evm (clock rnd) inp (map fst ch) (override_list ch) verified 0
        (vi_requests inp) (rs\<lparr>rs_any_rerun := False, rs_candidates := []\<rparr>) = Some (Okay rs')"
      "rnd < max_validation_rounds"
      "fetcher (rs_candidates rs') (vi_validation_block inp) = Some results" "collect_fetch_results (rs_candidates rs') results = Okay fresh"
      "diff_and_observe (vi_snapshot inp) (vi_now inp) fresh (rs_candidates rs') (sh_tracker sh) ch False = Some (t, ch', grew)"
      "if grew then validator_loop ext evm clock cancelled fetcher inp (rnd + 1) ch'
          (hs_extend verified (rs_candidates rs')) rs' (sh\<lparr>sh_tracker := t\<rparr>) = (Some v, sh')
       else (v, sh') = finish_corrected rs' ch' (sh\<lparr>sh_tracker := t\<rparr>)"
  using assms [unfolded validator_loop.simps [of ext evm clock cancelled fetcher inp rnd ch verified rs sh]]
  by (auto split: option.splits sum.splits if_splits prod.splits)

lemma validator_loop_sound:
  assumes "validator_loop ext evm clock cancelled fetcher inp rnd ch verified rs sh = (Some v, sh')"
    and honest: "honest_storage fetcher (vi_validation_block inp) w" and world: "world_of inp w"
    and "loop_inv ext evm inp w ch verified rs"
  shows "verdict_ok ext evm inp w v \<and> queues_only_corrections sh v sh'"
  using assms(1,4)
proof (induction "max_validation_rounds - rnd" arbitrary: rnd ch verified rs sh rule: less_induct)
  case less
  note fin = finish_ok [OF _ _ world]
  from less.prems(1) show ?case
  proof (cases rule: validator_loop_cases)
    case (pass rs')
    have inv: "pass_inv ext evm inp w (set verified) ch (length (vi_requests inp)) rs'"
      by (rule pass_of_loop [OF pass(1) less.prems(2)])
    with pass(2) have "rs_candidates rs' = []" by (auto simp: pass_inv_def)
    with fin [OF inv] less.prems(2) pass(3) show ?thesis by (metis empty_iff empty_set fst_conv loop_inv_def snd_conv)
  next
    case (fetch rs' results fresh t ch' grew)
    have inv: "pass_inv ext evm inp w (set verified) ch (length (vi_requests inp)) rs'"
      by (rule pass_of_loop [OF fetch(1) less.prems(2)])
    have ch: "changes_ok inp w (set verified) ch" using less.prems(2) by (simp add: loop_inv_def)
    have vol: "\<forall>k \<in> set (rs_candidates rs'). volatile_at inp k" using inv by (simp add: pass_inv_def)
    from fetched_round [OF fetch(3,4,5) honest ch vol]
    have ch': "changes_ok inp w (set verified \<union> set (rs_candidates rs')) ch'" "fst ` set ch \<subseteq> fst ` set ch'" "\<not> grew \<Longrightarrow> ch' = ch"
      by blast+
    show ?thesis
    proof (cases grew)
      case False
      then have "\<forall>k \<in> set (rs_candidates rs'). snap_value (vi_snapshot inp) k = an_storage w k"
        using ch' inv by (intro unchanged_confirmed [OF _ ch]) (simp_all add: pass_inv_def)
      with fin [OF inv ch this, of "sh\<lparr>sh_tracker := t\<rparr>"] fetch(6) False ch'(3) show ?thesis
        by (metis (full_types) fst_conv queues_ignore_tracker snd_conv)
    next
      case True
      have "sized inp rs'" "\<forall>j < length (vi_requests inp). sim_current ext evm inp w (set verified) ch rs' j"
        using inv by (simp_all add: pass_inv_def)
      then have "loop_inv ext evm inp w ch' (hs_extend verified (rs_candidates rs')) rs'"
        using ch'(1,2) ch ready_of_current [OF _ ch ch'(2), of _ _ rs' _ "set verified \<union> set (rs_candidates rs')"]
        by (simp add: loop_inv_def)
      moreover have "max_validation_rounds - (rnd + 1) < max_validation_rounds - rnd" using fetch(2) by simp
      ultimately show ?thesis
        using less.hyps [of "rnd + 1" ch' "hs_extend verified (rs_candidates rs')" rs' "sh\<lparr>sh_tracker := t\<rparr>"] fetch(6) True
        by (simp add: queues_ignore_tracker)
    qed
  qed (auto simp: verdict_ok_def queues_only_corrections_def)
qed

section \<open>The whole validator\<close>

lemma loop_never_confirms:
  assumes "validator_loop ext evm clock cancelled fetcher inp rnd ch verified rs sh = (Some ConfirmedStorage, sh')"
  shows "\<exists>j. cancelled j"
  using assms
proof (induction "max_validation_rounds - rnd" arbitrary: rnd ch verified rs sh rule: less_induct)
  case less
  from less.prems show ?case
  proof (cases rule: validator_loop_cases)
    case (fetch rs' results fresh t ch' grew)
    then show ?thesis using less.hyps [of "rnd + 1"] by (auto simp: finish_corrected_def Let_def split: if_splits)
  qed (auto simp: finish_corrected_def Let_def)
qed

lemma set_verify_slots:
  "set (verify_slots_of inp) = {k \<in> set (vi_verify_set inp) \<union> \<Union> (set ` set (vi_read_sets inp)). volatile_at inp k}"
proof -
  have "set (fold (\<lambda>set acc. hs_extend acc set) rss acc) = set acc \<union> \<Union> (set ` set rss)" for rss :: "slot_key list list" and acc
    by (induction rss arbitrary: acc) auto
  then show ?thesis by (auto simp: verify_slots_of_def volatile_at_def)
qed

text \<open>An input whose results come from executions on the bare snapshot.\<close>

definition input_ok :: "revm_ext \<Rightarrow> revm_evm \<Rightarrow> validator_input \<Rightarrow> bool" where
  "input_ok ext evm inp \<longleftrightarrow>
     length (vi_optimistic inp) = length (vi_requests inp) \<and> length (vi_read_sets inp) = length (vi_requests inp) \<and>
     (vi_blockhash_readers inp = [] \<longrightarrow>
       (\<forall>j < length (vi_requests inp).
          executed ext evm inp [] (vi_requests inp ! j) (vi_optimistic inp ! j) (vi_read_sets inp ! j)))"

lemma input_reads:
  assumes "input_ok ext evm inp" "vi_blockhash_readers inp = []" "j < length (vi_requests inp)"
  shows "set (vi_read_sets inp ! j) \<subseteq> set (verify_slots_of inp)"
proof -
  have "\<forall>k \<in> set (vi_read_sets inp ! j). volatile_at inp k"
    using assms by (auto simp: input_ok_def executed_def volatile_slots_def volatile_at_def)
  moreover have "vi_read_sets inp ! j \<in> set (vi_read_sets inp)" using assms by (simp add: input_ok_def)
  ultimately show ?thesis unfolding set_verify_slots by blast
qed

lemma corrections_Nil [simp]: "corrections_ok w []"
  by (simp add: corrections_ok_def)

lemma optimistic_in_world:
  assumes "input_ok ext evm inp" "vi_blockhash_readers inp = []"
    and "world_of inp w"
    and "\<forall>k \<in> set (verify_slots_of inp). snap_value (vi_snapshot inp) k = an_storage w k"
  shows "list_all2 (right_in ext evm inp w) (vi_requests inp) (vi_optimistic inp)"
proof -
  have "right_in ext evm inp w (vi_requests inp ! j) (vi_optimistic inp ! j)"
    if "j < length (vi_requests inp)" for j
  proof (rule executed_in_world [OF _ corrections_Nil assms(3)])
    show "executed ext evm inp [] (vi_requests inp ! j) (vi_optimistic inp ! j) (vi_read_sets inp ! j)"
      using assms(1,2) that by (simp add: input_ok_def)
    show "\<forall>k \<in> set (vi_read_sets inp ! j). k \<in> fst ` set [] \<or> snap_value (vi_snapshot inp) k = an_storage w k"
      using input_reads [OF assms(1,2) that] assms(4) by blast
  qed
  then show ?thesis using assms(1) by (simp add: list_all2_conv_all_nth input_ok_def)
qed

text \<open>The state at the head of the loop.\<close>

definition first_state :: "validator_input \<Rightarrow> rerun_state" where
  "first_state inp = \<lparr>rs_results = vi_optimistic inp, rs_reads = vi_read_sets inp, rs_indices = [],
     rs_any_rerun = False, rs_candidates = []\<rparr>"

lemma run_validator_cases:
  assumes "run_validator ext evm clock cancelled inp sh = (Some v, sh')"
  obtains (unverified) e where "v = Unverified e" "sh' = sh"
  | (cancelled) j where "j \<le> 2" "cancelled j" "v = ConfirmedStorage" "sh' = sh"
  | (nothing) "vi_blockhash_readers inp = []" "verify_slots_of inp = []" "v = ConfirmedStorage" "sh' = sh"
  | (fetched) f results fresh t ch grew where "vi_blockhash_readers inp = []" "vi_fetcher inp = Some f"
      "\<not> cancelled 0" "\<not> cancelled 1" "\<not> cancelled 2"
      "f (verify_slots_of inp) (vi_validation_block inp) = Some results" "collect_fetch_results (verify_slots_of inp) results = Okay fresh"
      "diff_and_observe (vi_snapshot inp) (vi_now inp) fresh (verify_slots_of inp) (sh_tracker sh) [] False = Some (t, ch, grew)"
      "if ch = [] then v = ConfirmedStorage \<and> sh' = sh\<lparr>sh_tracker := t\<rparr>
       else validator_loop ext evm clock cancelled f inp 0 ch (verify_slots_of inp) (first_state inp) (sh\<lparr>sh_tracker := t\<rparr>) = (Some v, sh')"
  using assms that(2) [of "Suc 0"]
  by (auto simp: run_validator_def Let_def first_state_def split: list.splits sum.splits option.splits if_splits)

lemma first_loop_inv:
  assumes inp: "input_ok ext evm inp" "vi_blockhash_readers inp = []" and ch: "changes_ok inp w (set (verify_slots_of inp)) ch"
  shows "loop_inv ext evm inp w ch (verify_slots_of inp) (first_state inp)"
proof -
  have "sim_ready ext evm inp w (set (verify_slots_of inp)) ch (first_state inp) j" if "j < length (vi_requests inp)" for j
    unfolding sim_ready_def using inp input_reads [OF inp that] that
    by (intro exI [of _ "[]"]) (simp add: input_ok_def first_state_def)
  then show ?thesis using ch inp by (simp add: loop_inv_def sized_def input_ok_def first_state_def)
qed

lemma run_validator_sound:
  assumes run: "run_validator ext evm clock (\<lambda>_. False) inp sh = (Some v, sh')" and inp: "input_ok ext evm inp"
    and honest: "\<forall>f. vi_fetcher inp = Some f \<longrightarrow> honest_storage f (vi_validation_block inp) w" and world: "world_of inp w"
  shows "verdict_ok ext evm inp w v \<and> (v = ConfirmedStorage \<longrightarrow>
    list_all2 (right_in ext evm inp w) (vi_requests inp) (vi_optimistic inp))"
  using run
proof (cases rule: run_validator_cases)
  case nothing
  then show ?thesis using optimistic_in_world [OF inp _ world] by (simp add: verdict_ok_def)
next
  case (fetched f results fresh t ch grew)
  have f: "honest_storage f (vi_validation_block inp) w" using honest fetched(2) by blast
  have "changes_ok inp w {} []" by (simp add: changes_ok_def)
  then have ch: "changes_ok inp w (set (verify_slots_of inp)) ch"
    using fetched_round [where fetcher = f, OF fetched(6,7,8) f, of "{}"] by (simp add: set_verify_slots)
  show ?thesis
  proof (cases "ch = []")
    case True
    then have "\<forall>k \<in> set (verify_slots_of inp). snap_value (vi_snapshot inp) k = an_storage w k" using ch by (simp add: changes_ok_def)
    then show ?thesis using optimistic_in_world [OF inp fetched(1) world] fetched(9) True by (simp add: verdict_ok_def)
  next
    case False
    then have loop: "validator_loop ext evm clock (\<lambda>_. False) f inp 0 ch (verify_slots_of inp) (first_state inp)
        (sh\<lparr>sh_tracker := t\<rparr>) = (Some v, sh')" using fetched by simp
    have "verdict_ok ext evm inp w v"
      using validator_loop_sound [OF loop f world first_loop_inv [OF inp fetched(1) ch]] by blast
    moreover have "v \<noteq> ConfirmedStorage" using loop_never_confirms loop by blast
    ultimately show ?thesis by blast
  qed
qed (simp_all add: verdict_ok_def)

end
