(* ===== verification/Freshness_Control.thy ===== *)
theory Freshness_Control
  imports Freshness_Loop
begin

text \<open>
  The validator's effects on the shared cells and its totality, and the link from the controller's \<open>run\<close>
  to the validator's input.
\<close>

section \<open>Effects\<close>

definition change_key :: "slot_change \<Rightarrow> slot_key" where
  "change_key ch = (sc_address ch, sc_slot ch)"

definition keyed :: "changed_map \<Rightarrow> bool" where
  "keyed ch \<longleftrightarrow> hm_ok ch \<and> (\<forall>(k, c) \<in> set ch. k = change_key c)"

lemma keyed_distinct: "keyed ch \<Longrightarrow> distinct (map change_key (map snd ch))"
proof -
  assume "keyed ch"
  then have "map change_key (map snd ch) = map fst ch" by (auto simp: keyed_def)
  then show "distinct (map change_key (map snd ch))"
    using \<open>keyed ch\<close> unfolding keyed_def hm_ok_def by metis
qed

lemma diff_keyed:
  assumes "diff_and_observe sn now fresh ks t ch grew = Some (t', ch', grew')" "keyed ch"
  shows "keyed ch' \<and> (ch \<noteq> [] \<longrightarrow> ch' \<noteq> [])"
  using assms
proof (induction ks arbitrary: t ch grew)
  case (Cons k ks)
  obtain a s where k: "k = (a, s)" by (cases k)
  have "keyed (hm_insert (a, s) \<lparr>sc_address = a, sc_slot = s, sc_old = old, sc_new = new\<rparr> ch)" for old new
    using Cons.prems(2) by (auto simp: keyed_def set_hm_insert change_key_def)
  moreover have "hm_insert k c ch \<noteq> []" for c by (cases ch) auto
  ultimately show ?case
    using Cons.prems Cons.IH by (auto simp: k Let_def split: option.splits if_splits)
qed simp

lemma rerun_indices:
  assumes "rerun_affected ext evm clk inp ck os verified i reqs rs = Some (Okay rs')" "distinct (rs_indices rs)"
  shows "distinct (rs_indices rs') \<and> set (rs_indices rs') \<subseteq> set (rs_indices rs) \<union> {i..<i + length reqs}"
  using assms
proof (induction reqs arbitrary: i rs)
  case (Cons req reqs)
  then show ?case
    by (fastforce simp: Let_def distinct_insert split: if_splits prod.splits sum.splits)
qed simp

definition counts_distinct :: "validator_input \<Rightarrow> shared \<Rightarrow> validation \<Rightarrow> shared \<Rightarrow> bool" where
  "counts_distinct inp sh v sh' \<longleftrightarrow>
     (\<forall>rs chs accs. v = Corrected rs chs accs \<longrightarrow> chs \<noteq> [] \<and> distinct (map change_key chs) \<and>
        sh_rerun_count sh' \<le> sh_rerun_count sh + length (vi_requests inp))"

lemma finish_effects:
  assumes "keyed ch" "ch \<noteq> []" "distinct (rs_indices rs)" "set (rs_indices rs) \<subseteq> {..<length (vi_requests inp)}"
    and "(v, sh') = finish_corrected rs ch (sh\<lparr>sh_tracker := t\<rparr>)"
  shows "queues_only_corrections sh v sh' \<and> counts_distinct inp sh v sh'"
proof -
  have "length (rs_indices rs) \<le> length (vi_requests inp)"
    using card_mono [OF _ assms(4)] distinct_card [OF assms(3)] by simp
  then show ?thesis using assms(2,5) keyed_distinct [OF assms(1)]
    by (simp add: finish_corrected_def Let_def queues_only_corrections_def counts_distinct_def)
qed

lemma loop_effects:
  assumes "validator_loop ext evm clock cancelled fetcher inp rnd ch verified rs sh = (Some v, sh')"
    and "keyed ch" "ch \<noteq> []" "distinct (rs_indices rs)" "set (rs_indices rs) \<subseteq> {..<length (vi_requests inp)}"
  shows "queues_only_corrections sh v sh' \<and> counts_distinct inp sh v sh'"
  using assms
proof (induction "max_validation_rounds - rnd" arbitrary: rnd ch verified rs sh rule: less_induct)
  case less
  have ix: "distinct (rs_indices rs') \<and> set (rs_indices rs') \<subseteq> {..<length (vi_requests inp)}"
    if "rerun_affected ext evm (clock rnd) inp (map fst ch) (override_list ch) verified 0 (vi_requests inp)
        (rs\<lparr>rs_any_rerun := False, rs_candidates := []\<rparr>) = Some (Okay rs')" for rs'
    using rerun_indices [OF that] less.prems(4,5) by auto
  from less.prems(1) show ?case
  proof (cases rule: validator_loop_cases)
    case stop
    then show ?thesis by (auto simp: queues_only_corrections_def counts_distinct_def)
  next
    case (pass rs')
    then show ?thesis
      using finish_effects [OF less.prems(2,3), of rs' inp v sh' "sh_tracker sh" sh] ix [OF pass(1)] by simp
  next
    case (fetch rs' results fresh t ch' grew)
    have "keyed ch'" "ch' \<noteq> []" using diff_keyed [OF fetch(5)] less.prems(2,3) by blast+
    moreover have "max_validation_rounds - (rnd + 1) < max_validation_rounds - rnd" using fetch(2) by simp
    ultimately show ?thesis
      using fetch(6) ix [OF fetch(1)] less.hyps [of "rnd + 1" ch' "hs_extend verified (rs_candidates rs')" rs' "sh\<lparr>sh_tracker := t\<rparr>"]
        finish_effects [of ch' rs' inp v sh' t sh]
      by (cases grew) (simp_all add: queues_ignore_tracker counts_distinct_def)
  qed
qed

lemma queues_same: "queues_only_corrections sh ConfirmedStorage (sh\<lparr>sh_tracker := t\<rparr>)"
  by (simp add: queues_only_corrections_def)

lemma run_validator_effects:
  assumes "run_validator ext evm clock cancelled inp sh = (Some v, sh')"
  shows "queues_only_corrections sh v sh' \<and> counts_distinct inp sh v sh'"
  using assms
proof (cases rule: run_validator_cases)
  case (fetched f results fresh t ch grew)
  have "keyed ch" using diff_keyed [OF fetched(8)] by (simp add: keyed_def)
  then show ?thesis
    using fetched(9) loop_effects [of ext evm clock cancelled f inp 0 ch "verify_slots_of inp" "first_state inp" "sh\<lparr>sh_tracker := t\<rparr>"]
    by (cases "ch = []") (auto simp: first_state_def counts_distinct_def queues_ignore_tracker intro: queues_same)
qed (auto simp: queues_only_corrections_def counts_distinct_def)

section \<open>Totality\<close>

lemma rerun_total:
  assumes "sized inp rs" "i + length reqs = length (vi_requests inp)"
  shows "\<exists>x. rerun_affected ext evm clk inp ck os verified i reqs rs = Some x \<and> (\<forall>rs'. x = Okay rs' \<longrightarrow> sized inp rs')"
  using assms
proof (induction reqs arbitrary: i rs)
  case (Cons req reqs)
  have step: "sized inp \<lparr>rs_results = (rs_results rs)[i := r], rs_reads = (rs_reads rs)[i := ks], rs_indices = ix, rs_any_rerun = b,
      rs_candidates = cs\<rparr>" for r ks ix b cs
    using Cons.prems(1) by (simp add: sized_def)
  have "\<not> length (rs_reads rs) \<le> i" "\<not> length (rs_results rs) \<le> i" using Cons.prems by (simp_all add: sized_def)
  then show ?case using Cons.IH [OF Cons.prems(1), of "i + 1"] Cons.IH [OF step, of "i + 1"] Cons.prems(2)
    by (auto simp: Let_def split: prod.splits sum.splits)
qed simp

lemma fetched_diff_total:
  "collect_fetch_results ks rs = Okay fresh \<Longrightarrow> diff_and_observe sn now fresh ks t ch grew = None \<Longrightarrow> False"
  using diff_and_observe_total collect_fetch_ok(1) by blast

text \<open>A task without a verdict panicked in the fetcher, and queued and counted nothing.\<close>

definition panicked :: "validator_input \<Rightarrow> shared \<Rightarrow> shared \<Rightarrow> bool" where
  "panicked inp sh sh' \<longleftrightarrow> sh_pending sh' = sh_pending sh \<and> sh_rerun_count sh' = sh_rerun_count sh \<and>
     (\<exists>f keys. vi_fetcher inp = Some f \<and> f keys (vi_validation_block inp) = None)"

lemma loop_panics:
  assumes "validator_loop ext evm clock cancelled fetcher inp rnd ch verified rs sh = (None, sh')"
    and "sized inp rs" and f: "vi_fetcher inp = Some fetcher"
  shows "panicked inp sh sh'"
  using assms(1,2)
proof (induction "max_validation_rounds - rnd" arbitrary: rnd ch verified rs sh rule: less_induct)
  case less
  let ?rs = "rs\<lparr>rs_any_rerun := False, rs_candidates := []\<rparr>"
  have "sized inp ?rs" using less.prems(2) by (simp add: sized_def)
  from rerun_total [OF this, of 0 "vi_requests inp"] obtain x where
    x: "rerun_affected ext evm (clock rnd) inp (map fst ch) (override_list ch) verified 0 (vi_requests inp) ?rs = Some x"
    "\<forall>rs'. x = Okay rs' \<longrightarrow> sized inp rs'" by fastforce
  have stop: "panicked inp y y" if "fetcher keys (vi_validation_block inp) = None" for keys y
    using that f by (auto simp: panicked_def)
  have again: "panicked inp (sh\<lparr>sh_tracker := t\<rparr>) sh' \<Longrightarrow> panicked inp sh sh'" for t by (simp add: panicked_def)
  have IH: "panicked inp sh sh'"
    if "validator_loop ext evm clock cancelled fetcher inp (rnd + 1) ch' ver' rs' (sh\<lparr>sh_tracker := t\<rparr>) = (None, sh')"
      "rnd < max_validation_rounds" "sized inp rs'" for ch' ver' rs' t
  proof (rule again [OF less.hyps [OF _ that(1,3)]])
    show "max_validation_rounds - (rnd + 1) < max_validation_rounds - rnd" using that(2) by simp
  qed
  from less.prems(1) [unfolded validator_loop.simps [of ext evm clock cancelled fetcher inp rnd ch verified rs sh]] x show ?case
    by (auto intro: stop IH dest: fetched_diff_total split: sum.splits option.splits if_splits prod.splits)
qed

lemma run_validator_panics:
  assumes "run_validator ext evm clock cancelled inp sh = (None, sh')"
    and "length (vi_optimistic inp) = length (vi_requests inp)" "length (vi_read_sets inp) = length (vi_requests inp)"
  shows "panicked inp sh sh'"
proof -
  have "sized inp (first_state inp)" using assms(2,3) by (simp add: sized_def first_state_def)
  note loop = loop_panics [OF _ this]
  have again: "panicked inp (sh\<lparr>sh_tracker := t\<rparr>) sh' \<Longrightarrow> panicked inp sh sh'" for t by (simp add: panicked_def)
  have stop: "panicked inp x x" if "vi_fetcher inp = Some f" "f keys (vi_validation_block inp) = None" for f keys x
    using that by (auto simp: panicked_def)
  from assms(1) show ?thesis
    unfolding run_validator_def Let_def first_state_def [symmetric]
    by (auto intro: stop again loop dest: fetched_diff_total split: list.splits option.splits sum.splits if_splits prod.splits)
qed

section \<open>The controller\<close>

lemma executed_cong:
  "vi_snapshot inp' = vi_snapshot inp \<Longrightarrow> vi_registry inp' = vi_registry inp \<Longrightarrow> vi_now inp' = vi_now inp \<Longrightarrow>
   executed ext evm inp' = executed ext evm inp"
  by (simp add: executed_def fun_eq_iff)

definition opt_inv :: "revm_ext \<Rightarrow> revm_evm \<Rightarrow> validator_input \<Rightarrow> nat \<Rightarrow> optimistic_state \<Rightarrow> bool" where
  "opt_inv ext evm inp i st \<longleftrightarrow> length (op_results st) = i \<and> length (op_read_sets st) = i \<and>
     (op_blockhash_readers st = [] \<longrightarrow>
       (\<forall>j < i. executed ext evm inp [] (vi_requests inp ! j) (op_results st ! j) (op_read_sets st ! j)))"

lemma optimistic_sims_ok:
  assumes "optimistic_sims ext evm clk (vi_registry inp) (vi_now inp) (vi_snapshot inp) i reqs st = Okay st'"
    and "reqs = drop i (vi_requests inp)" "i \<le> length (vi_requests inp)" "opt_inv ext evm inp i st"
  shows "opt_inv ext evm inp (length (vi_requests inp)) st'"
  using assms
proof (induction reqs arbitrary: i st)
  case Nil
  then show ?case by (simp add: opt_inv_def)
next
  case (Cons req reqs)
  then have i: "i < length (vi_requests inp)" by (metis drop_eq_Nil linorder_not_le list.distinct(1))
  with Cons.prems(2) have req: "req = vi_requests inp ! i" "reqs = drop (i + 1) (vi_requests inp)"
    by (simp_all add: Cons_nth_drop_Suc [symmetric])
  obtain res access ov where call: "call_raw_with_access_list_with ext evm (clk i) (sr_from req) (sr_to req) (sr_calldata req)
      (sr_tx req) (overlay_new (vi_snapshot inp) None) = (Inr (res, access), ov)"
    using Cons.prems(1) by (auto split: prod.splits sum.splits)
  let ?st = "\<lparr>op_results = op_results st @ [result_to_sim res (to_eip2930 access)],
      op_read_sets = op_read_sets st @ [volatile_slots (vi_registry inp) (vi_now inp) access],
      op_blockhash_readers = (if ov_blockhash_zero_fallback ov then op_blockhash_readers st @ [i] else op_blockhash_readers st)\<rparr>"
  have "\<not> ov_blockhash_zero_fallback ov \<Longrightarrow> executed ext evm inp [] req (result_to_sim res (to_eip2930 access))
      (volatile_slots (vi_registry inp) (vi_now inp) access)"
    using call unfolding executed_def by (auto simp: override_list_def)
  then have "opt_inv ext evm inp (i + 1) ?st"
    using Cons.prems(4) req(1) by (auto simp: opt_inv_def nth_append less_Suc_eq)
  moreover have "optimistic_sims ext evm clk (vi_registry inp) (vi_now inp) (vi_snapshot inp) (i + 1) reqs ?st = Okay st'"
    using Cons.prems(1) call by simp
  ultimately show ?case using Cons.IH req(2) i by simp
qed

lemma drain_pending_reads:
  assumes "drain_pending ext ctl c = Some (ctl', c')"
  shows "fc_registry ctl' = fc_registry ctl \<and> sh_pending (fc_shared ctl') = [] \<and>
    cached_storage_value c' b t =
      (case map_of (rev (map (\<lambda>ch. (change_key ch, sc_new ch)) (sh_pending (fc_shared ctl)))) (b, t) of
         Some v \<Rightarrow> Some v | None \<Rightarrow> cached_storage_value c b t)"
proof (cases "sh_pending (fc_shared ctl) = []")
  case True
  then show ?thesis using assms by (simp add: drain_pending_def)
next
  case False
  let ?ws = "map (\<lambda>ch. (sc_address ch, sc_slot ch, sc_new ch)) (sh_pending (fc_shared ctl))"
  have us: "map (\<lambda>ch. Slot (sc_address ch) (sc_slot ch) (sc_new ch)) (sh_pending (fc_shared ctl)) = map (\<lambda>(a, s, v). Slot a s v) ?ws"
    by simp
  obtain d where d: "apply_updates ext (map (\<lambda>(a, s, v). Slot a s v) ?ws) c = Some (d, c')"
    and ctl': "ctl' = ctl\<lparr>fc_shared := (fc_shared ctl)\<lparr>sh_pending := []\<rparr>\<rparr>"
    using assms False by (auto simp: drain_pending_def us simp del: map_map)
  have "inject_storage_batch_fresh ext ?ws c = Some c'"
    using d by (simp add: inject_storage_batch_fresh_def)
  from inject_fresh_reads [OF this, of b t] show ?thesis
    by (simp add: ctl' comp_def change_key_def)
qed

lemma drain_pending_inv:
  assumes "revm_ok ext" "drain_pending ext ctl c = Some (ctl', c')" "cache_inv c"
  shows "cache_inv c'"
  using assms by (auto simp: drain_pending_def Let_def split: if_splits intro: writer_step_inv [OF writer_updates])

lemma drain_pending_total: "\<exists>ctl' c'. drain_pending ext ctl c = Some (ctl', c')"
  using apply_updates_is_Some by (fastforce simp: drain_pending_def Let_def)

lemma controller_run_cases:
  assumes "controller_run ext evm clk secs requests ctl c = Some (r, ctl', c')"
  obtains c1 sn where "drain_pending ext ctl c = Some (ctl', c1)" "snapshot c1 = Some (sn, c')"
    "case r of Inl e \<Rightarrow> True
     | Inr sim \<Rightarrow> input_ok ext evm (sp_validation sim) \<and> vi_snapshot (sp_validation sim) = sn \<and>
         vi_requests (sp_validation sim) = requests \<and> vi_optimistic (sp_validation sim) = sp_optimistic sim \<and>
         vi_fetcher (sp_validation sim) = storage_batch_fetcher c' \<and> vi_validation_block (sp_validation sim) = block c'"
proof -
  let ?now = "clock_now secs (fc_clock ctl)"
  obtain c1 sn where drain: "drain_pending ext ctl c = Some (ctl', c1)" and sn: "snapshot c1 = Some (sn, c')"
    using assms by (auto simp: controller_run_def Let_def split: option.splits sum.splits)
  have "input_ok ext evm (sp_validation sim) \<and> vi_snapshot (sp_validation sim) = sn \<and>
      vi_requests (sp_validation sim) = requests \<and> vi_optimistic (sp_validation sim) = sp_optimistic sim \<and>
      vi_fetcher (sp_validation sim) = storage_batch_fetcher c' \<and> vi_validation_block (sp_validation sim) = block c'"
    if r: "r = Inr sim" for sim
  proof -
    let ?inp = "sp_validation sim"
    obtain st where st: "optimistic_sims ext evm clk (fc_registry ctl') ?now sn 0 requests
        \<lparr>op_results = [], op_read_sets = [], op_blockhash_readers = []\<rparr> = Okay st"
      and inp: "vi_registry ?inp = fc_registry ctl'" "vi_now ?inp = ?now" "vi_snapshot ?inp = sn" "vi_requests ?inp = requests"
        "vi_optimistic ?inp = op_results st" "vi_read_sets ?inp = op_read_sets st" "sp_optimistic sim = op_results st"
        "vi_blockhash_readers ?inp = op_blockhash_readers st" "vi_fetcher ?inp = storage_batch_fetcher c'"
        "vi_validation_block ?inp = block c'"
      using assms drain sn r by (auto simp: controller_run_def Let_def split: sum.splits)
    have "opt_inv ext evm ?inp (length (vi_requests ?inp)) st"
      by (rule optimistic_sims_ok [where i = 0]) (use st inp in \<open>auto simp: opt_inv_def\<close>)
    then show ?thesis using inp by (auto simp: input_ok_def opt_inv_def)
  qed
  then show ?thesis using that [OF drain sn] by (simp split: sum.splits)
qed

end
