(* ===== verification/Freshness_Props.thy ===== *)
theory Freshness_Props
  imports Freshness_Control
begin

text \<open>
  The properties of speculative simulation: a trusted verdict is right, corrections reach the next run,
  the validator always returns, a cancelled validator leaves no trace, and the registry's answers.
\<close>

section \<open>Verdicts\<close>

lemma changes_ok_entry:
  assumes "changes_ok inp w ver ch" "(k, x) \<in> set ch"
  shows "volatile_at inp (change_key x) \<and> sc_old x \<noteq> sc_new x \<and>
    sc_old x = snap_value (vi_snapshot inp) (change_key x) \<and> sc_new x = an_storage w (change_key x)"
proof -
  have "k = change_key x" using assms by (auto simp: changes_ok_def corrections_ok_def change_key_def)
  moreover have "k \<in> ver" using assms by (force simp: changes_ok_def)
  ultimately show ?thesis using assms by (auto simp: changes_ok_def corrections_ok_def)
qed

text \<open>
  \<^bold>\<open>C5.\<close> Validation is sound up to reads the journal hides. Take a controller run and the verdict of its
  validator, and any world that agrees with the run's snapshot except on volatile storage and on block hashes
  the snapshot does not hold, with a fetcher that answers, when it answers, with that world's values at the
  pinned block. If the verdict is \<open>ConfirmedStorage\<close>, each optimistic result is the result of executing its
  request in that world; if it is \<open>Corrected\<close>, each corrected result is, even where a correction sent the
  execution down a branch that read further volatile slots, and every reported change is a volatile slot with
  the snapshot's value as old and the world's as new value. The one way a result can be wrong is \<open>hidden_read\<close>:
  the execution that gave it read a slot whose value the world contradicts, and the slot is not listed under a
  touched account of its journal, as happens to the reads of reverted calls. A snapshot without a timestamp
  executes at the clock's second, and the result is the world's at that second. The policy, the tracker and the
  announced access lists play no part in this.
\<close>

theorem validation_is_sound:
  assumes run: "controller_run ext evm clk secs requests ctl c = Some (Inr sim, ctl1, c1)"
    and val: "validate ext evm vclk sim ctl2 = (Inr v, ctl3)"
    and world: "world_of (sp_validation sim) w"
    and honest: "\<forall>f. storage_batch_fetcher c1 = Some f \<longrightarrow> honest_storage f (block c1) w"
  shows "v \<noteq> ConfirmedFull \<and>
    (v = ConfirmedStorage \<longrightarrow> list_all2 (right_in ext evm (sp_validation sim) w) requests (sp_optimistic sim)) \<and>
    (\<forall>rs chs accs. v = Corrected rs chs accs \<longrightarrow> list_all2 (right_in ext evm (sp_validation sim) w) requests rs \<and>
      (\<forall>ch \<in> set chs. volatile_at (sp_validation sim) (change_key ch) \<and> sc_old ch \<noteq> sc_new ch \<and>
         sc_old ch = snap_value (vi_snapshot (sp_validation sim)) (change_key ch) \<and>
         sc_new ch = an_storage w (change_key ch)))"
proof -
  let ?inp = "sp_validation sim"
  obtain c0 sn where "input_ok ext evm ?inp" and reqs: "vi_requests ?inp = requests"
    and opt: "vi_optimistic ?inp = sp_optimistic sim"
    and fetcher: "vi_fetcher ?inp = storage_batch_fetcher c1" "vi_validation_block ?inp = block c1"
    using controller_run_cases [OF run] by auto
  moreover obtain sh where "run_validator ext evm vclk (\<lambda>_. False) ?inp (fc_shared ctl2) = (Some v, sh)"
    using val by (auto simp: validate_def split: prod.splits option.splits)
  ultimately have sound: "verdict_ok ext evm ?inp w v"
    "v = ConfirmedStorage \<Longrightarrow> list_all2 (right_in ext evm ?inp w) requests (sp_optimistic sim)"
    using run_validator_sound [of ext evm vclk ?inp "fc_shared ctl2" v sh w] honest world by auto
  have "list_all2 (right_in ext evm ?inp w) requests rs \<and>
      (\<forall>ch \<in> set chs. volatile_at ?inp (change_key ch) \<and> sc_old ch \<noteq> sc_new ch \<and>
         sc_old ch = snap_value (vi_snapshot ?inp) (change_key ch) \<and> sc_new ch = an_storage w (change_key ch))"
    if v: "v = Corrected rs chs accs" for rs chs accs
  proof -
    obtain ver ch where "changes_ok ?inp w ver ch" "chs = map snd ch" and "list_all2 (right_in ext evm ?inp w) requests rs"
      using sound(1) v by (auto simp: verdict_ok_def reqs)
    then show ?thesis using changes_ok_entry by fastforce
  qed
  moreover have "v \<noteq> ConfirmedFull" using sound(1) by (auto simp: verdict_ok_def)
  ultimately show ?thesis using sound(2) by blast
qed

text \<open>
  A concrete run: the cache holds 100 in slot 5 of account 1, the chain 200; the contract returns the
  slot's low byte.
\<close>

definition sample_evm :: revm_evm where
  "sample_evm =
     \<lparr>build_tx = (\<lambda>te. None),
      transact_one = (\<lambda>env te. AskStorage 1 5 (\<lambda>v. Done (Okay (ExecSuccess 21000 [] [ucast v],
        [(1, \<lparr>ja_touched = True, ja_code_hash = 2, ja_slots = [5]\<rparr>)]))))\<rparr>"

definition chain_value :: "slot_key \<Rightarrow> u256" where
  "chain_value k = (if k = (1, 5) then 200 else 0)"

definition live_fetcher :: storage_fetcher where
  "live_fetcher keys b = Some (map (\<lambda>k. (fst k, snd k, Okay (chain_value k))) keys)"

definition live_cache :: evm_cache where
  "live_cache = sample_cache\<lparr>storage_batch_fetcher := Some live_fetcher, timestamp_override := Some 1\<rparr>"

definition sample_request :: sim_request where
  "sample_request = sim_request_new 9 1 []"

definition sample_controller :: freshness_controller where
  "sample_controller = controller_new registry_new AlwaysVerify"

lemma live_fresh: "fresh_cache live_cache"
  by (simp add: fresh_cache_def live_cache_def layers_ok_def overlay_ok_def nested_ok_def sample_cache_def empty_cache_def hm_ok_def)

lemma live_snapshot:
  obtains sn c1 where "snapshot live_cache = Some (sn, c1)" "snapshot_storage_value sn 1 5 = Some 100"
    "sn_timestamp sn = Some 1" "storage_batch_fetcher c1 = Some live_fetcher" "block c1 = NumberId Latest"
proof -
  have "layers_ok live_cache" "base_coherent live_cache" using fresh_inv [OF live_fresh] by (simp_all add: cache_inv_def)
  from snapshot_reads [OF this, of sample_ext] obtain sn c1 where sn: "snapshot live_cache = Some (sn, c1)"
    "snapshot_storage_value sn 1 5 = cached_storage_value live_cache 1 5" by blast
  moreover have "cached_storage_value live_cache 1 5 = Some 100"
    by (simp add: live_cache_def cached_storage_value_def backend_slot_def sample_cache_def empty_cache_def)
  moreover obtain b d f l where "refresh_base live_cache = with_memo b d f l live_cache" using refresh_with_memo by blast
  with sn(1) have "sn_timestamp sn = Some 1" "storage_batch_fetcher c1 = Some live_fetcher" "block c1 = NumberId Latest"
    by (auto simp: snapshot_def Let_def with_context_def with_memo_def live_cache_def sample_cache_def empty_cache_def)
  ultimately show ?thesis using that by simp
qed

definition byte_result :: "u256 \<Rightarrow> call_simulation_result" where
  "byte_result v = result_to_sim (ExecSuccess 21000 [] [ucast v])
     (to_eip2930 \<lparr>sal_accounts = [1], sal_code_hashes = [2], sal_slots = [(1, 5)], sal_block_numbers = []\<rparr>)"

definition sample_sim :: "evm_snapshot \<Rightarrow> speculative_sim" where
  "sample_sim sn = \<lparr>sp_optimistic = [byte_result 100],
     sp_validation = \<lparr>vi_snapshot = sn, vi_fetcher = Some live_fetcher, vi_requests = [sample_request],
       vi_read_sets = [[(1, 5)]], vi_registry = registry_new, vi_now = 0, vi_verify_set = [],
       vi_optimistic = [byte_result 100], vi_validation_block = NumberId Latest, vi_blockhash_readers = []\<rparr>\<rparr>"

lemma sample_call:
  assumes "dirty_slot ov 1 5 = Some v \<or> dirty_slot ov 1 5 = None \<and> snapshot_storage_value (ov_snapshot ov) 1 5 = Some v"
  shows "call_raw_with_access_list_with sample_ext sample_evm secs src dst data tx ov =
    (Okay (ExecSuccess 21000 [] [ucast v],
       \<lparr>sal_accounts = [1], sal_code_hashes = [2], sal_slots = [(1, 5)], sal_block_numbers = []\<rparr>), ov)"
  using assms
  by (auto simp: call_raw_with_access_list_with_def sample_evm_def overlay_storage_def journal_step_def sal_empty_def
      sample_ext_def hs_extend_def Let_def)

lemma registry_new_volatile [simp]: "is_volatile a s now registry_new"
  by (simp add: is_volatile_def validity_def registry_new_def)

lemma sample_run:
  assumes "snapshot live_cache = Some (sn, c1)" "snapshot_storage_value sn 1 5 = Some 100"
    "storage_batch_fetcher c1 = Some live_fetcher" "block c1 = NumberId Latest"
  shows "controller_run sample_ext sample_evm (\<lambda>_. 0) 0 [sample_request] sample_controller live_cache =
    Some (Okay (sample_sim sn), sample_controller, c1)"
proof -
  have call: "call_raw_with_access_list_with sample_ext sample_evm secs src dst data tx (overlay_new sn None) =
      (Okay (ExecSuccess 21000 [] [ucast (100 :: u256)],
        \<lparr>sal_accounts = [1], sal_code_hashes = [2], sal_slots = [(1, 5)], sal_block_numbers = []\<rparr>), overlay_new sn None)"
    for secs src dst data tx
    by (rule sample_call) (simp add: overlay_new_def dirty_slot_def assms(2))
  have "\<not> ov_blockhash_zero_fallback (overlay_new sn None)" by (simp add: overlay_new_def)
  then show ?thesis
    using assms by (simp add: controller_run_def Let_def sample_controller_def controller_new_def controller_with_clock_def
        drain_pending_def call sample_sim_def byte_result_def volatile_slots_def predicted_candidates_def announced_slots_def
        sample_request_def sim_request_new_def tx_config_default_def)
qed

lemma sample_input [simp]:
  "vi_snapshot (sp_validation (sample_sim sn)) = sn" "vi_fetcher (sp_validation (sample_sim sn)) = Some live_fetcher"
  "vi_requests (sp_validation (sample_sim sn)) = [sample_request]" "vi_read_sets (sp_validation (sample_sim sn)) = [[(1, 5)]]"
  "vi_registry (sp_validation (sample_sim sn)) = registry_new" "vi_now (sp_validation (sample_sim sn)) = 0"
  "vi_verify_set (sp_validation (sample_sim sn)) = []" "vi_optimistic (sp_validation (sample_sim sn)) = [byte_result 100]"
  "vi_validation_block (sp_validation (sample_sim sn)) = NumberId Latest"
  "vi_blockhash_readers (sp_validation (sample_sim sn)) = []" "sp_optimistic (sample_sim sn) = [byte_result 100]"
  by (simp_all add: sample_sim_def)

definition sample_change :: slot_change where
  "sample_change = \<lparr>sc_address = 1, sc_slot = 5, sc_old = 100, sc_new = 200\<rparr>"

lemma sample_verdict:
  assumes "snapshot_storage_value sn 1 5 = Some 100"
  shows "\<exists>ctl. validate sample_ext sample_evm (\<lambda>_ _. 0) (sample_sim sn) sample_controller =
    (Inr (Corrected [byte_result 200] [sample_change] []), ctl)"
proof -
  have "dirty_slot (corrected_overlay sn [(1, 5, 200)]) 1 5 = Some 200"
    by (simp add: corrected_overlay_def dirty_slot_override)
  note call = sample_call [OF disjI1 [OF this]]
  have verify: "verify_slots_of (sp_validation (sample_sim sn)) = [(1, 5)]"
    by (simp add: verify_slots_of_def hs_extend_def)
  have fetch: "live_fetcher [(1, 5)] b = Some [(1, 5, Okay 200)]" "collect_fetch_results [(1, 5)] [(1, 5, Okay 200)] = Okay [((1, 5), 200)]" for b
    by (simp_all add: collect_fetch_results_def live_fetcher_def chain_value_def)
  have diff: "diff_and_observe sn 0 [((1, 5), 200)] [(1, 5)] t [] False = Some (snd (observe 1 5 200 0 t), [((1, 5), sample_change)], True)" for t
    using assms by (simp add: sample_change_def)
  have pass: "rerun_affected sample_ext sample_evm clk (sp_validation (sample_sim sn)) [(1, 5)] [(1, 5, 200)] [(1, 5)] 0 [sample_request]
      \<lparr>rs_results = [byte_result 100], rs_reads = [[(1, 5)]], rs_indices = [], rs_any_rerun = False, rs_candidates = []\<rparr> =
      Some (Okay \<lparr>rs_results = [byte_result 200], rs_reads = [[(1, 5)]], rs_indices = [0], rs_any_rerun = True, rs_candidates = []\<rparr>)" for clk
    by (simp add: call volatile_slots_def byte_result_def Let_def)
  have ovs: "override_list [((1, 5), sample_change)] = [(1, 5, 200)]" by (simp add: override_list_def sample_change_def)
  have "validator_loop sample_ext sample_evm (\<lambda>_ _. 0) (\<lambda>_. False) live_fetcher (sp_validation (sample_sim sn)) 0
      [((1, 5), sample_change)] [(1, 5)]
      \<lparr>rs_results = [byte_result 100], rs_reads = [[(1, 5)]], rs_indices = [], rs_any_rerun = False, rs_candidates = []\<rparr> sh =
      (Some (Corrected [byte_result 200] [sample_change] []),
        sh\<lparr>sh_rerun_count := sh_rerun_count sh + 1, sh_pending := sh_pending sh @ [sample_change]\<rparr>)" for sh
    by (subst validator_loop.simps) (simp add: ovs pass finish_corrected_def Let_def del: rerun_affected.simps)
  then show ?thesis
    by (simp add: validate_def run_validator_def verify fetch diff del: diff_and_observe.simps)
qed

lemma sample_no_hidden_read: "\<not> hidden_read sample_ext sample_evm secs sn w' w req r"
  by (auto simp: hidden_read_def sample_evm_def Let_def journal_step_def sal_empty_def hs_extend_def)

theorem validation_is_sound_witness:
  "\<exists>sn w. an_storage w (1, 5) = 200 \<and> sim_on sample_ext sample_evm 0 sn w sample_request = Okay (byte_result 200)"
proof -
  obtain sn c1 where sn: "snapshot live_cache = Some (sn, c1)" "snapshot_storage_value sn 1 5 = Some 100"
    and ts: "sn_timestamp sn = Some 1" and c1: "storage_batch_fetcher c1 = Some live_fetcher" "block c1 = NumberId Latest"
    by (rule live_snapshot)
  obtain ctl where val: "validate sample_ext sample_evm (\<lambda>_ _. 0) (sample_sim sn) sample_controller =
      (Inr (Corrected [byte_result 200] [sample_change] []), ctl)" using sample_verdict [OF sn(2)] by blast
  define w where "w = (offline_answers (overlay_new sn None))\<lparr>an_storage := chain_value\<rparr>"
  have "world_of (sp_validation (sample_sim sn)) w"
    by (simp add: world_of_def w_def volatile_at_def offline_answers_def overlay_new_def)
  moreover have "\<forall>f. storage_batch_fetcher c1 = Some f \<longrightarrow> honest_storage f (block c1) w"
    by (auto simp: c1 honest_storage_def live_fetcher_def w_def)
  ultimately have "right_in sample_ext sample_evm (sp_validation (sample_sim sn)) w sample_request (byte_result 200)"
    using validation_is_sound [OF sample_run [OF sn c1] val, of w] by simp
  then have "sim_on sample_ext sample_evm 0 sn w sample_request = Okay (byte_result 200)"
    using ts by (auto simp: right_in_def sample_no_hidden_read)
  moreover have "an_storage w (1, 5) = 200" by (simp add: w_def chain_value_def)
  ultimately show ?thesis by blast
qed

text \<open>
  The exception is real: a contract that reverts while slot 5 holds 100. The optimistic run reverts, so its journal has no
  touched account, its read set is empty, and the verdict is \<open>ConfirmedStorage\<close> without a fetch, although the
  slot holds 200 on the chain and the call succeeds there.
\<close>

definition reverting_evm :: revm_evm where
  "reverting_evm =
     \<lparr>build_tx = (\<lambda>te. None),
      transact_one = (\<lambda>env te. AskStorage 1 5 (\<lambda>v. Done (Okay
        (if v = 100 then (ExecRevert 21000 [], [(1, \<lparr>ja_touched = False, ja_code_hash = 2, ja_slots = [5]\<rparr>)])
         else (ExecSuccess 21000 [] [], [(1, \<lparr>ja_touched = True, ja_code_hash = 2, ja_slots = [5]\<rparr>)])))))\<rparr>"

lemma reverted_reads_are_confirmed:
  "\<exists>sim ctl1 c1 ctl2 r. controller_run sample_ext reverting_evm (\<lambda>_. 0) 0 [sample_request] sample_controller live_cache =
       Some (Okay sim, ctl1, c1) \<and> sp_optimistic sim = [r] \<and>
     validate sample_ext reverting_evm (\<lambda>_ _. 0) sim ctl1 = (Okay ConfirmedStorage, ctl2) \<and>
     (\<forall>w. an_storage w (1, 5) = 200 \<longrightarrow>
        sim_on sample_ext reverting_evm 0 (vi_snapshot (sp_validation sim)) w sample_request \<noteq> Okay r)"
proof -
  obtain sn c1 where sn: "snapshot live_cache = Some (sn, c1)" "snapshot_storage_value sn 1 5 = Some 100"
    and c1: "storage_batch_fetcher c1 = Some live_fetcher" "block c1 = NumberId Latest" by (rule live_snapshot)
  let ?r = "result_to_sim (ExecRevert 21000 []) (to_eip2930 sal_empty)"
  have call: "call_raw_with_access_list_with sample_ext reverting_evm secs src dst data tx (overlay_new sn None) =
      (Okay (ExecRevert 21000 [], sal_empty), overlay_new sn None)" for secs src dst data tx
    using sn(2) by (simp add: call_raw_with_access_list_with_def reverting_evm_def overlay_storage_def journal_step_def
        overlay_new_def dirty_slot_def Let_def)
  define sim where "sim = \<lparr>sp_optimistic = [?r], sp_validation = \<lparr>vi_snapshot = sn, vi_fetcher = Some live_fetcher,
     vi_requests = [sample_request], vi_read_sets = [[]], vi_registry = registry_new, vi_now = 0, vi_verify_set = [],
     vi_optimistic = [?r], vi_validation_block = NumberId Latest, vi_blockhash_readers = []\<rparr>\<rparr>"
  have "\<not> ov_blockhash_zero_fallback (overlay_new sn None)" by (simp add: overlay_new_def)
  then have "controller_run sample_ext reverting_evm (\<lambda>_. 0) 0 [sample_request] sample_controller live_cache =
      Some (Okay sim, sample_controller, c1)"
    using sn c1 call by (simp add: controller_run_def Let_def sample_controller_def controller_new_def controller_with_clock_def
        drain_pending_def sim_def volatile_slots_def predicted_candidates_def announced_slots_def sal_empty_def
        sample_request_def sim_request_new_def tx_config_default_def)
  moreover have "validate sample_ext reverting_evm (\<lambda>_ _. 0) sim sample_controller = (Okay ConfirmedStorage, sample_controller)"
    by (simp add: validate_def run_validator_def sim_def verify_slots_of_def hs_extend_def)
  moreover have "sim_on sample_ext reverting_evm 0 sn w sample_request \<noteq> Okay ?r" if "an_storage w (1, 5) = 200" for w
    using that by (simp add: sim_on_def reverting_evm_def Let_def)
  ultimately show ?thesis by (intro exI [of _ sim] exI [of _ sample_controller] exI [of _ c1] exI [of _ ?r]) (simp add: sim_def)
qed

section \<open>Corrections\<close>

lemma controller_run_total:
  assumes "revm_ok ext" "cache_inv c"
  shows "\<exists>r ctl1 c1. controller_run ext evm clk secs requests ctl c = Some (r, ctl1, c1)"
proof -
  obtain ctl1 c0 where drain: "drain_pending ext ctl c = Some (ctl1, c0)" using drain_pending_total by blast
  have "layers_ok c0" "base_coherent c0"
    using drain_pending_inv [OF assms(1) drain assms(2)] by (simp_all add: cache_inv_def)
  then obtain sn c1 where "snapshot c0 = Some (sn, c1)" using snapshot_reads [of c0 ext] by blast
  with drain show ?thesis by (simp add: controller_run_def Let_def split: sum.splits)
qed


lemma last_correction_wins:
  assumes "distinct (map change_key chs)" "ch \<in> set chs"
  shows "map_of (rev (map (\<lambda>ch. (change_key ch, sc_new ch)) (old @ chs))) (change_key ch) = Some (sc_new ch)"
proof -
  have "map_of (rev (map (\<lambda>ch. (change_key ch, sc_new ch)) chs)) (change_key ch) = Some (sc_new ch)"
    using assms by (intro map_of_is_SomeI) (auto simp: rev_map [symmetric] comp_def)
  then show ?thesis by (simp add: map_add_def)
qed

text \<open>
  \<^bold>\<open>C11.\<close> Corrections flow back. After a verdict \<open>Corrected\<close>, the next run of the controller on any reachable
  cache drains the queue: the cache and the snapshot its optimistic simulations run on read the corrected value
  of every slot that was reported as changed, whatever else was queued before, and nothing stays pending.
\<close>

theorem corrections_flow_back:
  assumes val: "validate ext evm vclk sim ctl = (Inr (Corrected rs chs accs), ctl1)"
    and ok: "revm_ok ext" "\<forall>code. keccak code \<noteq> 0" "reachable ext keccak c"
    and run: "controller_run ext evm clk secs requests ctl1 c = Some (r, ctl2, c2)"
  shows "chs \<noteq> [] \<and> pending_len ctl2 = 0 \<and>
    (\<forall>ch \<in> set chs. cached_storage_value c2 (sc_address ch) (sc_slot ch) = Some (sc_new ch)) \<and>
    (\<forall>sim2. r = Inr sim2 \<longrightarrow>
      (\<forall>ch \<in> set chs. snapshot_storage_value (vi_snapshot (sp_validation sim2)) (sc_address ch) (sc_slot ch) = Some (sc_new ch)))"
proof -
  obtain sh where rv: "run_validator ext evm vclk (\<lambda>_. False) (sp_validation sim) (fc_shared ctl) = (Some (Corrected rs chs accs), sh)"
    and ctl1: "ctl1 = ctl\<lparr>fc_shared := sh\<rparr>" using val by (auto simp: validate_def split: prod.splits option.splits)
  have pending: "sh_pending (fc_shared ctl1) = sh_pending (fc_shared ctl) @ chs" and chs: "chs \<noteq> []" "distinct (map change_key chs)"
    using run_validator_effects [OF rv] by (simp_all add: ctl1 queues_only_corrections_def counts_distinct_def)
  obtain c1 sn where drain: "drain_pending ext ctl1 c = Some (ctl2, c1)" and sn: "snapshot c1 = Some (sn, c2)"
    and r: "\<forall>sim2. r = Inr sim2 \<longrightarrow> vi_snapshot (sp_validation sim2) = sn"
    using run by (rule controller_run_cases) (cases r; simp)
  have inv: "layers_ok c1" "base_coherent c1"
    using drain_pending_inv [OF ok(1) drain] reachable_inv [OF ok] by (simp_all add: cache_inv_def)
  have reads: "\<forall>a s. snapshot_storage_value sn a s = cached_storage_value c1 a s" "storage_view c2 = storage_view c1"
    using snapshot_reads [OF inv, of ext] sn by auto
  have "cached_storage_value c1 (sc_address ch) (sc_slot ch) = Some (sc_new ch)" if "ch \<in> set chs" for ch
    using drain_pending_reads [OF drain, of "sc_address ch" "sc_slot ch"] last_correction_wins [OF chs(2) that]
    by (simp add: pending change_key_def)
  moreover have "cached_storage_value c2 = cached_storage_value c1" using reads(2) by (metis fst_storage_view)
  moreover have "pending_len ctl2 = 0" using drain_pending_reads [OF drain] by (simp add: pending_len_def)
  ultimately show ?thesis using chs(1) r reads(1) by auto
qed

theorem corrections_flow_back_witness:
  "\<exists>sn ctl1 r ctl2 c2. validate sample_ext sample_evm (\<lambda>_ _. 0) (sample_sim sn) sample_controller =
       (Inr (Corrected [byte_result 200] [sample_change] []), ctl1) \<and>
     controller_run sample_ext sample_evm (\<lambda>_. 0) 0 [sample_request] ctl1 live_cache = Some (r, ctl2, c2) \<and>
     cached_storage_value c2 1 5 = Some 200"
proof -
  have reach: "reachable sample_ext (\<lambda>code. 3) live_cache" by (rule reach_fresh [OF live_fresh])
  obtain sn c1 where "snapshot_storage_value sn 1 5 = Some 100" by (rule live_snapshot)
  then obtain ctl1 where val: "validate sample_ext sample_evm (\<lambda>_ _. 0) (sample_sim sn) sample_controller =
      (Inr (Corrected [byte_result 200] [sample_change] []), ctl1)" using sample_verdict by blast
  obtain r ctl2 c2 where run: "controller_run sample_ext sample_evm (\<lambda>_. 0) 0 [sample_request] ctl1 live_cache = Some (r, ctl2, c2)"
    using controller_run_total [OF sample_ext_ok fresh_inv [OF live_fresh]] by blast
  have "cached_storage_value c2 1 5 = Some 200"
    using corrections_flow_back [OF val sample_ext_ok _ reach run] by (simp add: sample_change_def)
  with val run show ?thesis by blast
qed

section \<open>Totality\<close>

text \<open>
  \<^bold>\<open>C13.\<close> The controller and the validator always come to an end. On a reachable cache \<open>run\<close> returns a handle or
  the error of an optimistic simulation; whatever the EVM, the clocks and the cancel flag do, the task of the
  handle then ends with a verdict (the fixed-point loop ends within its round cap and no index is ever out
  of bounds), unless the caller's fetcher panicked in a call at the pinned block. Only then \<open>validate\<close> returns
  an error instead of a verdict, \<open>ValidationTaskFailed\<close>, and the task has queued and counted nothing.
\<close>

theorem validator_always_returns:
  assumes "revm_ok ext" "\<forall>code. keccak code \<noteq> 0" "reachable ext keccak c"
  shows "\<exists>r ctl1 c1. controller_run ext evm clk secs requests ctl c = Some (r, ctl1, c1) \<and>
    (\<forall>sim. r = Inr sim \<longrightarrow>
      (\<forall>f. storage_batch_fetcher c1 = Some f \<longrightarrow> (\<forall>keys. f keys (block c1) \<noteq> None)) \<longrightarrow>
      (\<forall>vclk cancelled sh. \<exists>v sh'. run_validator ext evm vclk cancelled (sp_validation sim) sh = (Some v, sh'))) \<and>
    (\<forall>sim vclk ctl2 e ctl3. r = Inr sim \<and> validate ext evm vclk sim ctl2 = (Inl e, ctl3) \<longrightarrow>
      e = ValidationTaskFailed \<and> (\<exists>f keys. storage_batch_fetcher c1 = Some f \<and> f keys (block c1) = None) \<and>
      pending_len ctl3 = pending_len ctl2 \<and> rerun_count ctl3 = rerun_count ctl2)"
proof -
  obtain r ctl1 c1 where run: "controller_run ext evm clk secs requests ctl c = Some (r, ctl1, c1)"
    using controller_run_total [OF assms(1) reachable_inv [OF assms]] by blast
  have panics: "sh_pending sh' = sh_pending sh \<and> sh_rerun_count sh' = sh_rerun_count sh \<and>
      (\<exists>f keys. storage_batch_fetcher c1 = Some f \<and> f keys (block c1) = None)"
    if "r = Inr sim" "run_validator ext evm vclk cancelled (sp_validation sim) sh = (None, sh')" for sim vclk cancelled sh sh'
  proof -
    have inp: "input_ok ext evm (sp_validation sim)" "vi_fetcher (sp_validation sim) = storage_batch_fetcher c1"
      "vi_validation_block (sp_validation sim) = block c1" using controller_run_cases [OF run] that(1) by auto
    then have "panicked (sp_validation sim) sh sh'" using that(2) by (intro run_validator_panics) (simp_all add: input_ok_def)
    then show ?thesis by (simp add: panicked_def inp)
  qed
  have "\<exists>v sh'. run_validator ext evm vclk cancelled (sp_validation sim) sh = (Some v, sh')"
    if sim: "r = Inr sim" and f: "\<forall>f. storage_batch_fetcher c1 = Some f \<longrightarrow> (\<forall>keys. f keys (block c1) \<noteq> None)"
    for sim vclk cancelled sh
  proof (rule ccontr)
    assume "\<nexists>v sh'. run_validator ext evm vclk cancelled (sp_validation sim) sh = (Some v, sh')"
    then obtain sh' where "run_validator ext evm vclk cancelled (sp_validation sim) sh = (None, sh')"
      by (metis option.exhaust surj_pair)
    from panics [OF sim this] f show False by blast
  qed
  moreover have "e = ValidationTaskFailed \<and> (\<exists>f keys. storage_batch_fetcher c1 = Some f \<and> f keys (block c1) = None) \<and>
      pending_len ctl3 = pending_len ctl2 \<and> rerun_count ctl3 = rerun_count ctl2"
    if sim: "r = Inr sim" and val: "validate ext evm vclk sim ctl2 = (Inl e, ctl3)" for sim vclk ctl2 e ctl3
  proof -
    obtain sh where "run_validator ext evm vclk (\<lambda>_. False) (sp_validation sim) (fc_shared ctl2) = (None, sh)"
      "e = ValidationTaskFailed" "ctl3 = ctl2\<lparr>fc_shared := sh\<rparr>"
      using val by (auto simp: validate_def split: prod.splits option.splits)
    with panics [OF sim] show ?thesis by (simp add: pending_len_def rerun_count_def)
  qed
  ultimately show ?thesis using run by blast
qed

theorem validator_always_returns_witness:
  "\<exists>sn ctl1 c1. controller_run sample_ext sample_evm (\<lambda>_. 0) 0 [sample_request] sample_controller live_cache =
       Some (Inr (sample_sim sn), ctl1, c1) \<and>
     (\<forall>vclk cancelled sh. \<exists>v sh'. run_validator sample_ext sample_evm vclk cancelled (sp_validation (sample_sim sn)) sh = (Some v, sh'))"
proof -
  have k: "\<forall>code :: bytes. (\<lambda>code. 3 :: b256) code \<noteq> 0" by simp
  obtain sn c1 where sn: "snapshot live_cache = Some (sn, c1)" "snapshot_storage_value sn 1 5 = Some 100"
    and c1: "storage_batch_fetcher c1 = Some live_fetcher" "block c1 = NumberId Latest" by (rule live_snapshot)
  have "\<forall>f. storage_batch_fetcher c1 = Some f \<longrightarrow> (\<forall>keys. f keys (block c1) \<noteq> None)" by (simp add: c1 live_fetcher_def)
  with validator_always_returns [OF sample_ext_ok k reach_fresh [OF live_fresh], of sample_evm "\<lambda>_. 0" 0 "[sample_request]" sample_controller]
    sample_run [OF sn c1] show ?thesis by auto
qed

section \<open>Effects\<close>

text \<open>
  \<^bold>\<open>C19.\<close> Only a \<open>Corrected\<close> verdict queues anything. Whenever the cancel flag is seen, an \<open>Unverified\<close> or
  \<open>ConfirmedStorage\<close> verdict leaves the pending queue and the re-run counter as they were; a \<open>Corrected\<close> one
  appends exactly the reported changes, each slot once, and counts each re-run simulation at most once. A handle
  cancelled by the time the first fetch returned changes nothing at all, and its optimistic results are
  returned as they are.
\<close>

theorem only_corrections_are_queued:
  "(run_validator ext evm vclk cancelled inp sh = (Some v, sh') \<longrightarrow>
      (case v of
         Corrected rs chs accs \<Rightarrow> sh_pending sh' = sh_pending sh @ chs \<and> distinct (map change_key chs) \<and>
           sh_rerun_count sh' \<le> sh_rerun_count sh + length (vi_requests inp)
       | _ \<Rightarrow> sh_pending sh' = sh_pending sh \<and> sh_rerun_count sh' = sh_rerun_count sh)) \<and>
   (k \<le> 2 \<and> into_optimistic ext evm vclk k sim ctl = (rs', ctl') \<longrightarrow> ctl' = ctl \<and> rs' = sp_optimistic sim)"
proof -
  have "ctl' = ctl \<and> rs' = sp_optimistic sim" if k: "k \<le> 2" and opt: "into_optimistic ext evm vclk k sim ctl = (rs', ctl')"
  proof -
    have "snd (run_validator ext evm vclk (\<lambda>j. k \<le> j) (sp_validation sim) (fc_shared ctl)) = fc_shared ctl"
      using k by (simp add: run_validator_def Let_def split: list.splits option.splits sum.splits)
    with opt show ?thesis by (auto simp: into_optimistic_def)
  qed
  moreover have "run_validator ext evm vclk cancelled inp sh = (Some v, sh') \<Longrightarrow>
      queues_only_corrections sh v sh' \<and> counts_distinct inp sh v sh'"
    by (rule run_validator_effects)
  ultimately show ?thesis by (cases v) (auto simp: queues_only_corrections_def counts_distinct_def)
qed

theorem only_corrections_are_queued_witness:
  "\<exists>sn sh. run_validator sample_ext sample_evm (\<lambda>_ _. 0) (\<lambda>_. False) (sp_validation (sample_sim sn)) (fc_shared sample_controller) =
      (Some (Corrected [byte_result 200] [sample_change] []), sh) \<and> sh_pending sh = [sample_change] \<and> sh_rerun_count sh \<le> 1"
proof -
  obtain sn c1 where "snapshot_storage_value sn 1 5 = Some 100" by (rule live_snapshot)
  then obtain sh where rv: "run_validator sample_ext sample_evm (\<lambda>_ _. 0) (\<lambda>_. False) (sp_validation (sample_sim sn))
      (fc_shared sample_controller) = (Some (Corrected [byte_result 200] [sample_change] []), sh)"
    using sample_verdict [of sn] by (auto simp: validate_def split: prod.splits option.splits)
  moreover have "sh_pending (fc_shared sample_controller) = []" "sh_rerun_count (fc_shared sample_controller) = 0"
    by (simp_all add: sample_controller_def controller_new_def controller_with_clock_def)
  ultimately have "sh_pending sh = [sample_change] \<and> sh_rerun_count sh \<le> 1"
    using only_corrections_are_queued [of sample_ext sample_evm "\<lambda>_ _. 0" "\<lambda>_. False" "sp_validation (sample_sim sn)"
        "fc_shared sample_controller" "Corrected [byte_result 200] [sample_change] []" sh] by simp
  with rv show ?thesis by blast
qed

section \<open>The registry\<close>

text \<open>
  \<^bold>\<open>C29.\<close> A reorganisation that drops the blocks from \<open>first\<close> on revokes every promise that reaches into them
  and no other: a slot is volatile afterwards exactly if it was before or its effective validity, slot before
  account before default, was a promise through some block at or after \<open>first\<close>. A slot rule overrides its
  account's rule, which overrides the default, and setting one changes no other slot's answer.
\<close>

theorem reorg_revokes_promises:
  "is_volatile a s now (invalidate_valid_through_from first r) \<longleftrightarrow>
     is_volatile a s now r \<or> (\<exists>m. validity a s r = ValidThrough m \<and> first \<le> m)"
proof -
  have "validity a s (invalidate_valid_through_from first r) = invalidate_validity first (validity a s r)"
    by (simp add: validity_def invalidate_valid_through_from_def split: option.splits)
  then show ?thesis by (cases "validity a s r") (auto simp: is_volatile_def)
qed

end
