(* ===== verification/Versioned.thy ===== *)
theory Versioned
  imports Slot_Observations
begin

text \<open>
  Versioned cache files (\<^verbatim>\<open>src/cache/versioned.rs\<close>) and the persistence of the observation
  tracker. A file is an 8-byte magic, a little-endian version and a bincode payload; anything else reads
  as a cache miss.

  bincode is a parameter: a serializer, and a deserializer that is given a size limit and a byte
  stream and returns the value with the number of bytes it consumed. What the code relies on of it is
  \<open>bincode_ok\<close>. The file system (standard library) is a record of its files and of the failures it gives.
\<close>

section \<open>The codec\<close>

record 'a bincode =
  serialize :: "'a \<Rightarrow> string + bytes"
  deserialize_from :: "nat \<Rightarrow> bytes \<Rightarrow> string + ('a \<times> nat)"

text \<open>Deserializing reads back what was serialized and consumes exactly those bytes of the stream.\<close>

definition bincode_ok :: "'a bincode \<Rightarrow> bool" where
  "bincode_ok bc \<longleftrightarrow>
     (\<forall>v bs extra lim. serialize bc v = Okay bs \<and> length bs \<le> lim \<longrightarrow>
        deserialize_from bc lim (bs @ extra) = Okay (v, length bs))"

datatype persistence_error =
    PeSerialize string string
  | PeCreateDir "string list" string
  | PeWrite "string list" string

definition version_bytes :: nat where
  "version_bytes = 4"

definition to_le_bytes :: "u32 \<Rightarrow> bytes" where
  "to_le_bytes v = map (\<lambda>i. ucast (drop_bit (8 * i) v)) [0, 1, 2, 3]"

fun from_le_bytes :: "bytes \<Rightarrow> u32" where
  "from_le_bytes [] = 0"
| "from_le_bytes (b # bs) = ucast b OR push_bit 8 (from_le_bytes bs)"

definition encode :: "'a bincode \<Rightarrow> bytes \<Rightarrow> u32 \<Rightarrow> 'a \<Rightarrow> string \<Rightarrow> persistence_error + bytes" where
  "encode bc magic version v label =
     (case serialize bc v of
        Inl e \<Rightarrow> Err (PeSerialize label e)
      | Inr payload \<Rightarrow> Okay (magic @ to_le_bytes version @ payload))"

definition decode :: "'a bincode \<Rightarrow> bytes \<Rightarrow> bytes \<Rightarrow> u32 \<Rightarrow> 'a option" where
  "decode bc data magic version =
     (let header_len = length magic + version_bytes
      in if length data < header_len then None
         else if take (length magic) data \<noteq> magic then None
         else if from_le_bytes (take version_bytes (drop (length magic) data)) \<noteq> version then None
         else let payload = drop header_len data
           in case deserialize_from bc (length payload) payload of
                Inl e \<Rightarrow> None
              | Inr (v, position) \<Rightarrow> if position \<noteq> length payload then None else Some v)"

section \<open>Files\<close>

type_synonym path = "string list"

record filesystem =
  fs_files :: "path \<Rightarrow> bytes option"
  fs_mkdir_error :: "path \<Rightarrow> string option"
  fs_write_error :: "path \<Rightarrow> (string \<times> bytes option) option"

definition parent :: "path \<Rightarrow> path option" where
  "parent p = (if p = [] then None else Some (butlast p))"

definition create_dir_all :: "path \<Rightarrow> filesystem \<Rightarrow> string option" where
  "create_dir_all p fs = (if p = [] then None else fs_mkdir_error fs p)"

text \<open>A failed write leaves whatever it left of the file.\<close>

definition fs_write :: "path \<Rightarrow> bytes \<Rightarrow> filesystem \<Rightarrow> string option \<times> filesystem" where
  "fs_write p data fs =
     (case fs_write_error fs p of
        Some (e, rest) \<Rightarrow> (Some e, fs\<lparr>fs_files := (fs_files fs)(p := rest)\<rparr>)
      | None \<Rightarrow> (None, fs\<lparr>fs_files := (fs_files fs)(p \<mapsto> data)\<rparr>))"

section \<open>The tracker file\<close>

type_synonym observations = "(slot_key, slot_observation) hashmap"

definition slot_observations_magic :: bytes where
  "slot_observations_magic = map (\<lambda>c. of_nat (of_char c)) ''EFC-SOBS''"

definition slot_observations_version :: u32 where
  "slot_observations_version = 1"

definition tracker_load :: "observations bincode \<Rightarrow> path \<Rightarrow> filesystem \<Rightarrow> slot_observation_tracker" where
  "tracker_load bc p fs =
     (case fs_files fs p of
        Some data \<Rightarrow>
          (case decode bc data slot_observations_magic slot_observations_version of
             Some obs \<Rightarrow> \<lparr>tr_observations = obs, tr_skipped_this_cycle = [], tr_dirty = False\<rparr>
           | None \<Rightarrow> tracker_new)
      | None \<Rightarrow> tracker_new)"

definition mkdir_parent :: "path \<Rightarrow> filesystem \<Rightarrow> persistence_error option" where
  "mkdir_parent p fs =
     (case parent p of
        None \<Rightarrow> None
      | Some d \<Rightarrow> map_option (PeCreateDir d) (create_dir_all d fs))"

definition tracker_save ::
  "observations bincode \<Rightarrow> path \<Rightarrow> slot_observation_tracker \<Rightarrow> filesystem
     \<Rightarrow> (persistence_error + unit) \<times> slot_observation_tracker \<times> filesystem" where
  "tracker_save bc p t fs =
     (if \<not> tr_dirty t then (Okay (), t, fs)
      else case mkdir_parent p fs of
        Some e \<Rightarrow> (Err e, t, fs)
      | None \<Rightarrow>
          (case encode bc slot_observations_magic slot_observations_version (tr_observations t) ''slot observations'' of
             Inl e \<Rightarrow> (Err e, t, fs)
           | Inr data \<Rightarrow>
               (case fs_write p data fs of
                  (Some e, fs') \<Rightarrow> (Err (PeWrite p e), t, fs')
                | (None, fs') \<Rightarrow> (Okay (), t\<lparr>tr_dirty := False\<rparr>, fs'))))"

section \<open>Round trips\<close>

lemma length_to_le_bytes [simp]: "length (to_le_bytes v) = version_bytes"
  by (simp add: to_le_bytes_def version_bytes_def)

lemma from_to_le_bytes [simp]: "from_le_bytes (to_le_bytes v) = v"
  apply (rule bit_word_eqI)
  apply (auto simp: to_le_bytes_def bit_simps not_le)
  subgoal for n by (cases "n < 24") simp_all
  done

lemma decode_encode:
  assumes "bincode_ok bc" "serialize bc v = Okay payload"
  shows "decode bc (magic @ to_le_bytes ver @ payload @ extra) magic' ver' =
    (if length magic' = length magic
     then if magic' = magic \<and> ver' = ver \<and> extra = [] then Some v else None
     else decode bc (magic @ to_le_bytes ver @ payload @ extra) magic' ver')"
proof -
  have "deserialize_from bc (length payload + length extra) (payload @ extra) = Okay (v, length payload)"
    using assms by (simp add: bincode_ok_def)
  then show ?thesis by (auto simp: decode_def Let_def)
qed

text \<open>
  \<^bold>\<open>C21.\<close> A versioned file reads back as the value it was written from, and only under its own magic and
  version: another magic of the same length, another version, trailing bytes or a file shorter than the
  header all read as a miss.
\<close>

theorem versioned_round_trip:
  assumes "bincode_ok bc" "encode bc magic ver v label = Okay data"
  shows "decode bc data magic ver = Some v \<and>
    (length magic' = length magic \<and> (magic' \<noteq> magic \<or> ver' \<noteq> ver) \<longrightarrow> decode bc data magic' ver' = None) \<and>
    (extra \<noteq> [] \<longrightarrow> decode bc (data @ extra) magic ver = None) \<and>
    (n < length magic + version_bytes \<longrightarrow> decode bc (take n data) magic ver = None)"
proof -
  obtain payload where payload: "serialize bc v = Okay payload" and data: "data = magic @ to_le_bytes ver @ payload"
    using assms(2) by (auto simp: encode_def split: sum.splits)
  note dec = decode_encode [OF assms(1) payload, of magic ver]
  have "decode bc data magic ver = Some v" using dec [of "[]" magic ver] by (simp add: data)
  moreover have "length magic' = length magic \<and> (magic' \<noteq> magic \<or> ver' \<noteq> ver) \<Longrightarrow> decode bc data magic' ver' = None"
    using dec [of "[]" magic' ver'] by (auto simp: data)
  moreover have "extra \<noteq> [] \<Longrightarrow> decode bc (data @ extra) magic ver = None"
    using dec [of extra magic ver] by (simp add: data)
  moreover have "length (take n data) < length magic + version_bytes" if "n < length magic + version_bytes"
    using that by simp
  then have "n < length magic + version_bytes \<Longrightarrow> decode bc (take n data) magic ver = None"
    unfolding decode_def Let_def by (rule if_P)
  ultimately show ?thesis by blast
qed

text \<open>A bincode for byte strings: a length byte and the bytes.\<close>

definition byte_bincode :: "bytes bincode" where
  "byte_bincode =
     \<lparr>serialize = (\<lambda>v. if length v < 256 then Okay (of_nat (length v) # v) else Err ''too long''),
      deserialize_from = (\<lambda>lim bs. case bs of [] \<Rightarrow> Err ''eof''
        | b # rest \<Rightarrow> if length rest < unat b then Err ''eof'' else Okay (take (unat b) rest, unat b + 1))\<rparr>"

lemma byte_bincode_ok: "bincode_ok byte_bincode"
  by (auto simp: bincode_ok_def byte_bincode_def unat_of_nat split: if_splits)

theorem versioned_round_trip_witness:
  "decode byte_bincode ([1, 2] @ to_le_bytes 7 @ [2, 8, 9]) [1, 2] 7 = Some [8, 9] \<and>
   decode byte_bincode (([1, 2] @ to_le_bytes 7 @ [2, 8, 9]) @ [0]) [1, 2] 7 = None"
proof -
  have enc: "encode byte_bincode [1, 2] 7 [8, 9] ''x'' = Okay ([1, 2] @ to_le_bytes 7 @ [2, 8, 9])"
    by (simp add: encode_def byte_bincode_def)
  show ?thesis
    using versioned_round_trip [OF byte_bincode_ok enc, of _ _ "[0]"] by simp
qed

section \<open>The tracker on disk\<close>

datatype tracker_op =
    OpObserve address u256 u256 u64
  | OpRecordSkip address u256
  | OpTakeSkipped
  | OpResetContract address
  | OpBeginCycle
  | OpSave "path \<Rightarrow> string option" "path \<Rightarrow> (string \<times> bytes option) option"

text \<open>Every save meets its own file-system failures.\<close>

fun tracker_step ::
  "observations bincode \<Rightarrow> path \<Rightarrow> tracker_op \<Rightarrow> slot_observation_tracker \<times> filesystem
     \<Rightarrow> slot_observation_tracker \<times> filesystem" where
  "tracker_step bc p (OpObserve a s v now) (t, fs) = (snd (observe a s v now t), fs)"
| "tracker_step bc p (OpRecordSkip a s) (t, fs) = (record_skip a s t, fs)"
| "tracker_step bc p OpTakeSkipped (t, fs) = (snd (take_skipped t), fs)"
| "tracker_step bc p (OpResetContract a) (t, fs) = (reset_contract a t, fs)"
| "tracker_step bc p OpBeginCycle (t, fs) = (begin_cycle t, fs)"
| "tracker_step bc p (OpSave mk wr) (t, fs) =
     snd (tracker_save bc p t (fs\<lparr>fs_mkdir_error := mk, fs_write_error := wr\<rparr>))"

definition on_disk :: "observations bincode \<Rightarrow> path \<Rightarrow> slot_observation_tracker \<times> filesystem \<Rightarrow> bool" where
  "on_disk bc p = (\<lambda>(t, fs). tr_dirty t \<or> tr_observations (tracker_load bc p fs) = tr_observations t)"

lemma tracker_load_cong: "fs_files fs' p = fs_files fs p \<Longrightarrow> tracker_load bc p fs' = tracker_load bc p fs"
  by (simp add: tracker_load_def)

lemma save_on_disk:
  assumes "bincode_ok bc" "on_disk bc p (t, fs)"
  shows "on_disk bc p (snd (tracker_save bc p t (fs\<lparr>fs_mkdir_error := mk, fs_write_error := wr\<rparr>)))"
proof (cases "tr_dirty t")
  case False
  then show ?thesis using assms(2)
    by (simp add: on_disk_def tracker_save_def tracker_load_cong [of "fs\<lparr>fs_mkdir_error := mk, fs_write_error := wr\<rparr>" p fs])
next
  case True
  have "decode bc (slot_observations_magic @ to_le_bytes slot_observations_version @ payload)
      slot_observations_magic slot_observations_version = Some v"
    if "serialize bc v = Okay payload" for v payload
    using decode_encode [OF assms(1) that, of _ _ "[]" slot_observations_magic] by simp
  then show ?thesis using True
    by (auto simp: on_disk_def tracker_save_def encode_def fs_write_def tracker_load_def split: option.splits sum.splits)
qed

lemma step_on_disk:
  assumes "bincode_ok bc" "on_disk bc p x"
  shows "on_disk bc p (tracker_step bc p op x)"
proof -
  obtain t fs where x: "x = (t, fs)" by (cases x)
  show ?thesis
  proof (cases op)
    case (OpSave mk wr)
    then show ?thesis using assms save_on_disk [of bc p t fs] by (simp add: x)
  qed (use assms(2) in \<open>auto simp: x on_disk_def observe_def record_skip_def take_skipped_def reset_contract_def
        begin_cycle_def Let_def split: option.splits\<close>)
qed

text \<open>
  \<^bold>\<open>C22.\<close> Along any sequence of tracker operations and saves, each with its own file-system failures, after
  loading the tracker from its path, a tracker that is not marked dirty is on disk: loading the file again
  gives back exactly its observations. So a failed save is never taken for a successful one.
\<close>

theorem clean_tracker_is_on_disk:
  assumes "bincode_ok bc"
    and "fold (tracker_step bc p) ops (tracker_load bc p fs, fs) = (t, fs')"
    and "\<not> tr_dirty t"
  shows "tr_observations (tracker_load bc p fs') = tr_observations t"
proof -
  have "on_disk bc p (fold (tracker_step bc p) ops x)" if "on_disk bc p x" for x
    using that by (induction ops arbitrary: x) (simp_all add: step_on_disk [OF assms(1)])
  moreover have "on_disk bc p (tracker_load bc p fs, fs)" by (simp add: on_disk_def)
  ultimately have "on_disk bc p (t, fs')" using assms(2) by metis
  then show ?thesis using assms(3) by (simp add: on_disk_def)
qed

text \<open>A bincode that knows two observation maps, enough for a concrete run.\<close>

definition one_observation :: observations where
  "one_observation = tr_observations (snd (observe 1 5 7 100 tracker_new))"

definition obs_bincode :: "observations bincode" where
  "obs_bincode =
     \<lparr>serialize = (\<lambda>v. if v = [] then Okay [0] else if v = one_observation then Okay [1] else Err ''unsupported''),
      deserialize_from = (\<lambda>lim bs. case bs of [] \<Rightarrow> Err ''eof''
        | b # rest \<Rightarrow> Okay (if b = 0 then [] else one_observation, 1))\<rparr>"

lemma obs_bincode_ok: "bincode_ok obs_bincode"
  by (auto simp: bincode_ok_def obs_bincode_def split: if_splits)

definition empty_fs :: filesystem where
  "empty_fs = \<lparr>fs_files = (\<lambda>p. None), fs_mkdir_error = (\<lambda>p. None), fs_write_error = (\<lambda>p. None)\<rparr>"

definition tracker_run :: "slot_observation_tracker \<times> filesystem" where
  "tracker_run = fold (tracker_step obs_bincode [''obs.bin''])
     [OpObserve 1 5 7 100, OpSave (\<lambda>p. None) (\<lambda>p. Some (''full'', None)), OpSave (\<lambda>p. None) (\<lambda>p. None)]
     (tracker_load obs_bincode [''obs.bin''] empty_fs, empty_fs)"

theorem clean_tracker_is_on_disk_witness:
  "tr_observations (tracker_load obs_bincode [''obs.bin''] (snd tracker_run)) = tr_observations (fst tracker_run) \<and>
   tr_observations (fst tracker_run) = one_observation"
proof -
  have load: "tracker_load obs_bincode p empty_fs = tracker_new" for p
    by (simp add: tracker_load_def empty_fs_def)
  have obs: "tr_observations (snd (observe 1 5 7 100 tracker_new)) = one_observation"
    "tr_dirty (snd (observe 1 5 7 100 tracker_new))" "one_observation \<noteq> []"
    by (simp_all add: one_observation_def observe_def tracker_new_def)
  have ser: "serialize obs_bincode one_observation = Okay [1]" using obs(3) by (simp add: obs_bincode_def)
  have clean: "\<not> tr_dirty (fst tracker_run)" and held: "tr_observations (fst tracker_run) = one_observation"
    by (simp_all add: tracker_run_def load obs ser tracker_save_def mkdir_parent_def parent_def create_dir_all_def
        encode_def fs_write_def)
  have "tr_observations (tracker_load obs_bincode [''obs.bin''] (snd tracker_run)) = tr_observations (fst tracker_run)"
    by (rule clean_tracker_is_on_disk [OF obs_bincode_ok _ clean]) (subst prod.collapse, rule tracker_run_def [symmetric])
  then show ?thesis by (simp add: held)
qed

end
