(* ===== verification/Reactive_Types.thy ===== *)
theory Reactive_Types
  imports Block_Context Freshness
begin

text \<open>
  The vocabulary of the reactive runtime (\<^verbatim>\<open>src/reactive/mod.rs\<close>): block references, chain status and
  chain controls, input records with their alloy payloads, delivery scopes and audiences, resync
  requests, handler effects, health, metrics and reports.

  The payload types of alloy are records of the fields the runtime reads (\<open>rpc_log\<close>, \<open>rpc_header\<close>,
  \<open>rpc_transaction\<close>, \<open>full_block\<close>). An error message that interpolates values is modelled by its fixed text.
  \<open>hk_payload\<close>, an opaque client value in the code, is an identity.
\<close>

section \<open>Block references\<close>

record block_ref =
  br_number :: u64
  br_hash :: b256
  br_parent_hash :: "b256 option"
  br_timestamp :: "u64 option"

definition checked_succ :: "u64 \<Rightarrow> u64 option" where
  "checked_succ n = (if n = - 1 then None else Some (n + 1))"

definition checked_pred :: "u64 \<Rightarrow> u64 option" where
  "checked_pred n = (if n = 0 then None else Some (n - 1))"

definition same_block :: "block_ref \<Rightarrow> block_ref \<Rightarrow> bool" where
  "same_block a b \<longleftrightarrow> br_number a = br_number b \<and> br_hash a = br_hash b"

definition optional_metadata_compatible :: "'a option \<Rightarrow> 'a option \<Rightarrow> bool" where
  "optional_metadata_compatible l r =
     (case l of None \<Rightarrow> True | Some x \<Rightarrow> (case r of None \<Rightarrow> True | Some y \<Rightarrow> x = y))"

definition block_refs_compatible :: "block_ref \<Rightarrow> block_ref \<Rightarrow> bool" where
  "block_refs_compatible l r \<longleftrightarrow> same_block l r
     \<and> optional_metadata_compatible (br_parent_hash l) (br_parent_hash r)
     \<and> optional_metadata_compatible (br_timestamp l) (br_timestamp r)"

fun optional_block_refs_are_compatible :: "block_ref option \<Rightarrow> block_ref option \<Rightarrow> bool" where
  "optional_block_refs_are_compatible None None = True"
| "optional_block_refs_are_compatible (Some l) (Some r) = block_refs_compatible l r"
| "optional_block_refs_are_compatible _ _ = False"

definition enrich_block_ref :: "block_ref \<Rightarrow> block_ref \<Rightarrow> block_ref" where
  "enrich_block_ref retained incoming =
     retained\<lparr>br_parent_hash := (if br_parent_hash retained = None then br_parent_hash incoming else br_parent_hash retained),
              br_timestamp := (if br_timestamp retained = None then br_timestamp incoming else br_timestamp retained)\<rparr>"

definition set_or_enrich_block_ref :: "block_ref option \<Rightarrow> block_ref \<Rightarrow> block_ref option" where
  "set_or_enrich_block_ref current incoming =
     (case current of
        Some c \<Rightarrow> if same_block c incoming then Some (enrich_block_ref c incoming) else Some incoming
      | None \<Rightarrow> Some incoming)"

definition advance_or_enrich_coverage :: "block_ref option \<Rightarrow> block_ref \<Rightarrow> block_ref option" where
  "advance_or_enrich_coverage current incoming =
     (case current of
        Some c \<Rightarrow> if same_block c incoming then Some (enrich_block_ref c incoming)
                  else if br_number incoming \<le> br_number c then Some c
                  else Some incoming
      | None \<Rightarrow> Some incoming)"

section \<open>Flashblocks, status and controls\<close>

record provider_ref =
  pv_endpoint :: string
  pv_generation :: u64

record flashblock_ref =
  fb_provider :: provider_ref
  fb_payload_id :: "u64 option"
  fb_index :: "u64 option"
  fb_block_number :: u64
  fb_content_hash :: b256
  fb_partial_block_hash :: "b256 option"
  fb_parent_hash :: "b256 option"
  fb_state_root :: "b256 option"
  fb_transactions_root :: "b256 option"
  fb_transaction_hashes :: "b256 list"
  fb_timestamp :: "u64 option"
  fb_base_fee_per_gas :: "u64 option"
  fb_beneficiary :: "address option"
  fb_prevrandao :: "b256 option"
  fb_gas_limit :: "u64 option"

definition flashblock_block_ref :: "flashblock_ref \<Rightarrow> block_ref" where
  "flashblock_block_ref f = \<lparr>br_number = fb_block_number f, br_hash = fb_content_hash f,
     br_parent_hash = fb_parent_hash f, br_timestamp = fb_timestamp f\<rparr>"

definition same_payload :: "flashblock_ref \<Rightarrow> flashblock_ref \<Rightarrow> bool" where
  "same_payload f g \<longleftrightarrow> fb_provider f = fb_provider g \<and>
     (case (fb_payload_id f, fb_payload_id g) of
        (Some l, Some r) \<Rightarrow> l = r
      | _ \<Rightarrow> fb_block_number f = fb_block_number g \<and> fb_parent_hash f = fb_parent_hash g)"

datatype chain_status =
    StPending
  | StPreconfirmed flashblock_ref
  | StIncluded block_ref u64
  | StSafe block_ref
  | StFinalized block_ref
  | StReorged block_ref

fun is_canonical_status :: "chain_status \<Rightarrow> bool" where
  "is_canonical_status (StIncluded _ _) = True"
| "is_canonical_status (StSafe _) = True"
| "is_canonical_status (StFinalized _) = True"
| "is_canonical_status _ = False"

datatype chain_control =
    CcReorg block_ref block_ref block_ref
  | CcSafe block_ref
  | CcFinalized block_ref
  | CcCanonicalProgress block_ref
  | CcLogCoverage block_ref
  | CcBarrier bytes "block_ref option"

fun is_reorg_control :: "chain_control \<Rightarrow> bool" where
  "is_reorg_control (CcReorg _ _ _) = True"
| "is_reorg_control _ = False"

fun canonical_coverage_control_block :: "chain_control \<Rightarrow> block_ref option" where
  "canonical_coverage_control_block (CcCanonicalProgress b) = Some b"
| "canonical_coverage_control_block (CcBarrier _ (Some b)) = Some b"
| "canonical_coverage_control_block _ = None"

section \<open>Inputs\<close>

record log_inner =
  li_address :: address
  li_topics :: "b256 list"
  li_data :: bytes

record rpc_log =
  lg_inner :: log_inner
  lg_block_hash :: "b256 option"
  lg_block_number :: "u64 option"
  lg_block_timestamp :: "u64 option"
  lg_transaction_hash :: "b256 option"
  lg_transaction_index :: "u64 option"
  lg_log_index :: "u64 option"
  lg_removed :: bool

record rpc_header = block_header +
  rh_hash :: b256
  rh_parent_hash :: b256

record rpc_transaction =
  rt_hash :: b256
  rt_block_hash :: "b256 option"
  rt_block_number :: "u64 option"
  rt_transaction_index :: "u64 option"
  rt_chain_id :: "u64 option"
  rt_from :: address
  rt_to :: "address option"
  rt_input :: bytes

record full_block =
  fl_header :: rpc_header
  fl_transactions :: "rpc_transaction list option"

datatype reactive_input =
    InLog rpc_log
  | InBlockHeader rpc_header
  | InFullBlock full_block
  | InPendingTxHash b256
  | InPendingTx rpc_transaction

datatype input_source = SrcBatch | SrcSubscription | SrcPoll | SrcBackfill | SrcFlashblocks | SrcSynthetic

record reactive_context =
  cx_chain_id :: "u64 option"
  cx_source :: input_source
  cx_chain_status :: chain_status
  cx_block :: "block_ref option"
  cx_transaction_index :: "u64 option"
  cx_log_index :: "u64 option"

record reactive_input_record =
  rr_input :: reactive_input
  rr_context :: reactive_context
  rr_provider :: "provider_ref option"

datatype input_ref =
    RefLog "u64 option" b256 b256 u64
  | RefPendingTx "u64 option" b256
  | RefBlock "u64 option" b256 u64

definition header_block_ref :: "rpc_header \<Rightarrow> block_ref" where
  "header_block_ref h = \<lparr>br_number = hdr_number h, br_hash = rh_hash h,
     br_parent_hash = Some (rh_parent_hash h), br_timestamp = Some (hdr_timestamp h)\<rparr>"

fun or_else :: "'a option \<Rightarrow> 'a option \<Rightarrow> 'a option" where
  "or_else (Some x) y = Some x"
| "or_else None y = y"

fun input_ref_of :: "reactive_input \<Rightarrow> reactive_context \<Rightarrow> input_ref" where
  "input_ref_of (InLog l) cx = RefLog (cx_chain_id cx)
     (unwrap_or (or_else (lg_block_hash l) (map_option br_hash (cx_block cx))) 0)
     (unwrap_or (lg_transaction_hash l) 0)
     (unwrap_or (or_else (lg_log_index l) (cx_log_index cx)) 0)"
| "input_ref_of (InPendingTxHash h) cx = RefPendingTx (cx_chain_id cx) h"
| "input_ref_of (InPendingTx t) cx = RefPendingTx (cx_chain_id cx) (rt_hash t)"
| "input_ref_of (InBlockHeader h) cx = RefBlock (cx_chain_id cx) (rh_hash h) (hdr_number h)"
| "input_ref_of (InFullBlock b) cx = RefBlock (cx_chain_id cx) (rh_hash (fl_header b)) (hdr_number (fl_header b))"

abbreviation record_input_ref :: "reactive_input_record \<Rightarrow> input_ref" where
  "record_input_ref r \<equiv> input_ref_of (rr_input r) (rr_context r)"

fun is_removed_log :: "reactive_input \<Rightarrow> bool" where
  "is_removed_log (InLog l) = lg_removed l"
| "is_removed_log _ = False"

definition context_block_ref :: "reactive_context \<Rightarrow> block_ref option" where
  "context_block_ref cx =
     (case cx_chain_status cx of
        StIncluded b _ \<Rightarrow> Some b
      | StSafe b \<Rightarrow> Some b
      | StFinalized b \<Rightarrow> Some b
      | StReorged b \<Rightarrow> Some b
      | StPreconfirmed _ \<Rightarrow> cx_block cx
      | StPending \<Rightarrow> cx_block cx)"

definition canonical_record_block :: "reactive_input_record \<Rightarrow> block_ref option" where
  "canonical_record_block r =
     (if is_removed_log (rr_input r) then None
      else if is_canonical_status (cx_chain_status (rr_context r)) then context_block_ref (rr_context r)
      else None)"

fun payload_block_ref :: "reactive_input \<Rightarrow> block_ref option" where
  "payload_block_ref (InLog l) =
     (case (lg_block_number l, lg_block_hash l) of
        (Some n, Some h) \<Rightarrow> Some \<lparr>br_number = n, br_hash = h, br_parent_hash = None, br_timestamp = lg_block_timestamp l\<rparr>
      | _ \<Rightarrow> None)"
| "payload_block_ref (InBlockHeader h) = Some (header_block_ref h)"
| "payload_block_ref (InFullBlock b) = Some (header_block_ref (fl_header b))"
| "payload_block_ref (InPendingTxHash _) = None"
| "payload_block_ref (InPendingTx _) = None"

definition block_ref_from_record :: "reactive_input_record \<Rightarrow> block_ref option" where
  "block_ref_from_record r = or_else (context_block_ref (rr_context r)) (payload_block_ref (rr_input r))"

datatype reorg_reason = RemovedLog | ReorgedInput | ParentMismatch | Explicit

definition reorg_signal_block :: "reactive_input_record \<Rightarrow> (block_ref \<times> reorg_reason) option" where
  "reorg_signal_block r =
     (if is_removed_log (rr_input r)
      then map_option (\<lambda>b. (b, RemovedLog)) (block_ref_from_record r)
      else case cx_chain_status (rr_context r) of
             StReorged b \<Rightarrow> Some (b, ReorgedInput)
           | _ \<Rightarrow> None)"

section \<open>Delivery\<close>

type_synonym handler_id = string

datatype delivery_audience = AudAll | AudOwners "handler_id list" | AudAllExcept "handler_id list"

datatype delivery_scope = ScCanonical | ScCanonicalProgress | ScOwnerCatchup | ScPreconfirmed

fun advances_canonical_state :: "delivery_scope \<Rightarrow> bool" where
  "advances_canonical_state ScCanonical = True"
| "advances_canonical_state ScCanonicalProgress = True"
| "advances_canonical_state _ = False"

type_synonym scoped_record = "reactive_input_record \<times> delivery_audience \<times> delivery_scope"

section \<open>Resyncs and effects\<close>

record account_field_mask =
  fm_balance :: bool
  fm_nonce :: bool
  fm_code :: bool

datatype resync_target =
    TgStorageSlot address u256
  | TgStorageSlots address "u256 list"
  | TgAccount address account_field_mask

datatype resync_block =
    RbLatest | RbPending | RbSafe | RbFinalized | RbNumber u64
  | RbHash u64 b256 bool

datatype resync_reason = HandlerRequested | SkippedStateEffect | MissedBlockRange | RootMoved | CustomReason string

datatype resync_priority = PrLow | PrNormal | PrHigh

record resync_request =
  rq_id :: string
  rq_reason :: resync_reason
  rq_block :: resync_block
  rq_targets :: "resync_target list"
  rq_priority :: resync_priority

fun resync_target_address :: "resync_target \<Rightarrow> address" where
  "resync_target_address (TgStorageSlot a _) = a"
| "resync_target_address (TgStorageSlots a _) = a"
| "resync_target_address (TgAccount a _) = a"

datatype invalidation_reason = InvHandlerRequested | InvReorg | InvCustom string

record invalidation_request =
  iv_scope :: purge_scope
  iv_address :: address
  iv_reason :: invalidation_reason

type_synonym report_tag = "string \<times> string"

record speculative_request =
  sq_id :: string
  sq_input_ref :: input_ref
  sq_labels :: "report_tag list"

record hook_signal =
  hk_namespace :: string
  hk_kind :: string
  hk_labels :: "report_tag list"
  hk_payload :: "nat option"

datatype reactive_effect =
    EfStateUpdate state_update
  | EfResync resync_request
  | EfInvalidate invalidation_request
  | EfHook hook_signal
  | EfSpeculative speculative_request

datatype state_effect_quality =
  ExactFromInput | AppliedWithPendingResync | ResyncedAuthoritatively | RequiresRepair | NoStateEffect

record handler_outcome =
  ho_effects :: "reactive_effect list"
  ho_quality :: state_effect_quality
  ho_tags :: "report_tag list"

datatype effect_target =
    TStorageSlot address u256
  | TAccountBalance address
  | TAccountNonce address
  | TAccountCode address
  | TMaskedStorageSlot address u256 u256

datatype reactive_error =
    HandlerFailed handler_id string
  | ConflictingEffects input_ref effect_target handler_id handler_id
  | InvalidPendingEffect input_ref handler_id string
  | InvalidInputRecord string
  | InvalidChainControl string
  | OwnerCatchupOutsideJournal u64 b256

section \<open>Laws of block references\<close>

lemma same_block_refl [simp]: "same_block b b"
  by (simp add: same_block_def)

lemma enrich_block_ref_identity [simp]:
  "br_number (enrich_block_ref r i) = br_number r" "br_hash (enrich_block_ref r i) = br_hash r"
  "same_block (enrich_block_ref r i) b = same_block r b" "same_block b (enrich_block_ref r i) = same_block b r"
  by (simp_all add: enrich_block_ref_def same_block_def)

lemma block_refs_compatible_refl [simp]: "block_refs_compatible b b"
  by (simp add: block_refs_compatible_def optional_metadata_compatible_def split: option.splits)

lemma block_refs_compatible_sym: "block_refs_compatible a b \<longleftrightarrow> block_refs_compatible b a"
  by (auto simp: block_refs_compatible_def same_block_def optional_metadata_compatible_def split: option.splits)

lemma enrich_self [simp]: "enrich_block_ref b b = b"
  by (simp add: enrich_block_ref_def)

lemma enrich_commutes:
  "block_refs_compatible a b \<Longrightarrow> enrich_block_ref a b = enrich_block_ref b a"
  by (cases a; cases b)
     (auto simp: enrich_block_ref_def block_refs_compatible_def same_block_def optional_metadata_compatible_def
       split: option.splits)

lemma checked_succ_iff [simp]: "checked_succ n = Some m \<longleftrightarrow> n \<noteq> - 1 \<and> m = n + 1"
  by (auto simp: checked_succ_def)

lemma checked_pred_iff [simp]: "checked_pred n = Some m \<longleftrightarrow> n \<noteq> 0 \<and> m = n - 1"
  by (auto simp: checked_pred_def)

end
