(* ===== verification/Reactive_Registry.thy ===== *)
theory Reactive_Registry
  imports Reactive_Types
begin

text \<open>
  The handler registry of the reactive runtime (\<open>ReactiveRegistry\<close>, \<^verbatim>\<open>src/reactive/mod.rs\<close>): interests and
  their matching, registration and removal with the routing index over emitters, topics and data slices,
  the candidates of a log, and the merging of log filters into few provider subscriptions.

  A handler is client code: the record \<open>reactive_handler\<close> of its four methods. The parameter \<open>rpc_matches\<close> is
  alloy's \<open>Filter::rpc_matches\<close>; a filter's sets are lists, compared as sets. A \<open>BTreeMap\<close> is an association
  list in key order, a \<open>BTreeSet\<close> a sorted list.
\<close>

section \<open>Ordered maps and sets\<close>

fun bt_insert :: "'k::linorder \<Rightarrow> 'v \<Rightarrow> ('k \<times> 'v) list \<Rightarrow> ('k \<times> 'v) list" where
  "bt_insert k v [] = [(k, v)]"
| "bt_insert k v ((k', v') # m) =
     (if k < k' then (k, v) # (k', v') # m
      else if k = k' then (k, v) # m
      else (k', v') # bt_insert k v m)"

definition bs_insert :: "'k::linorder \<Rightarrow> 'k list \<Rightarrow> 'k list" where
  "bs_insert x xs = (if x \<in> set xs then xs else insort x xs)"

section \<open>Interests\<close>

datatype filter_block_option =
    BlockRange "block_number_or_tag option" "block_number_or_tag option"
  | AtBlockHash b256

record log_filter =
  ft_block_option :: filter_block_option
  ft_address :: "address list"
  ft_topics :: "b256 list list"

datatype route_key = RkAddress address | RkBytes32 b256 | RkBytes bytes

datatype route_key_spec =
    EmitterAddress
  | TopicSpec nat
  | DataSliceSpec nat nat
  | CustomSpec "rpc_log \<Rightarrow> route_key option"

definition nth_opt :: "'a list \<Rightarrow> nat \<Rightarrow> 'a option" where
  "nth_opt xs i = (if i < length xs then Some (xs ! i) else None)"

definition data_slice :: "bytes \<Rightarrow> nat \<Rightarrow> nat \<Rightarrow> bytes option" where
  "data_slice data offset len =
     (if offset + len \<le> length data then Some (take len (drop offset data)) else None)"

fun extract_route_key :: "route_key_spec \<Rightarrow> rpc_log \<Rightarrow> route_key option" where
  "extract_route_key EmitterAddress l = Some (RkAddress (li_address (lg_inner l)))"
| "extract_route_key (TopicSpec i) l = map_option RkBytes32 (nth_opt (li_topics (lg_inner l)) i)"
| "extract_route_key (DataSliceSpec offset len) l = map_option RkBytes (data_slice (li_data (lg_inner l)) offset len)"
| "extract_route_key (CustomSpec f) l = f l"

record log_interest =
  lf_provider_filter :: log_filter
  lf_local_matcher :: "(rpc_log \<Rightarrow> bool) option"
  lf_route_key :: "route_key_spec option"

definition is_none_or :: "'a option \<Rightarrow> ('a \<Rightarrow> bool) \<Rightarrow> bool" where
  "is_none_or x P = (case x of None \<Rightarrow> True | Some v \<Rightarrow> P v)"

definition log_interest_matches :: "(log_filter \<Rightarrow> rpc_log \<Rightarrow> bool) \<Rightarrow> log_interest \<Rightarrow> rpc_log \<Rightarrow> bool" where
  "log_interest_matches rpc_matches i l \<longleftrightarrow>
     rpc_matches (lf_provider_filter i) l \<and> is_none_or (lf_local_matcher i) (\<lambda>m. m l)"

definition log_interest_route_key :: "log_interest \<Rightarrow> rpc_log \<Rightarrow> route_key option" where
  "log_interest_route_key i l = Option.bind (lf_route_key i) (\<lambda>spec. extract_route_key spec l)"

datatype block_interest_mode = ModeHeader | ModeFullBlock

datatype address_matcher = AnyAddress | ExactAddress address | AnyOfAddresses "address list"

fun address_matches :: "address_matcher \<Rightarrow> address \<Rightarrow> bool" where
  "address_matches AnyAddress a = True"
| "address_matches (ExactAddress e) a = (e = a)"
| "address_matches (AnyOfAddresses as) a = (a \<in> set as)"

fun address_matches_option :: "address_matcher \<Rightarrow> address option \<Rightarrow> bool" where
  "address_matches_option AnyAddress a = True"
| "address_matches_option m (Some a) = address_matches m a"
| "address_matches_option m None = False"

datatype selector_matcher = AnySelector | AnyOfSelectors "bytes list"

fun selector_matches :: "selector_matcher \<Rightarrow> bytes \<Rightarrow> bool" where
  "selector_matches AnySelector input = True"
| "selector_matches (AnyOfSelectors selectors) input = (4 \<le> length input \<and> take 4 input \<in> set selectors)"

record pending_tx_interest =
  px_full_transactions :: bool
  px_from :: address_matcher
  px_to :: address_matcher
  px_selectors :: selector_matcher
  px_local_matcher :: "(rpc_transaction \<Rightarrow> bool) option"

definition matches_hash_only :: "pending_tx_interest \<Rightarrow> bool" where
  "matches_hash_only p \<longleftrightarrow> \<not> px_full_transactions p \<and> px_from p = AnyAddress \<and> px_to p = AnyAddress
     \<and> px_selectors p = AnySelector \<and> px_local_matcher p = None"

definition matches_tx :: "pending_tx_interest \<Rightarrow> rpc_transaction \<Rightarrow> bool" where
  "matches_tx p t \<longleftrightarrow> address_matches (px_from p) (rt_from t) \<and> address_matches_option (px_to p) (rt_to t)
     \<and> selector_matches (px_selectors p) (rt_input t) \<and> is_none_or (px_local_matcher p) (\<lambda>m. m t)"

datatype reactive_interest =
    LogsInterest log_interest
  | BlocksInterest block_interest_mode
  | PendingInterest pending_tx_interest

fun is_log_interest :: "reactive_interest \<Rightarrow> bool" where
  "is_log_interest (LogsInterest _) = True"
| "is_log_interest _ = False"

fun interest_matches :: "(log_filter \<Rightarrow> rpc_log \<Rightarrow> bool) \<Rightarrow> reactive_interest \<Rightarrow> reactive_input \<Rightarrow> bool" where
  "interest_matches rm (LogsInterest i) (InLog l) = log_interest_matches rm i l"
| "interest_matches rm (BlocksInterest ModeHeader) (InBlockHeader h) = True"
| "interest_matches rm (BlocksInterest ModeFullBlock) (InFullBlock b) = True"
| "interest_matches rm (PendingInterest p) (InPendingTxHash h) = matches_hash_only p"
| "interest_matches rm (PendingInterest p) (InPendingTx t) = matches_tx p t"
| "interest_matches rm _ _ = False"

section \<open>Handlers and the routing index\<close>

datatype log_route_key = KeyEmitter address | KeyTopic nat b256 | KeyDataSlice nat bytes

fun route_index_extend :: "log_route_key list \<Rightarrow> log_route_key list \<Rightarrow> log_route_key list" where
  "route_index_extend ks [] = ks"
| "route_index_extend ks (k # ks') = route_index_extend (if k \<in> set ks then ks else ks @ [k]) ks'"

definition log_route_index_new :: "log_route_key \<Rightarrow> log_route_key list \<Rightarrow> log_route_key list" where
  "log_route_index_new primary additional = route_index_extend [primary] additional"

record reactive_handler =
  hd_id :: handler_id
  hd_interests :: "reactive_interest list"
  hd_log_route_index :: "log_route_key list option"
  hd_handle :: "reactive_context \<Rightarrow> reactive_input \<Rightarrow> evm_cache \<Rightarrow> string + handler_outcome"

record registered_handler =
  rg_id :: handler_id
  rg_handler :: reactive_handler
  rg_interests :: "reactive_interest list"
  rg_has_log_interests :: bool
  rg_log_route_index :: "log_route_key list option"

type_synonym position = "128 word"

record reactive_registry =
  rs_handlers :: "(position \<times> registered_handler) list"
  rs_handler_positions :: "(handler_id, position) hashmap"
  rs_next_handler_position :: position
  rs_indexed_log_handlers :: "(log_route_key, position list) hashmap"
  rs_fallback_log_handlers :: "position list"
  rs_data_slice_shapes :: "(nat \<times> nat, nat) hashmap"

definition registry_empty :: reactive_registry where
  "registry_empty = \<lparr>rs_handlers = [], rs_handler_positions = [], rs_next_handler_position = 0,
     rs_indexed_log_handlers = [], rs_fallback_log_handlers = [], rs_data_slice_shapes = []\<rparr>"

definition registered_matches :: "(log_filter \<Rightarrow> rpc_log \<Rightarrow> bool) \<Rightarrow> registered_handler \<Rightarrow> reactive_input \<Rightarrow> bool" where
  "registered_matches rm h input = list_ex (\<lambda>i. interest_matches rm i input) (rg_interests h)"

fun find_route :: "(log_filter \<Rightarrow> rpc_log \<Rightarrow> bool) \<Rightarrow> reactive_interest list \<Rightarrow> rpc_log \<Rightarrow> route_key option option" where
  "find_route rm [] l = None"
| "find_route rm (LogsInterest i # is) l =
     (if log_interest_matches rm i l then Some (log_interest_route_key i l) else find_route rm is l)"
| "find_route rm (_ # is) l = find_route rm is l"

definition handler_route_log ::
  "(log_filter \<Rightarrow> rpc_log \<Rightarrow> bool) \<Rightarrow> registered_handler \<Rightarrow> rpc_log \<Rightarrow> (handler_id \<times> route_key option) option" where
  "handler_route_log rm h l = map_option (\<lambda>k. (rg_id h, k)) (find_route rm (rg_interests h) l)"

subsection \<open>Registration\<close>

text \<open>The body of the loop over the index keys of a handler, shared by insertion and compaction.\<close>

definition index_key :: "position \<Rightarrow> log_route_key \<Rightarrow> reactive_registry \<Rightarrow> reactive_registry" where
  "index_key p k r =
     (let r1 = (case k of
            KeyDataSlice offset value \<Rightarrow>
              r\<lparr>rs_data_slice_shapes := hm_insert (offset, length value)
                  (unwrap_or (hm_get (rs_data_slice_shapes r) (offset, length value)) 0 + 1) (rs_data_slice_shapes r)\<rparr>
          | _ \<Rightarrow> r)
      in r1\<lparr>rs_indexed_log_handlers :=
           hm_insert k (bs_insert p (unwrap_or (hm_get (rs_indexed_log_handlers r1) k) [])) (rs_indexed_log_handlers r1)\<rparr>)"

definition index_handler :: "position \<Rightarrow> registered_handler \<Rightarrow> reactive_registry \<Rightarrow> reactive_registry" where
  "index_handler p h r =
     (case rg_log_route_index h of
        Some ks \<Rightarrow> fold (index_key p) ks r
      | None \<Rightarrow> if rg_has_log_interests h
                then r\<lparr>rs_fallback_log_handlers := bs_insert p (rs_fallback_log_handlers r)\<rparr> else r)"

definition place_handler :: "position \<Rightarrow> registered_handler \<Rightarrow> reactive_registry \<Rightarrow> reactive_registry" where
  "place_handler p h r =
     (let r1 = index_handler p h (r\<lparr>rs_handler_positions := hm_insert (rg_id h) p (rs_handler_positions r)\<rparr>)
      in r1\<lparr>rs_handlers := bt_insert p h (rs_handlers r1)\<rparr>)"

definition compact_handler_positions :: "reactive_registry \<Rightarrow> reactive_registry" where
  "compact_handler_positions r =
     (let hs = map snd (rs_handlers r);
          r1 = r\<lparr>rs_handlers := [], rs_handler_positions := [], rs_indexed_log_handlers := [],
                 rs_fallback_log_handlers := [], rs_data_slice_shapes := []\<rparr>;
          r2 = fold (\<lambda>(i, h). place_handler (of_nat i) h) (zip [0..<length hs] hs) r1
      in r2\<lparr>rs_next_handler_position := of_nat (length (rs_handlers r2))\<rparr>)"

definition prepared_handler :: "reactive_handler \<Rightarrow> registered_handler" where
  "prepared_handler h = \<lparr>rg_id = hd_id h, rg_handler = h, rg_interests = hd_interests h,
     rg_has_log_interests = list_ex is_log_interest (hd_interests h),
     rg_log_route_index = hd_log_route_index h\<rparr>"

definition insert_handler_prepared :: "reactive_handler \<Rightarrow> reactive_registry \<Rightarrow> reactive_registry" where
  "insert_handler_prepared h r =
     (let r1 = (if rs_next_handler_position r = - 1 then compact_handler_positions r else r);
          p = rs_next_handler_position r1
      in place_handler p (prepared_handler h) (r1\<lparr>rs_next_handler_position := p + 1\<rparr>))"

definition register_handler :: "reactive_handler \<Rightarrow> reactive_registry \<Rightarrow> (handler_id + unit) \<times> reactive_registry" where
  "register_handler h r =
     (if hm_contains (rs_handler_positions r) (hd_id h) then (Err (hd_id h), r)
      else (Okay (), insert_handler_prepared h r))"

subsection \<open>Removal\<close>

definition unindex_key :: "position \<Rightarrow> log_route_key \<Rightarrow> reactive_registry \<Rightarrow> reactive_registry" where
  "unindex_key p k r =
     (let r1 = (case hm_get (rs_indexed_log_handlers r) k of
            None \<Rightarrow> r
          | Some owners \<Rightarrow>
              (let owners' = removeAll p owners
               in r\<lparr>rs_indexed_log_handlers :=
                     (if owners' = [] then hm_remove k (rs_indexed_log_handlers r)
                      else hm_insert k owners' (rs_indexed_log_handlers r))\<rparr>))
      in case k of
           KeyDataSlice offset value \<Rightarrow>
             (case hm_get (rs_data_slice_shapes r1) (offset, length value) of
                None \<Rightarrow> r1
              | Some n \<Rightarrow>
                  r1\<lparr>rs_data_slice_shapes :=
                      (if n - 1 = 0 then hm_remove (offset, length value) (rs_data_slice_shapes r1)
                       else hm_insert (offset, length value) (n - 1) (rs_data_slice_shapes r1))\<rparr>)
         | _ \<Rightarrow> r1)"

definition unregister_handler :: "handler_id \<Rightarrow> reactive_registry \<Rightarrow> reactive_handler option \<times> reactive_registry" where
  "unregister_handler i r =
     (case hm_get (rs_handler_positions r) i of
        None \<Rightarrow> (None, r)
      | Some p \<Rightarrow>
          (let r1 = r\<lparr>rs_handler_positions := hm_remove i (rs_handler_positions r)\<rparr>
           in case map_of (rs_handlers r1) p of
                None \<Rightarrow> (None, r1)
              | Some h \<Rightarrow>
                  (let r2 = r1\<lparr>rs_handlers := filter (\<lambda>(q, _). q \<noteq> p) (rs_handlers r1)\<rparr>;
                       r3 = (case rg_log_route_index h of
                               Some ks \<Rightarrow> fold (unindex_key p) ks r2
                             | None \<Rightarrow> r2\<lparr>rs_fallback_log_handlers := removeAll p (rs_fallback_log_handlers r2)\<rparr>)
                   in (Some (rg_handler h), r3))))"

subsection \<open>Queries\<close>

definition contains_handler :: "reactive_registry \<Rightarrow> handler_id \<Rightarrow> bool" where
  "contains_handler r i = hm_contains (rs_handler_positions r) i"

definition handler_ids :: "reactive_registry \<Rightarrow> handler_id list" where
  "handler_ids r = map (rg_id \<circ> snd) (rs_handlers r)"

definition handler_interests :: "reactive_registry \<Rightarrow> handler_id \<Rightarrow> reactive_interest list option" where
  "handler_interests r i =
     map_option rg_interests (Option.bind (hm_get (rs_handler_positions r) i) (map_of (rs_handlers r)))"

definition registry_interests :: "reactive_registry \<Rightarrow> reactive_interest list" where
  "registry_interests r = concat (map (rg_interests \<circ> snd) (rs_handlers r))"

definition owners_of :: "reactive_registry \<Rightarrow> log_route_key \<Rightarrow> position list" where
  "owners_of r k = unwrap_or (hm_get (rs_indexed_log_handlers r) k) []"

definition indexed_positions :: "reactive_registry \<Rightarrow> rpc_log \<Rightarrow> position list" where
  "indexed_positions r l =
     owners_of r (KeyEmitter (li_address (lg_inner l)))
     @ concat (map (\<lambda>(i, v). owners_of r (KeyTopic i v)) (zip [0..<length (li_topics (lg_inner l))] (li_topics (lg_inner l))))
     @ concat (map (\<lambda>((offset, len), _).
         (case data_slice (li_data (lg_inner l)) offset len of
            None \<Rightarrow> []
          | Some value \<Rightarrow> owners_of r (KeyDataSlice offset value))) (rs_data_slice_shapes r))"

definition log_handler_candidates :: "reactive_registry \<Rightarrow> rpc_log \<Rightarrow> registered_handler list" where
  "log_handler_candidates r l =
     (let ps = indexed_positions r l
      in if ps = []
         then (if rs_fallback_log_handlers r = [] then []
               else if rs_indexed_log_handlers r \<noteq> []
               then List.map_filter (map_of (rs_handlers r)) (rs_fallback_log_handlers r)
               else filter (\<lambda>h. rg_has_log_interests h \<and> rg_log_route_index h = None) (map snd (rs_handlers r)))
         else List.map_filter (map_of (rs_handlers r))
                (remdups_adj (sort (ps @ rs_fallback_log_handlers r))))"

definition route_log ::
  "(log_filter \<Rightarrow> rpc_log \<Rightarrow> bool) \<Rightarrow> reactive_registry \<Rightarrow> rpc_log \<Rightarrow> (handler_id \<times> route_key option) list" where
  "route_log rm r l = List.map_filter (\<lambda>h. handler_route_log rm h l) (log_handler_candidates r l)"

end
