(* ===== verification/Registry_Props.thy ===== *)
theory Registry_Props
  imports Reactive_Registry
begin

text \<open>
  The registry against its specification, the list of registered handlers in registration order.
  \<open>registry_ok\<close> says what the index, the fallback set, the shape counts and the position map hold for given
  handlers; every operation keeps it, and under it the candidates of a log are the handlers that listen.
\<close>

section \<open>Specification\<close>

fun key_matches :: "rpc_log \<Rightarrow> log_route_key \<Rightarrow> bool" where
  "key_matches l (KeyEmitter a) = (li_address (lg_inner l) = a)"
| "key_matches l (KeyTopic i v) = (nth_opt (li_topics (lg_inner l)) i = Some v)"
| "key_matches l (KeyDataSlice offset value) = (data_slice (li_data (lg_inner l)) offset (length value) = Some value)"

definition listens :: "rpc_log \<Rightarrow> registered_handler \<Rightarrow> bool" where
  "listens l h = (case rg_log_route_index h of Some ks \<Rightarrow> list_ex (key_matches l) ks | None \<Rightarrow> rg_has_log_interests h)"

fun key_shape :: "log_route_key \<Rightarrow> (nat \<times> nat) option" where
  "key_shape (KeyDataSlice offset value) = Some (offset, length value)"
| "key_shape _ = None"

definition shape_uses :: "nat \<times> nat \<Rightarrow> registered_handler \<Rightarrow> nat" where
  "shape_uses s h = (case rg_log_route_index h of None \<Rightarrow> 0 | Some ks \<Rightarrow> length (filter (\<lambda>k. key_shape k = Some s) ks))"

definition keyed_by :: "log_route_key \<Rightarrow> registered_handler \<Rightarrow> bool" where
  "keyed_by k h = (case rg_log_route_index h of None \<Rightarrow> False | Some ks \<Rightarrow> k \<in> set ks)"

definition index_ok :: "(position \<times> registered_handler) list \<Rightarrow> reactive_registry \<Rightarrow> bool" where
  "index_ok hs r \<longleftrightarrow>
     (\<forall>k. set (owners_of r k) = {p. \<exists>h. (p, h) \<in> set hs \<and> keyed_by k h})
   \<and> sorted (rs_fallback_log_handlers r) \<and> distinct (rs_fallback_log_handlers r)
   \<and> set (rs_fallback_log_handlers r) =
       {p. \<exists>h. (p, h) \<in> set hs \<and> rg_log_route_index h = None \<and> rg_has_log_interests h}
   \<and> (\<forall>s. unwrap_or (hm_get (rs_data_slice_shapes r) s) 0 = sum_list (map (shape_uses s \<circ> snd) hs))"

definition registry_ok :: "reactive_registry \<Rightarrow> bool" where
  "registry_ok r \<longleftrightarrow>
     sorted_wrt (<) (map fst (rs_handlers r))
   \<and> (\<forall>p \<in> fst ` set (rs_handlers r). p < rs_next_handler_position r)
   \<and> distinct (map (rg_id \<circ> snd) (rs_handlers r))
   \<and> (\<forall>i p. hm_get (rs_handler_positions r) i = Some p \<longleftrightarrow> (\<exists>h. (p, h) \<in> set (rs_handlers r) \<and> rg_id h = i))
   \<and> index_ok (rs_handlers r) r"

section \<open>Ordered maps\<close>

lemma bt_insert_append:
  "(\<And>q. q \<in> fst ` set m \<Longrightarrow> q < k) \<Longrightarrow> bt_insert k v m = m @ [(k, v)]"
  by (induction k v m rule: bt_insert.induct) (auto simp: order.strict_iff_not dest: less_imp_neq)

lemma set_bs_insert [simp]: "set (bs_insert x xs) = insert x (set xs)"
  by (auto simp: bs_insert_def set_insort_key)

lemma bs_insert_sorted [simp]: "sorted xs \<Longrightarrow> sorted (bs_insert x xs)"
  by (simp add: bs_insert_def sorted_insort)

lemma bs_insert_distinct [simp]: "distinct xs \<Longrightarrow> distinct (bs_insert x xs)"
  by (simp add: bs_insert_def distinct_insort)

lemma sorted_distinct_remdups_adj: "sorted xs \<Longrightarrow> distinct (remdups_adj xs)"
  by (induction xs rule: remdups_adj.induct) (auto simp: remdups_adj_set dest: order.antisym)

lemma strict_sorted_distinct: "sorted_wrt (<) (xs :: 'a::linorder list) \<Longrightarrow> distinct xs"
  by (simp add: strict_sorted_iff)

text \<open>Looking up a sorted list of keys in an ordered map selects its entries in order.\<close>

lemma map_filter_lookup:
  fixes hs :: "('k::linorder \<times> 'v) list"
  assumes "sorted_wrt (<) (map fst hs)" and "sorted xs" and "distinct xs" and "set xs \<subseteq> fst ` set hs"
  shows "List.map_filter (map_of hs) xs = map snd (filter (\<lambda>e. fst e \<in> set xs) hs)"
proof -
  let ?ys = "filter (\<lambda>e. fst e \<in> set xs) hs"
  have d: "distinct (map fst hs)" using assms(1) by (rule strict_sorted_distinct)
  have "sorted (map fst hs)" using assms(1) by (simp add: strict_sorted_iff)
  then have "sorted (map fst ?ys)" by (rule sorted_filter)
  moreover have "distinct (map fst ?ys)" using d by (rule distinct_map_filter)
  moreover have "set (map fst ?ys) = set xs" using assms(4) by force
  ultimately have xs: "xs = map fst ?ys"
    using assms(2,3) by (metis sorted_distinct_set_unique)
  have lookup: "map_of hs (fst e) = Some (snd e)" if "e \<in> set ?ys" for e
    using that map_of_is_SomeI [OF d, of "fst e" "snd e"] by simp
  have "List.map_filter (map_of hs) (map fst ys) = map snd ys"
    if "\<forall>e \<in> set ys. map_of hs (fst e) = Some (snd e)" for ys
    using that by (induction ys) (simp_all add: List.map_filter_def)
  with lookup xs show ?thesis by metis
qed

section \<open>The routing index\<close>

lemma owners_index_key [simp]:
  "owners_of (index_key p k r) k' = (if k' = k then bs_insert p (owners_of r k) else owners_of r k')"
  by (cases k) (simp_all add: index_key_def owners_of_def Let_def)

lemma shapes_index_key [simp]:
  "unwrap_or (hm_get (rs_data_slice_shapes (index_key p k r)) s) 0 =
     unwrap_or (hm_get (rs_data_slice_shapes r) s) 0 + (if key_shape k = Some s then 1 else 0)"
  by (cases k) (auto simp: index_key_def Let_def)

lemma index_key_frame [simp]:
  "rs_handlers (index_key p k r) = rs_handlers r" "rs_handler_positions (index_key p k r) = rs_handler_positions r"
  "rs_next_handler_position (index_key p k r) = rs_next_handler_position r"
  "rs_fallback_log_handlers (index_key p k r) = rs_fallback_log_handlers r"
  by (cases k; simp add: index_key_def Let_def)+

lemma fold_index_frame [simp]:
  "rs_handlers (fold (index_key p) ks r) = rs_handlers r"
  "rs_handler_positions (fold (index_key p) ks r) = rs_handler_positions r"
  "rs_next_handler_position (fold (index_key p) ks r) = rs_next_handler_position r"
  "rs_fallback_log_handlers (fold (index_key p) ks r) = rs_fallback_log_handlers r"
  by (induction ks arbitrary: r; simp)+

lemma fold_index_owners:
  "set (owners_of (fold (index_key p) ks r) k) = set (owners_of r k) \<union> (if k \<in> set ks then {p} else {})"
  by (induction ks arbitrary: r) auto

lemma fold_index_shapes:
  "unwrap_or (hm_get (rs_data_slice_shapes (fold (index_key p) ks r)) s) 0 =
     unwrap_or (hm_get (rs_data_slice_shapes r) s) 0 + length (filter (\<lambda>k. key_shape k = Some s) ks)"
  by (induction ks arbitrary: r) (auto simp del: unwrap_or_simps)

lemma index_handler_frame [simp]:
  "rs_handlers (index_handler p h r) = rs_handlers r"
  "rs_handler_positions (index_handler p h r) = rs_handler_positions r"
  "rs_next_handler_position (index_handler p h r) = rs_next_handler_position r"
  by (simp_all add: index_handler_def split: option.splits)

lemma owners_of_update [simp]:
  "owners_of (r\<lparr>rs_handlers := x\<rparr>) k = owners_of r k"
  "owners_of (r\<lparr>rs_handler_positions := y\<rparr>) k = owners_of r k"
  "owners_of (r\<lparr>rs_next_handler_position := z\<rparr>) k = owners_of r k"
  "owners_of (r\<lparr>rs_fallback_log_handlers := w\<rparr>) k = owners_of r k"
  by (simp_all add: owners_of_def)

lemma index_ok_update [simp]:
  "index_ok hs (r\<lparr>rs_handlers := x\<rparr>) = index_ok hs r"
  "index_ok hs (r\<lparr>rs_handler_positions := y\<rparr>) = index_ok hs r"
  "index_ok hs (r\<lparr>rs_next_handler_position := z\<rparr>) = index_ok hs r"
  by (simp_all add: index_ok_def)

lemma index_handler_ok:
  assumes "index_ok hs r"
  shows "index_ok (hs @ [(p, h)]) (index_handler p h r)"
proof (cases "rg_log_route_index h")
  case None
  then show ?thesis
    using assms by (auto simp: index_ok_def index_handler_def keyed_by_def shape_uses_def)
next
  case (Some ks)
  then have "keyed_by k h \<longleftrightarrow> k \<in> set ks" for k by (simp add: keyed_by_def)
  with Some show ?thesis
    using assms by (auto simp: index_ok_def index_handler_def fold_index_owners fold_index_shapes shape_uses_def)
qed

lemma owners_unindex_key [simp]:
  "owners_of (unindex_key p k r) k' = (if k' = k then removeAll p (owners_of r k) else owners_of r k')"
  by (cases k) (auto simp: unindex_key_def owners_of_def Let_def split: option.splits)

lemma shapes_unindex_key [simp]:
  "unwrap_or (hm_get (rs_data_slice_shapes (unindex_key p k r)) s) 0 =
     unwrap_or (hm_get (rs_data_slice_shapes r) s) 0 - (if key_shape k = Some s then 1 else 0)"
  by (cases k) (auto simp: unindex_key_def Let_def split: option.splits)

lemma unindex_key_frame [simp]:
  "rs_handlers (unindex_key p k r) = rs_handlers r" "rs_handler_positions (unindex_key p k r) = rs_handler_positions r"
  "rs_next_handler_position (unindex_key p k r) = rs_next_handler_position r"
  "rs_fallback_log_handlers (unindex_key p k r) = rs_fallback_log_handlers r"
  by (cases k; simp add: unindex_key_def Let_def split: option.splits)+

lemma fold_unindex_frame [simp]:
  "rs_handlers (fold (unindex_key p) ks r) = rs_handlers r"
  "rs_handler_positions (fold (unindex_key p) ks r) = rs_handler_positions r"
  "rs_next_handler_position (fold (unindex_key p) ks r) = rs_next_handler_position r"
  "rs_fallback_log_handlers (fold (unindex_key p) ks r) = rs_fallback_log_handlers r"
  by (induction ks arbitrary: r; simp)+

lemma fold_unindex_owners:
  "set (owners_of (fold (unindex_key p) ks r) k) = set (owners_of r k) - (if k \<in> set ks then {p} else {})"
  by (induction ks arbitrary: r) auto

lemma fold_unindex_shapes:
  "unwrap_or (hm_get (rs_data_slice_shapes (fold (unindex_key p) ks r)) s) 0 =
     unwrap_or (hm_get (rs_data_slice_shapes r) s) 0 - length (filter (\<lambda>k. key_shape k = Some s) ks)"
  by (induction ks arbitrary: r) (auto simp del: unwrap_or_simps)

section \<open>The invariant\<close>

lemma registry_empty_ok: "registry_ok registry_empty"
  by (simp add: registry_ok_def index_ok_def registry_empty_def owners_of_def)

lemma place_handler_ok:
  assumes ok: "registry_ok r" and above: "\<forall>q \<in> fst ` set (rs_handlers r). q < p"
    and below: "p < rs_next_handler_position r" and fresh: "rg_id h \<notin> rg_id ` snd ` set (rs_handlers r)"
  shows "registry_ok (place_handler p h r)"
    and "rs_handlers (place_handler p h r) = rs_handlers r @ [(p, h)]"
    and "rs_next_handler_position (place_handler p h r) = rs_next_handler_position r"
proof -
  have app: "bt_insert p h (rs_handlers r) = rs_handlers r @ [(p, h)]"
    using above by (intro bt_insert_append) blast
  then show hs: "rs_handlers (place_handler p h r) = rs_handlers r @ [(p, h)]"
    by (simp add: place_handler_def Let_def)
  show nxt: "rs_next_handler_position (place_handler p h r) = rs_next_handler_position r"
    by (simp add: place_handler_def Let_def)
  have "index_ok (rs_handlers r) (r\<lparr>rs_handler_positions := hm_insert (rg_id h) p (rs_handler_positions r)\<rparr>)"
    using ok by (simp add: registry_ok_def)
  from index_handler_ok [OF this, of p h]
  have idx: "index_ok (rs_handlers r @ [(p, h)]) (place_handler p h r)"
    by (simp add: place_handler_def Let_def)
  have pos: "hm_get (rs_handler_positions (place_handler p h r)) =
      (hm_get (rs_handler_positions r))(rg_id h \<mapsto> p)"
    by (rule ext) (simp add: place_handler_def Let_def)
  have old: "hm_get (rs_handler_positions r) i = Some q \<longleftrightarrow> (\<exists>h'. (q, h') \<in> set (rs_handlers r) \<and> rg_id h' = i)" for i q
    using ok by (simp add: registry_ok_def)
  have fresh': "rg_id h' \<noteq> rg_id h" if "(q, h') \<in> set (rs_handlers r)" for q h'
    using fresh that by (metis image_eqI snd_conv)
  have "hm_get (rs_handler_positions (place_handler p h r)) i = Some q \<longleftrightarrow>
      (\<exists>h'. (q, h') \<in> set (rs_handlers r @ [(p, h)]) \<and> rg_id h' = i)" for i q
    using fresh' unfolding pos by (auto simp: old)
  with ok above below idx fresh show "registry_ok (place_handler p h r)"
    unfolding registry_ok_def hs nxt by (auto simp: sorted_wrt_append image_image)
qed

lemma place_all_ok:
  assumes "registry_ok r" and "\<forall>q \<in> fst ` set (rs_handlers r). unat q < i"
    and "rs_next_handler_position r = - 1" and "i + length hs < 2 ^ 128"
    and "distinct (map rg_id (map snd (rs_handlers r) @ hs))"
  shows "registry_ok (fold (\<lambda>(i, h). place_handler (of_nat i) h) (zip [i..<i + length hs] hs) r)
    \<and> map snd (rs_handlers (fold (\<lambda>(i, h). place_handler (of_nat i) h) (zip [i..<i + length hs] hs) r)) =
        map snd (rs_handlers r) @ hs
    \<and> (\<forall>q \<in> fst ` set (rs_handlers (fold (\<lambda>(i, h). place_handler (of_nat i) h) (zip [i..<i + length hs] hs) r)).
        unat q < i + length hs)"
  using assms
proof (induction hs arbitrary: i r)
  case (Cons h hs)
  let ?r = "place_handler (of_nat i) h r"
  have i: "unat (of_nat i :: position) = i"
    using Cons.prems(4) by (simp add: unat_of_nat)
  have max: "unat (- 1 :: position) = 2 ^ 128 - 1"
    by (simp add: unat_max_word)
  have above: "\<forall>q \<in> fst ` set (rs_handlers r). q < of_nat i"
    using Cons.prems(2) i by (auto simp: word_less_nat_alt)
  have "(of_nat i :: position) < rs_next_handler_position r"
    using Cons.prems(3,4) i max by (simp add: word_less_nat_alt)
  moreover have "rg_id h \<notin> rg_id ` snd ` set (rs_handlers r)"
    using Cons.prems(5) by (auto simp: image_image)
  ultimately have ok: "registry_ok ?r" and hs: "rs_handlers ?r = rs_handlers r @ [(of_nat i, h)]"
    and nxt: "rs_next_handler_position ?r = - 1"
    using place_handler_ok [OF Cons.prems(1) above] Cons.prems(3) by simp_all
  have "\<forall>q \<in> fst ` set (rs_handlers ?r). unat q < Suc i"
    using Cons.prems(2) i by (auto simp: hs)
  moreover have "Suc i + length hs < 2 ^ 128" using Cons.prems(4) by simp
  moreover have "distinct (map rg_id (map snd (rs_handlers ?r) @ hs))"
    using Cons.prems(5) by (auto simp: hs)
  moreover have "[i..<i + length (h # hs)] = i # [Suc i..<Suc i + length hs]"
    using upt_conv_Cons [of i "i + length (h # hs)"] by simp
  ultimately show ?case
    using Cons.IH [OF ok _ nxt, of "Suc i"] by (simp add: hs)
qed simp

lemma compact_ok:
  assumes ok: "registry_ok r" and max: "rs_next_handler_position r = - 1" and len: "length (rs_handlers r) < 2 ^ 128 - 1"
  shows "registry_ok (compact_handler_positions r)"
    and "map snd (rs_handlers (compact_handler_positions r)) = map snd (rs_handlers r)"
    and "rs_next_handler_position (compact_handler_positions r) \<noteq> - 1"
proof -
  let ?hs = "map snd (rs_handlers r)"
  let ?r0 = "r\<lparr>rs_handlers := [], rs_handler_positions := [], rs_indexed_log_handlers := [],
                 rs_fallback_log_handlers := [], rs_data_slice_shapes := []\<rparr>"
  let ?r1 = "fold (\<lambda>(i, h). place_handler (of_nat i) h) (zip [0..<length ?hs] ?hs) ?r0"
  have "registry_ok ?r0"
    by (simp add: registry_ok_def index_ok_def owners_of_def)
  moreover have "distinct (map rg_id (map snd (rs_handlers ?r0) @ ?hs))"
    using ok by (simp add: registry_ok_def comp_def)
  ultimately have r1: "registry_ok ?r1" and vals: "map snd (rs_handlers ?r1) = ?hs"
    and keys: "\<forall>q \<in> fst ` set (rs_handlers ?r1). unat q < length ?hs"
    using place_all_ok [of ?r0 0 ?hs] max len by auto
  have c: "compact_handler_positions r = ?r1\<lparr>rs_next_handler_position := of_nat (length (rs_handlers ?r1))\<rparr>"
    by (simp add: compact_handler_positions_def Let_def)
  from vals have l: "length (rs_handlers ?r1) = length ?hs" by (metis length_map)
  have u: "unat (of_nat (length ?hs) :: position) = length ?hs"
    using len by (simp add: unat_of_nat)
  then show "rs_next_handler_position (compact_handler_positions r) \<noteq> - 1"
    using len unat_max_word [where 'a = 128] by (auto simp: c l [simplified])
  show "map snd (rs_handlers (compact_handler_positions r)) = map snd (rs_handlers r)"
    using vals by (simp add: c)
  have "\<forall>p \<in> fst ` set (rs_handlers ?r1). p < of_nat (length ?hs)"
    using keys u by (auto simp: word_less_nat_alt)
  with r1 show "registry_ok (compact_handler_positions r)"
    by (simp add: registry_ok_def c l [simplified])
qed

lemma less_succ: "p \<noteq> - 1 \<Longrightarrow> p < p + 1" for p :: "'a::len word"
proof -
  assume "p \<noteq> - 1"
  then have "unat p \<noteq> 2 ^ LENGTH('a) - 1"
    by (metis unat_max_word word_unat_eq_iff)
  moreover have "unat p < 2 ^ LENGTH('a)" by (rule unsigned_less)
  ultimately have "unat p + 1 < 2 ^ LENGTH('a)" by arith
  then have "unat (p + 1) = unat p + 1" using unat_add_lem [of p 1] by simp
  then show "p < p + 1" by (simp add: word_less_nat_alt)
qed

lemma registry_keys_le:
  assumes "registry_ok r" and "q \<in> fst ` set (rs_handlers r)"
  shows "q < rs_next_handler_position r"
  using assms by (auto simp: registry_ok_def)

lemma registry_ok_next:
  assumes "registry_ok r" and "rs_next_handler_position r \<le> n"
  shows "registry_ok (r\<lparr>rs_next_handler_position := n\<rparr>)"
  using assms registry_keys_le [OF assms(1)] unfolding registry_ok_def
  by (auto simp del: image_eqI dest: order.strict_trans2)

lemma insert_handler_prepared_ok:
  assumes ok: "registry_ok r" and len: "length (rs_handlers r) < 2 ^ 128 - 1"
    and fresh: "hd_id h \<notin> rg_id ` snd ` set (rs_handlers r)"
  shows "registry_ok (insert_handler_prepared h r)"
    and "map snd (rs_handlers (insert_handler_prepared h r)) = map snd (rs_handlers r) @ [prepared_handler h]"
proof -
  let ?r1 = "if rs_next_handler_position r = - 1 then compact_handler_positions r else r"
  let ?p = "rs_next_handler_position ?r1"
  have ok1: "registry_ok ?r1" and vals: "map snd (rs_handlers ?r1) = map snd (rs_handlers r)" and p: "?p \<noteq> - 1"
    using ok compact_ok [OF ok _ len] by auto
  from p have less: "?p < ?p + 1" by (rule less_succ)
  have above: "\<forall>q \<in> fst ` set (rs_handlers (?r1\<lparr>rs_next_handler_position := ?p + 1\<rparr>)). q < ?p"
    using registry_keys_le [OF ok1] by simp
  have "registry_ok (?r1\<lparr>rs_next_handler_position := ?p + 1\<rparr>)"
    using ok1 less by (intro registry_ok_next) simp_all
  moreover have "rg_id ` snd ` set (rs_handlers ?r1) = rg_id ` snd ` set (rs_handlers r)"
    using vals by (metis list.set_map)
  ultimately show "registry_ok (insert_handler_prepared h r)"
    and "map snd (rs_handlers (insert_handler_prepared h r)) = map snd (rs_handlers r) @ [prepared_handler h]"
    using place_handler_ok [OF _ above, of "prepared_handler h"] less fresh vals
    by (simp_all add: insert_handler_prepared_def Let_def prepared_handler_def)
qed

lemma registry_unique:
  assumes "registry_ok r" and "(p, h) \<in> set (rs_handlers r)" and "(p, h') \<in> set (rs_handlers r)"
  shows "h = h'"
  using assms by (auto simp: registry_ok_def dest!: strict_sorted_distinct intro: eq_key_imp_eq_value)

lemma registry_lookup:
  assumes "registry_ok r"
  shows "map_of (rs_handlers r) p = Some h \<longleftrightarrow> (p, h) \<in> set (rs_handlers r)"
  using assms by (auto simp: registry_ok_def intro!: map_of_eq_Some_iff dest!: strict_sorted_distinct)

lemma sum_remove_key:
  assumes "distinct (map fst hs)" and "(p, h) \<in> set hs"
  shows "sum_list (map (f \<circ> snd) hs) = f h + sum_list (map (f \<circ> snd) (filter (\<lambda>(q, _). q \<noteq> p) hs) :: nat list)"
  using assms
proof (induction hs)
  case (Cons e hs)
  show ?case
  proof (cases "e = (p, h)")
    case True
    with Cons.prems(1) have "filter (\<lambda>(q, _). q \<noteq> p) hs = hs"
      by (force intro!: filter_True)
    with True show ?thesis by simp
  next
    case False
    with Cons.prems have "fst e \<noteq> p" by (force simp: image_iff)
    with False Cons show ?thesis by (cases e) auto
  qed
qed simp

lemma unregister_ok:
  assumes ok: "registry_ok r" and un: "unregister_handler i r = (res, r')"
  shows "registry_ok r'" and "map snd (rs_handlers r') = filter (\<lambda>h. rg_id h \<noteq> i) (map snd (rs_handlers r))"
proof -
  let ?hs = "rs_handlers r"
  have pos: "hm_get (rs_handler_positions r) i = Some p \<longleftrightarrow> (\<exists>h. (p, h) \<in> set ?hs \<and> rg_id h = i)" for i p
    using ok by (simp add: registry_ok_def)
  have keys: "distinct (map fst ?hs)" and ids: "distinct (map (rg_id \<circ> snd) ?hs)"
    using ok by (simp_all add: registry_ok_def strict_sorted_distinct)
  have "registry_ok r' \<and> map snd (rs_handlers r') = filter (\<lambda>h. rg_id h \<noteq> i) (map snd ?hs)"
  proof (cases "hm_get (rs_handler_positions r) i")
    case None
    then have "rg_id h \<noteq> i" if "(p, h) \<in> set ?hs" for p h
      using pos [of i p] that by auto
    then have "filter (\<lambda>h. rg_id h \<noteq> i) (map snd ?hs) = map snd ?hs" by (force intro!: filter_True)
    with None un ok show ?thesis by (simp add: unregister_handler_def)
  next
    case (Some p)
    then obtain h where h: "(p, h) \<in> set ?hs" and hi: "rg_id h = i" using pos by blast
    have look: "map_of ?hs p = Some h" using h keys by simp
    have only: "q = p \<longleftrightarrow> rg_id g = i" if "(q, g) \<in> set ?hs" for q g
    proof
      assume "q = p"
      with that h ok have "g = h" by (blast dest: registry_unique)
      with hi show "rg_id g = i" by simp
    next
      assume "rg_id g = i"
      with that pos have "hm_get (rs_handler_positions r) i = Some q" by blast
      with Some show "q = p" by simp
    qed
    let ?hs' = "filter (\<lambda>(q, _). q \<noteq> p) ?hs"
    have set': "set ?hs' = {(q, g). (q, g) \<in> set ?hs \<and> q \<noteq> p}" by auto
    let ?r2 = "r\<lparr>rs_handler_positions := hm_remove i (rs_handler_positions r), rs_handlers := ?hs'\<rparr>"
    have r': "r' = (case rg_log_route_index h of
          Some ks \<Rightarrow> fold (unindex_key p) ks ?r2
        | None \<Rightarrow> ?r2\<lparr>rs_fallback_log_handlers := removeAll p (rs_fallback_log_handlers ?r2)\<rparr>)"
      using un Some look by (simp add: unregister_handler_def Let_def)
    have frame: "rs_handlers r' = ?hs'" "rs_handler_positions r' = hm_remove i (rs_handler_positions r)"
      "rs_next_handler_position r' = rs_next_handler_position r"
      by (simp_all add: r' split: option.splits)
    have idx: "index_ok ?hs r" using ok by (simp add: registry_ok_def)
    have uniq: "g = h" if "(p, g) \<in> set ?hs" for g using registry_unique [OF ok that h] .
    have shapes: "sum_list (map (shape_uses s \<circ> snd) ?hs) =
        shape_uses s h + sum_list (map (shape_uses s \<circ> snd) ?hs')" for s
      by (rule sum_remove_key [OF keys h])
    have rm: "{q. \<exists>g. (q, g) \<in> set ?hs' \<and> P g} = {q. \<exists>g. (q, g) \<in> set ?hs \<and> P g} - (if P h then {p} else {})" for P
      using uniq unfolding set' by auto
    have own: "set (owners_of r' k) = set (owners_of r k) - (if keyed_by k h then {p} else {})" for k
      by (simp add: r' keyed_by_def fold_unindex_owners split: option.splits)
    have old: "unwrap_or (hm_get (rs_data_slice_shapes r) s) 0 = sum_list (map (shape_uses s \<circ> snd) ?hs)" for s
      using idx by (simp only: index_ok_def)
    have shp: "unwrap_or (hm_get (rs_data_slice_shapes r') s) 0 = sum_list (map (shape_uses s \<circ> snd) ?hs')" for s
      using old [of s] shapes [of s]
      by (simp add: r' shape_uses_def fold_unindex_shapes split: option.splits)
    have fall: "rs_fallback_log_handlers r' =
        (if rg_log_route_index h = None then removeAll p (rs_fallback_log_handlers r) else rs_fallback_log_handlers r)"
      by (simp add: r' split: option.splits)
    have fset: "set (rs_fallback_log_handlers r) =
        {q. \<exists>g. (q, g) \<in> set ?hs \<and> rg_log_route_index g = None \<and> rg_has_log_interests g}"
      and fsort: "sorted (rs_fallback_log_handlers r)" "distinct (rs_fallback_log_handlers r)"
      using idx by (simp_all add: index_ok_def)
    have "index_ok ?hs' r'"
      unfolding index_ok_def
    proof (intro conjI allI)
      show "set (owners_of r' k) = {q. \<exists>g. (q, g) \<in> set ?hs' \<and> keyed_by k g}" for k
        using idx by (simp only: own rm index_ok_def)
      show "sorted (rs_fallback_log_handlers r')" "distinct (rs_fallback_log_handlers r')"
        using fsort by (simp_all add: fall removeAll_filter_not_eq sorted_filter [where f = id, simplified])
      show "set (rs_fallback_log_handlers r') =
          {q. \<exists>g. (q, g) \<in> set ?hs' \<and> rg_log_route_index g = None \<and> rg_has_log_interests g}"
        unfolding rm fall using fset uniq by auto
      show "unwrap_or (hm_get (rs_data_slice_shapes r') s) 0 = sum_list (map (shape_uses s \<circ> snd) ?hs')" for s
        by (rule shp)
    qed
    moreover have "sorted_wrt (<) (map fst ?hs')" "distinct (map (rg_id \<circ> snd) ?hs')"
      using ok by (simp_all add: registry_ok_def strict_sorted_iff sorted_filter distinct_map_filter)
    moreover have "hm_get (hm_remove i (rs_handler_positions r)) j = Some q \<longleftrightarrow>
        (\<exists>g. (q, g) \<in> set ?hs' \<and> rg_id g = j)" for j q
      using only by (auto simp: pos set')
    moreover have "\<forall>q \<in> fst ` set ?hs'. q < rs_next_handler_position r"
      using registry_keys_le [OF ok] by auto
    ultimately have "registry_ok r'"
      unfolding registry_ok_def frame by blast
    moreover have "?hs' = filter (\<lambda>e. rg_id (snd e) \<noteq> i) ?hs"
      using only by (intro filter_cong) (auto dest: only)
    ultimately show ?thesis by (simp add: frame filter_map comp_def)
  qed
  then show "registry_ok r'" and "map snd (rs_handlers r') = filter (\<lambda>h. rg_id h \<noteq> i) (map snd ?hs)" by auto
qed

section \<open>Routing\<close>

lemma set_indexed_positions:
  assumes "registry_ok r"
  shows "set (indexed_positions r l) =
    {p. \<exists>h k. (p, h) \<in> set (rs_handlers r) \<and> keyed_by k h \<and> key_matches l k}"
proof -
  let ?hs = "rs_handlers r" and ?i = "lg_inner l"
  have own: "set (owners_of r k) = {p. \<exists>h. (p, h) \<in> set ?hs \<and> keyed_by k h}" for k
    using assms by (simp add: registry_ok_def index_ok_def)
  have "p \<in> set (indexed_positions r l) \<longleftrightarrow> (\<exists>k. key_matches l k \<and> p \<in> set (owners_of r k))" for p
  proof
    assume "p \<in> set (indexed_positions r l)"
    then consider "p \<in> set (owners_of r (KeyEmitter (li_address ?i)))"
      | i where "i < length (li_topics ?i)" "p \<in> set (owners_of r (KeyTopic i (li_topics ?i ! i)))"
      | offset len v where "data_slice (li_data ?i) offset len = Some v" "p \<in> set (owners_of r (KeyDataSlice offset v))"
      by (auto simp: indexed_positions_def in_set_zip dest: sym split: option.splits)
    then show "\<exists>k. key_matches l k \<and> p \<in> set (owners_of r k)"
    proof cases
      case 1
      then show ?thesis by (intro exI [of _ "KeyEmitter (li_address ?i)"]) simp
    next
      case (2 i)
      then show ?thesis by (intro exI [of _ "KeyTopic i (li_topics ?i ! i)"]) (simp add: nth_opt_def)
    next
      case (3 offset len v)
      then show ?thesis
        by (intro exI [of _ "KeyDataSlice offset v"]) (auto simp: data_slice_def split: if_splits)
    qed
  next
    assume "\<exists>k. key_matches l k \<and> p \<in> set (owners_of r k)"
    then obtain k where k: "key_matches l k" and p: "p \<in> set (owners_of r k)" by blast
    show "p \<in> set (indexed_positions r l)"
    proof (cases k)
      case (KeyEmitter a)
      with k p show ?thesis by (simp add: indexed_positions_def)
    next
      case (KeyTopic i v)
      with k have "(i, v) \<in> set (zip [0..<length (li_topics ?i)] (li_topics ?i))"
        by (force simp: nth_opt_def in_set_zip split: if_splits)
      with p KeyTopic show ?thesis by (force simp: indexed_positions_def)
    next
      case (KeyDataSlice offset v)
      from p own obtain h where h: "(p, h) \<in> set ?hs" "keyed_by k h" by auto
      then have "0 < shape_uses (offset, length v) h"
        by (auto simp: shape_uses_def keyed_by_def KeyDataSlice filter_empty_conv split: option.splits
             intro!: bexI [of _ "KeyDataSlice offset v"])
      moreover have "shape_uses (offset, length v) h \<in> set (map (shape_uses (offset, length v) \<circ> snd) ?hs)"
        using h(1) by force
      ultimately have "0 < sum_list (map (shape_uses (offset, length v) \<circ> snd) ?hs)"
        by (metis gr0I sum_list_eq_0_iff neq0_conv)
      moreover have "unwrap_or (hm_get (rs_data_slice_shapes r) (offset, length v)) 0 =
          sum_list (map (shape_uses (offset, length v) \<circ> snd) ?hs)"
        using assms by (simp only: registry_ok_def index_ok_def)
      ultimately have "unwrap_or (hm_get (rs_data_slice_shapes r) (offset, length v)) 0 \<noteq> 0" by linarith
      then obtain n where "((offset, length v), n) \<in> set (rs_data_slice_shapes r)"
        by (cases "hm_get (rs_data_slice_shapes r) (offset, length v)") (auto dest: map_of_SomeD)
      with k p KeyDataSlice show ?thesis by (force simp: indexed_positions_def)
    qed
  qed
  then show ?thesis unfolding own by blast
qed

lemma candidates_exact:
  assumes ok: "registry_ok r"
  shows "log_handler_candidates r l = filter (listens l) (map snd (rs_handlers r))"
proof -
  let ?hs = "rs_handlers r" and ?ps = "indexed_positions r l" and ?fb = "rs_fallback_log_handlers r"
  have ps: "set ?ps = {p. \<exists>h k. (p, h) \<in> set ?hs \<and> keyed_by k h \<and> key_matches l k}"
    by (rule set_indexed_positions [OF ok])
  have fb: "set ?fb = {p. \<exists>h. (p, h) \<in> set ?hs \<and> rg_log_route_index h = None \<and> rg_has_log_interests h}"
    and fbs: "sorted ?fb" "distinct ?fb" and srt: "sorted_wrt (<) (map fst ?hs)"
    using ok by (simp_all add: registry_ok_def index_ok_def)
  have lis: "listens l h \<longleftrightarrow> (\<exists>k. keyed_by k h \<and> key_matches l k) \<or> (rg_log_route_index h = None \<and> rg_has_log_interests h)" for h
    by (auto simp: listens_def keyed_by_def list_ex_iff split: option.splits)
  have mem: "p \<in> set ?ps \<union> set ?fb \<longleftrightarrow> listens l h" if "(p, h) \<in> set ?hs" for p h
    using that registry_unique [OF ok that] unfolding ps fb lis by blast
  have sel: "List.map_filter (map_of ?hs) xs = filter (listens l) (map snd ?hs)"
    if "sorted xs" "distinct xs" "set xs = set ?ps \<union> set ?fb" for xs
  proof -
    have "set xs \<subseteq> fst ` set ?hs" using that(3) unfolding ps fb by force
    then have "List.map_filter (map_of ?hs) xs = map snd (filter (\<lambda>e. fst e \<in> set xs) ?hs)"
      by (rule map_filter_lookup [OF srt that(1,2)])
    also have "filter (\<lambda>e. fst e \<in> set xs) ?hs = filter (listens l \<circ> snd) ?hs"
      using mem that(3) by (intro filter_cong) auto
    finally show ?thesis by (simp add: filter_map)
  qed
  have plain: "filter (\<lambda>h. rg_has_log_interests h \<and> rg_log_route_index h = None) (map snd ?hs) =
      filter (listens l) (map snd ?hs)" if "?ps = []"
  proof (rule filter_cong)
    fix h assume "h \<in> set (map snd ?hs)"
    then obtain p where "(p, h) \<in> set ?hs" by auto
    then show "(rg_has_log_interests h \<and> rg_log_route_index h = None) = listens l h"
      using that ps unfolding lis by auto
  qed simp
  show ?thesis
  proof (cases "?ps = []")
    case True
    have "filter (listens l) (map snd ?hs) = []" if "?fb = []"
      using mem True that by (fastforce simp: filter_empty_conv)
    with True plain sel [of ?fb] fbs show ?thesis
      by (simp add: log_handler_candidates_def Let_def)
  next
    case False
    have "sorted (remdups_adj (sort (?ps @ ?fb)))" by (intro sorted_remdups_adj sorted_sort)
    moreover have "distinct (remdups_adj (sort (?ps @ ?fb)))" by (simp add: sorted_distinct_remdups_adj)
    ultimately show ?thesis
      using False sel [of "remdups_adj (sort (?ps @ ?fb))"]
      by (simp add: log_handler_candidates_def Let_def)
  qed
qed

section \<open>Property\<close>

text \<open>
  The registry next to the list it stands for. The bound on the number of live handlers is that of
  \<open>u128\<close> positions.
\<close>

inductive registry_run :: "registered_handler list \<Rightarrow> reactive_registry \<Rightarrow> bool" where
  run_new: "registry_run [] registry_empty"
| run_register: "registry_run hs r \<Longrightarrow> length hs < 2 ^ 128 - 1 \<Longrightarrow> register_handler h r = (Okay u, r')
     \<Longrightarrow> registry_run (hs @ [prepared_handler h]) r'"
| run_rejected: "registry_run hs r \<Longrightarrow> register_handler h r = (Err e, r') \<Longrightarrow> registry_run hs r'"
| run_unregister: "registry_run hs r \<Longrightarrow> unregister_handler i r = (res, r')
     \<Longrightarrow> registry_run (filter (\<lambda>h. rg_id h \<noteq> i) hs) r'"

lemma registry_run_ok: "registry_run hs r \<Longrightarrow> registry_ok r \<and> map snd (rs_handlers r) = hs"
proof (induction rule: registry_run.induct)
  case run_new
  then show ?case by (simp add: registry_empty_ok) (simp add: registry_empty_def)
next
  case (run_register hs r h u r')
  then have r': "r' = insert_handler_prepared h r" and new: "\<not> hm_contains (rs_handler_positions r) (hd_id h)"
    by (auto simp: register_handler_def split: if_splits)
  have "hd_id h \<notin> rg_id ` snd ` set (rs_handlers r)"
  proof
    assume "hd_id h \<in> rg_id ` snd ` set (rs_handlers r)"
    then obtain p g where "(p, g) \<in> set (rs_handlers r)" "rg_id g = hd_id h" by auto
    with run_register.IH have "hm_get (rs_handler_positions r) (hd_id h) = Some p"
      by (auto simp: registry_ok_def)
    with new show False by simp
  qed
  moreover have "length (rs_handlers r) < 2 ^ 128 - 1"
    using run_register.IH run_register.hyps(2) by (metis length_map)
  ultimately show ?case
    using run_register.IH insert_handler_prepared_ok [of r h] by (simp add: r')
next
  case (run_rejected hs r h e r')
  then show ?case by (auto simp: register_handler_def split: if_splits)
next
  case (run_unregister hs r i res r')
  then show ?case using unregister_ok by blast
qed

text \<open>
  \<^bold>\<open>C12.\<close> The handler registry refines the list of registered handlers in registration order. After any
  run of registrations and removals the candidates the routing index finds for a log are exactly the
  handlers that listen to it, in registration order: those with a routing key that matches the log, and
  those with log interests and no index. A handler is registered iff its id is in the list, and a
  duplicate id is rejected. In particular the index with its emitter, topic and data-slice buckets, its
  shape counts and the compaction of positions at the end of \<open>u128\<close> never loses or reorders a handler.
\<close>

theorem registry_routes_exactly:
  assumes "registry_run hs r"
  shows "log_handler_candidates r l = filter (listens l) hs
    \<and> handler_ids r = map rg_id hs
    \<and> (contains_handler r i \<longleftrightarrow> i \<in> set (map rg_id hs))
    \<and> fst (register_handler h r) = (if hd_id h \<in> set (map rg_id hs) then Err (hd_id h) else Okay ())"
proof -
  from registry_run_ok [OF assms] have ok: "registry_ok r" and hs: "map snd (rs_handlers r) = hs" by simp_all
  have "log_handler_candidates r l = filter (listens l) hs"
    using candidates_exact [OF ok] hs by simp
  moreover have "handler_ids r = map rg_id hs"
    using hs by (auto simp: handler_ids_def)
  moreover have pos: "hm_get (rs_handler_positions r) j = Some p \<longleftrightarrow> (\<exists>h. (p, h) \<in> set (rs_handlers r) \<and> rg_id h = j)" for j p
    using ok by (simp add: registry_ok_def)
  have "hm_contains (rs_handler_positions r) j \<longleftrightarrow> j \<in> set (map rg_id hs)" for j
    unfolding hs [symmetric] using pos [of j] by (cases "hm_get (rs_handler_positions r) j") force+
  ultimately show ?thesis
    by (simp add: contains_handler_def register_handler_def)
qed

definition sample_interest :: reactive_interest where
  "sample_interest = LogsInterest \<lparr>lf_provider_filter = \<lparr>ft_block_option = BlockRange None None, ft_address = [], ft_topics = []\<rparr>,
     lf_local_matcher = None, lf_route_key = None\<rparr>"

definition sample_handler :: "string \<Rightarrow> log_route_key list option \<Rightarrow> reactive_handler" where
  "sample_handler i ks = \<lparr>hd_id = i, hd_interests = [sample_interest], hd_log_route_index = ks,
     hd_handle = (\<lambda>_ _ _. Err ''unused'')\<rparr>"

definition sample_log :: "address \<Rightarrow> bytes \<Rightarrow> rpc_log" where
  "sample_log a data = \<lparr>lg_inner = \<lparr>li_address = a, li_topics = [7], li_data = data\<rparr>, lg_block_hash = None,
     lg_block_number = None, lg_block_timestamp = None, lg_transaction_hash = None, lg_transaction_index = None,
     lg_log_index = None, lg_removed = False\<rparr>"

theorem registry_routes_exactly_witness:
  "\<exists>r. registry_run [prepared_handler (sample_handler ''b'' None), prepared_handler (sample_handler ''c'' (Some [KeyDataSlice 1 [5, 6]]))] r
     \<and> log_handler_candidates r (sample_log 1 [4, 5, 6]) =
         [prepared_handler (sample_handler ''b'' None), prepared_handler (sample_handler ''c'' (Some [KeyDataSlice 1 [5, 6]]))]
     \<and> log_handler_candidates r (sample_log 1 [4, 5, 7]) = [prepared_handler (sample_handler ''b'' None)]"
proof -
  let ?a = "sample_handler ''a'' (Some [KeyEmitter 1])" and ?b = "sample_handler ''b'' None"
    and ?c = "sample_handler ''c'' (Some [KeyDataSlice 1 [5, 6]])"
  let ?r1 = "snd (register_handler ?a registry_empty)"
  let ?r2 = "snd (register_handler ?b ?r1)"
  let ?r3 = "snd (register_handler ?c ?r2)"
  let ?r4 = "snd (unregister_handler ''a'' ?r3)"
  have new: "registry_run (hs @ [prepared_handler h]) (snd (register_handler h r))"
    if "registry_run hs r" "length hs < 3" "hd_id h \<notin> set (map rg_id hs)" for hs r h
  proof -
    have "length hs < 2 ^ 128 - 1" using that(2) by simp
    moreover have "register_handler h r = (Okay (), snd (register_handler h r))"
      using registry_routes_exactly [OF that(1), of _ _ h] that(3) by (metis prod.collapse)
    ultimately show ?thesis using run_register [OF that(1)] by blast
  qed
  have "registry_run [prepared_handler ?a] ?r1"
    using new [OF run_new, of ?a] by simp
  from new [OF this, of ?b] have "registry_run [prepared_handler ?a, prepared_handler ?b] ?r2"
    by (simp add: sample_handler_def prepared_handler_def)
  from new [OF this, of ?c] have "registry_run [prepared_handler ?a, prepared_handler ?b, prepared_handler ?c] ?r3"
    by (simp add: sample_handler_def prepared_handler_def)
  from run_unregister [OF this, of "''a''" "fst (unregister_handler ''a'' ?r3)" ?r4]
  have run: "registry_run [prepared_handler ?b, prepared_handler ?c] ?r4"
    by (simp add: sample_handler_def prepared_handler_def)
  have "listens (sample_log 1 [4, 5, 6]) (prepared_handler ?b)" "listens (sample_log 1 [4, 5, 6]) (prepared_handler ?c)"
    "listens (sample_log 1 [4, 5, 7]) (prepared_handler ?b)" "\<not> listens (sample_log 1 [4, 5, 7]) (prepared_handler ?c)"
    by (simp_all add: listens_def prepared_handler_def sample_handler_def sample_log_def sample_interest_def data_slice_def)
  then show ?thesis
    using run registry_routes_exactly [OF run, of "sample_log 1 [4, 5, 6]"]
      registry_routes_exactly [OF run, of "sample_log 1 [4, 5, 7]"] by (intro exI [of _ ?r4]) simp
qed

end
