(* ===== verification/Log_Filters.thy ===== *)
theory Log_Filters
  imports Registry_Props
begin

text \<open>
  Merging the log filters of all handlers into few provider subscriptions
  (\<open>log_subscription_filters\<close>, \<open>merge_log_subscription_filter\<close>, \<open>exact_filter_union\<close> of
  \<^verbatim>\<open>src/reactive/mod.rs\<close>). The loop of \<open>merge_log_subscription_filter\<close> starts over after each union, with one filter
  fewer, so it ends. A \<open>FilterSet\<close> is a hash set; the empty set is alloy's wildcard.
\<close>

section \<open>Definitions\<close>

definition filter_set_subsumes :: "'a list \<Rightarrow> 'a list \<Rightarrow> bool" where
  "filter_set_subsumes l r \<longleftrightarrow> l = [] \<or> (r \<noteq> [] \<and> list_all (\<lambda>v. v \<in> set l) r)"

definition filter_subsumes :: "log_filter \<Rightarrow> log_filter \<Rightarrow> bool" where
  "filter_subsumes l r \<longleftrightarrow> filter_set_subsumes (ft_address l) (ft_address r)
     \<and> list_all (\<lambda>(x, y). filter_set_subsumes x y) (zip (ft_topics l) (ft_topics r))"

definition merge_filter_set :: "'a list \<Rightarrow> 'a list \<Rightarrow> 'a list" where
  "merge_filter_set target source =
     (if target = [] then target else if source = [] then [] else hs_extend target source)"

definition differing_dimensions :: "log_filter \<Rightarrow> log_filter \<Rightarrow> nat" where
  "differing_dimensions l r =
     (if set (ft_address l) \<noteq> set (ft_address r) then 1 else 0)
     + length (filter (\<lambda>(x, y). set x \<noteq> set y) (zip (ft_topics l) (ft_topics r)))"

fun merge_first_topic :: "b256 list list \<Rightarrow> b256 list list \<Rightarrow> b256 list list" where
  "merge_first_topic (x # xs) (y # ys) =
     (if set x \<noteq> set y then merge_filter_set x y # xs else x # merge_first_topic xs ys)"
| "merge_first_topic xs ys = xs"

definition exact_filter_union :: "log_filter \<Rightarrow> log_filter \<Rightarrow> log_filter option" where
  "exact_filter_union l r =
     (if filter_subsumes l r then Some l
      else if filter_subsumes r l then Some r
      else if differing_dimensions l r \<noteq> 1 then None
      else if set (ft_address l) \<noteq> set (ft_address r)
      then Some (l\<lparr>ft_address := merge_filter_set (ft_address l) (ft_address r)\<rparr>)
      else Some (l\<lparr>ft_topics := merge_first_topic (ft_topics l) (ft_topics r)\<rparr>))"

function merge_loop :: "log_filter list \<Rightarrow> log_filter \<Rightarrow> nat \<Rightarrow> nat \<Rightarrow> log_filter list \<times> log_filter \<times> nat" where
  "merge_loop filters candidate insertion_index index =
     (if index < length filters
      then if ft_block_option (filters ! index) \<noteq> ft_block_option candidate
           then merge_loop filters candidate insertion_index (index + 1)
           else case exact_filter_union candidate (filters ! index) of
                  Some merged \<Rightarrow>
                    merge_loop (take index filters @ drop (index + 1) filters) merged (min insertion_index index) 0
                | None \<Rightarrow> merge_loop filters candidate insertion_index (index + 1)
      else (filters, candidate, insertion_index))"
  by pat_completeness auto
termination
  by (relation "measures [\<lambda>(filters, _, _, _). length filters, \<lambda>(filters, _, _, index). length filters - index]") auto

declare merge_loop.simps [simp del]

definition merge_log_subscription_filter :: "log_filter list \<Rightarrow> log_filter \<Rightarrow> log_filter list" where
  "merge_log_subscription_filter filters f =
     (let (fs, candidate, insertion_index) = merge_loop filters f (length filters) 0;
          k = min insertion_index (length fs)
      in take k fs @ [candidate] @ drop k fs)"

fun log_interests_of :: "reactive_interest list \<Rightarrow> log_interest list" where
  "log_interests_of [] = []"
| "log_interests_of (LogsInterest i # is) = i # log_interests_of is"
| "log_interests_of (_ # is) = log_interests_of is"

definition log_interests :: "reactive_registry \<Rightarrow> log_interest list" where
  "log_interests r = concat (map (log_interests_of \<circ> rg_interests \<circ> snd) (rs_handlers r))"

definition log_subscription_filters :: "reactive_registry \<Rightarrow> log_filter list" where
  "log_subscription_filters r =
     foldl (\<lambda>filters i. merge_log_subscription_filter filters (lf_provider_filter i)) [] (log_interests r)"

section \<open>Semantics of a filter\<close>

definition set_accepts :: "'a list \<Rightarrow> 'a \<Rightarrow> bool" where
  "set_accepts s v \<longleftrightarrow> s = [] \<or> v \<in> set s"

fun topics_accept :: "b256 list list \<Rightarrow> b256 list \<Rightarrow> bool" where
  "topics_accept (s # ss) (t # ts) = (set_accepts s t \<and> topics_accept ss ts)"
| "topics_accept (s # ss) [] = (s = [] \<and> topics_accept ss [])"
| "topics_accept [] ts = True"

definition accepts :: "(filter_block_option \<Rightarrow> rpc_log \<Rightarrow> bool) \<Rightarrow> log_filter \<Rightarrow> rpc_log \<Rightarrow> bool" where
  "accepts block_ok f l \<longleftrightarrow> block_ok (ft_block_option f) l \<and> set_accepts (ft_address f) (li_address (lg_inner l))
     \<and> topics_accept (ft_topics f) (li_topics (lg_inner l))"

lemma subsumes_accepts: "filter_set_subsumes l r \<Longrightarrow> set_accepts r v \<Longrightarrow> set_accepts l v"
  by (auto simp: filter_set_subsumes_def set_accepts_def list_all_iff)

lemma equal_accepts: "set x = set y \<Longrightarrow> set_accepts x v = set_accepts y v"
  by (cases x; cases y) (auto simp: set_accepts_def)

lemma equal_subsumes: "set x = set y \<Longrightarrow> filter_set_subsumes x y"
  by (cases x; cases y) (auto simp: filter_set_subsumes_def list_all_iff)

lemma merge_filter_set_ne:
  "x \<noteq> [] \<Longrightarrow> y \<noteq> [] \<Longrightarrow> set (merge_filter_set x y) = set x \<union> set y"
  "x \<noteq> [] \<Longrightarrow> y \<noteq> [] \<Longrightarrow> merge_filter_set x y \<noteq> []"
proof -
  show "set (merge_filter_set x y) = set x \<union> set y" if "x \<noteq> []" "y \<noteq> []" for x y :: "'b list"
    using that by (simp add: merge_filter_set_def)
  then show "x \<noteq> [] \<Longrightarrow> y \<noteq> [] \<Longrightarrow> merge_filter_set x y \<noteq> []"
    by (metis Un_empty set_empty)
qed

lemma merge_accepts:
  "x \<noteq> [] \<Longrightarrow> y \<noteq> [] \<Longrightarrow> set_accepts (merge_filter_set x y) v \<longleftrightarrow> set_accepts x v \<or> set_accepts y v"
  by (simp add: set_accepts_def merge_filter_set_ne)

lemma topics_subsume:
  "length xs = length ys \<Longrightarrow> list_all (\<lambda>(x, y). filter_set_subsumes x y) (zip xs ys) \<Longrightarrow> topics_accept ys ts
     \<Longrightarrow> topics_accept xs ts"
proof (induction xs ys arbitrary: ts rule: list_induct2)
  case (Cons x xs y ys)
  then show ?case
    by (cases ts) (auto intro: subsumes_accepts simp: filter_set_subsumes_def)
qed simp

lemma topics_equal:
  "length xs = length ys \<Longrightarrow> filter (\<lambda>(x, y). set x \<noteq> set y) (zip xs ys) = [] \<Longrightarrow> topics_accept xs ts = topics_accept ys ts"
proof (induction xs ys arbitrary: ts rule: list_induct2)
  case (Cons x xs y ys)
  then have "set x = set y" and "x = [] \<longleftrightarrow> y = []" by (auto split: if_splits)
  with Cons show ?case by (cases ts) (auto simp: equal_accepts [of x y])
qed simp

lemma all_equal_subsume:
  "filter (\<lambda>(x, y). set x \<noteq> set y) (zip xs ys) = [] \<Longrightarrow> list_all (\<lambda>(x, y). filter_set_subsumes x y) (zip xs ys)"
  by (auto simp: list_all_iff filter_empty_conv intro: equal_subsumes)

text \<open>Two topic lists that differ in one place are merged exactly, unless one side is a wildcard there.\<close>

lemma merge_first_topic_accepts:
  assumes "length xs = length ys" and "length (filter (\<lambda>(x, y). set x \<noteq> set y) (zip xs ys)) = 1"
    and "\<not> list_all (\<lambda>(x, y). filter_set_subsumes x y) (zip xs ys)"
    and "\<not> list_all (\<lambda>(y, x). filter_set_subsumes y x) (zip ys xs)"
  shows "topics_accept (merge_first_topic xs ys) ts \<longleftrightarrow> topics_accept xs ts \<or> topics_accept ys ts"
  using assms
proof (induction xs ys arbitrary: ts rule: list_induct2)
  case (Cons x xs y ys)
  show ?case
  proof (cases "set x = set y")
    case True
    then have sub: "filter_set_subsumes x y" "filter_set_subsumes y x" and "x = [] \<longleftrightarrow> y = []"
      by (auto intro: equal_subsumes)
    with Cons True show ?thesis by (cases ts) (auto simp: equal_accepts [of x y])
  next
    case False
    with Cons.prems(1) have eq: "filter (\<lambda>(x, y). set x \<noteq> set y) (zip xs ys) = []" by simp
    then have eq': "filter (\<lambda>(x, y). set x \<noteq> set y) (zip ys xs) = []"
      using Cons.hyps by (auto simp: filter_empty_conv set_zip)
    have ne: "x \<noteq> []" "y \<noteq> []"
      using Cons.prems(2,3) all_equal_subsume [OF eq] all_equal_subsume [OF eq'] by (auto simp: filter_set_subsumes_def)
    then have mne: "merge_filter_set x y \<noteq> []" by (rule merge_filter_set_ne(2))
    show ?thesis
      using False topics_equal [OF Cons.hyps eq] ne mne
      by (cases ts) (auto simp: merge_accepts)
  qed
qed simp

section \<open>The union is exact\<close>

definition well_shaped :: "log_filter \<Rightarrow> bool" where
  "well_shaped f \<longleftrightarrow> length (ft_topics f) = 4"

lemma subsumes_accepts_filter:
  assumes "filter_subsumes f g" and "well_shaped f" and "well_shaped g" and "ft_block_option f = ft_block_option g"
    and "accepts ok g l"
  shows "accepts ok f l"
  using assms subsumes_accepts topics_subsume [of "ft_topics f" "ft_topics g"]
  by (auto simp: filter_subsumes_def accepts_def well_shaped_def)

lemma length_merge_first_topic [simp]: "length (merge_first_topic xs ys) = length xs"
  by (induction xs ys rule: merge_first_topic.induct) auto

lemma union_shape:
  assumes "exact_filter_union f g = Some h" and "well_shaped f" and "well_shaped g"
    and "ft_block_option f = ft_block_option g"
  shows "well_shaped h \<and> ft_block_option h = ft_block_option f"
  using assms by (auto simp: exact_filter_union_def well_shaped_def split: if_splits)

lemma union_exact:
  assumes u: "exact_filter_union f g = Some h" and shape: "well_shaped f" "well_shaped g"
    and blk: "ft_block_option f = ft_block_option g"
  shows "accepts ok h l \<longleftrightarrow> accepts ok f l \<or> accepts ok g l"
proof -
  have len: "length (ft_topics f) = length (ft_topics g)" using shape by (simp add: well_shaped_def)
  consider (left) "filter_subsumes f g" "h = f" | (right) "filter_subsumes g f" "h = g"
    | (address) "\<not> filter_subsumes f g" "\<not> filter_subsumes g f" "set (ft_address f) \<noteq> set (ft_address g)"
        "filter (\<lambda>(x, y). set x \<noteq> set y) (zip (ft_topics f) (ft_topics g)) = []"
        "h = f\<lparr>ft_address := merge_filter_set (ft_address f) (ft_address g)\<rparr>"
    | (topic) "\<not> filter_subsumes f g" "\<not> filter_subsumes g f" "set (ft_address f) = set (ft_address g)"
        "length (filter (\<lambda>(x, y). set x \<noteq> set y) (zip (ft_topics f) (ft_topics g))) = 1"
        "h = f\<lparr>ft_topics := merge_first_topic (ft_topics f) (ft_topics g)\<rparr>"
    using u by (auto simp: exact_filter_union_def differing_dimensions_def split: if_splits)
  then show ?thesis
  proof cases
    case left
    then show ?thesis using subsumes_accepts_filter [OF left(1) shape blk] by blast
  next
    case right
    then show ?thesis using subsumes_accepts_filter [OF right(1) shape(2,1) blk [symmetric]] by blast
  next
    case address
    have eq': "filter (\<lambda>(x, y). set x \<noteq> set y) (zip (ft_topics g) (ft_topics f)) = []"
      using address(4) len by (auto simp: filter_empty_conv set_zip)
    have ne: "ft_address f \<noteq> []" "ft_address g \<noteq> []"
      using address(1,2) all_equal_subsume [OF address(4)] all_equal_subsume [OF eq']
      by (auto simp: filter_subsumes_def filter_set_subsumes_def)
    show ?thesis
      using blk topics_equal [OF len address(4)] by (auto simp: address(5) accepts_def merge_accepts [OF ne])
  next
    case topic
    have "\<not> list_all (\<lambda>(x, y). filter_set_subsumes x y) (zip (ft_topics f) (ft_topics g))"
      "\<not> list_all (\<lambda>(y, x). filter_set_subsumes y x) (zip (ft_topics g) (ft_topics f))"
      using topic(1,2,3) by (auto simp: filter_subsumes_def intro: equal_subsumes)
    from merge_first_topic_accepts [OF len topic(4) this] show ?thesis
      using blk equal_accepts [OF topic(3)] by (auto simp: topic(5) accepts_def)
  qed
qed

section \<open>The loop\<close>

definition mergeable :: "log_filter \<Rightarrow> log_filter \<Rightarrow> bool" where
  "mergeable f g \<longleftrightarrow> ft_block_option f = ft_block_option g \<and> exact_filter_union f g \<noteq> None"

lemma differing_dimensions_sym: "differing_dimensions f g = differing_dimensions g f"
proof -
  have "length (filter (\<lambda>(x, y). set x \<noteq> set y) (zip xs ys)) = length (filter (\<lambda>(x, y). set x \<noteq> set y) (zip ys xs))"
    for xs ys :: "b256 list list"
    by (induction xs ys rule: list_induct2') auto
  then show ?thesis by (auto simp: differing_dimensions_def)
qed

lemma mergeable_sym: "mergeable f g \<longleftrightarrow> mergeable g f"
  using differing_dimensions_sym [of f g] by (auto simp: mergeable_def exact_filter_union_def)

lemma merge_loop_spec:
  assumes "merge_loop fs c n i = (fs', c', n')" and "\<forall>f \<in> set fs. well_shaped f" and "well_shaped c"
    and "i \<le> length fs" and "\<forall>j < i. \<not> mergeable c (fs ! j)"
    and "sorted_wrt (\<lambda>f g. \<not> mergeable f g) fs"
  shows "(\<forall>f \<in> set fs'. well_shaped f \<and> \<not> mergeable c' f) \<and> well_shaped c'
    \<and> sorted_wrt (\<lambda>f g. \<not> mergeable f g) fs' \<and> length fs' \<le> length fs
    \<and> ((\<exists>f \<in> insert c' (set fs'). accepts ok f l) \<longleftrightarrow> (\<exists>f \<in> insert c (set fs). accepts ok f l))"
  using assms
proof (induction fs c n i rule: merge_loop.induct)
  case (1 fs c n i)
  show ?case
  proof (cases "i < length fs")
    case False
    with "1.prems"(1) have r: "fs' = fs" "c' = c" by (simp_all add: merge_loop.simps)
    from False "1.prems"(4,5) have "\<forall>f \<in> set fs. \<not> mergeable c f" by (auto simp: in_set_conv_nth)
    with r "1.prems" show ?thesis by auto
  next
    case True
    show ?thesis
    proof (cases "mergeable c (fs ! i)")
      case False
      with True "1.prems"(1) have step: "merge_loop fs c n (i + 1) = (fs', c', n')"
        by (subst (asm) merge_loop.simps) (auto simp: mergeable_def split: option.splits if_splits)
      have "\<forall>j < i + 1. \<not> mergeable c (fs ! j)" using "1.prems"(5) False by (auto simp: less_Suc_eq)
      moreover have "i + 1 \<le> length fs" using True by simp
      moreover have "ft_block_option (fs ! i) \<noteq> ft_block_option c \<or> exact_filter_union c (fs ! i) = None"
        using False by (auto simp: mergeable_def)
      ultimately show ?thesis
        using "1.IH"(1) [OF True _ step "1.prems"(2,3) _ _ "1.prems"(6)]
          "1.IH"(2) [OF True _ _ step "1.prems"(2,3) _ _ "1.prems"(6)] by (cases "ft_block_option (fs ! i) = ft_block_option c") blast+
    next
      case m: True
      then obtain h where blk: "ft_block_option c = ft_block_option (fs ! i)" and u: "exact_filter_union c (fs ! i) = Some h"
        by (auto simp: mergeable_def)
      let ?fs = "take i fs @ drop (i + 1) fs"
      from True "1.prems"(1) blk u have step: "merge_loop ?fs h (min n i) 0 = (fs', c', n')"
        by (subst (asm) merge_loop.simps) simp
      have shi: "well_shaped (fs ! i)" using True "1.prems"(2) by simp
      have split: "set fs = insert (fs ! i) (set ?fs)"
        using True by (metis Cons_nth_drop_Suc Suc_eq_plus1 append_take_drop_id list.simps(15) set_append Un_insert_right)
      have srt: "sorted_wrt (\<lambda>f g. \<not> mergeable f g) ?fs"
        using "1.prems"(6) id_take_nth_drop [OF True]
        by (metis (no_types, lifting) Suc_eq_plus1 list.set_intros(2) sorted_wrt.simps(2) sorted_wrt_append)
      have sh: "well_shaped h" using union_shape [OF u "1.prems"(3) shi blk] by simp
      have "\<forall>f \<in> set ?fs. well_shaped f" using "1.prems"(2) split by blast
      with "1.IH"(3) [OF True _ u step] blk sh srt
      have "(\<forall>f \<in> set fs'. well_shaped f \<and> \<not> mergeable c' f) \<and> well_shaped c'
        \<and> sorted_wrt (\<lambda>f g. \<not> mergeable f g) fs' \<and> length fs' \<le> length ?fs
        \<and> ((\<exists>f \<in> insert c' (set fs'). accepts ok f l) \<longleftrightarrow> (\<exists>f \<in> insert h (set ?fs). accepts ok f l))"
        by simp
      moreover have "length ?fs \<le> length fs" by simp
      moreover have "(\<exists>f \<in> insert h (set ?fs). accepts ok f l) \<longleftrightarrow> (\<exists>f \<in> insert c (set fs). accepts ok f l)"
        unfolding split using union_exact [OF u "1.prems"(3) shi blk] by blast
      ultimately show ?thesis by (meson le_trans)
    qed
  qed
qed

lemma merge_filter_spec:
  assumes "\<forall>f \<in> set fs. well_shaped f" and "well_shaped g" and "sorted_wrt (\<lambda>f g. \<not> mergeable f g) fs"
  shows "(\<forall>f \<in> set (merge_log_subscription_filter fs g). well_shaped f)
    \<and> sorted_wrt (\<lambda>f g. \<not> mergeable f g) (merge_log_subscription_filter fs g)
    \<and> length (merge_log_subscription_filter fs g) \<le> length fs + 1
    \<and> ((\<exists>f \<in> set (merge_log_subscription_filter fs g). accepts ok f l) \<longleftrightarrow> (\<exists>f \<in> insert g (set fs). accepts ok f l))"
proof -
  obtain fs' c n where m: "merge_loop fs g (length fs) 0 = (fs', c, n)" by (cases "merge_loop fs g (length fs) 0")
  let ?k = "min n (length fs')"
  have r: "merge_log_subscription_filter fs g = take ?k fs' @ [c] @ drop ?k fs'"
    by (simp add: merge_log_subscription_filter_def m Let_def)
  have spec: "(\<forall>f \<in> set fs'. well_shaped f \<and> \<not> mergeable c f) \<and> well_shaped c
    \<and> sorted_wrt (\<lambda>f g. \<not> mergeable f g) fs' \<and> length fs' \<le> length fs
    \<and> ((\<exists>f \<in> insert c (set fs'). accepts ok f l) \<longleftrightarrow> (\<exists>f \<in> insert g (set fs). accepts ok f l))"
    by (rule merge_loop_spec [OF m assms(1,2) _ _ assms(3)]) simp_all
  have set: "set (take ?k fs' @ [c] @ drop ?k fs') = insert c (set fs')"
    by (metis Un_insert_right append_Cons append_Nil append_take_drop_id list.simps(15) set_append)
  have "sorted_wrt (\<lambda>f g. \<not> mergeable f g) (take ?k fs' @ drop ?k fs')" using spec by simp
  then have "sorted_wrt (\<lambda>f g. \<not> mergeable f g) (take ?k fs' @ [c] @ drop ?k fs')"
    using spec by (auto simp: sorted_wrt_append mergeable_sym [of _ c] dest: in_set_takeD in_set_dropD simp del: append_take_drop_id)
  with spec show ?thesis unfolding r set by auto
qed

section \<open>Property\<close>

text \<open>
  What alloy documents of \<open>Filter::rpc_matches\<close>: a log matches iff its block is in the filter's block option and
  each of the address set and the four topic sets is empty or contains the log's value.
\<close>

definition filter_semantics :: "(log_filter \<Rightarrow> rpc_log \<Rightarrow> bool) \<Rightarrow> bool" where
  "filter_semantics rpc_matches \<longleftrightarrow> (\<exists>block_ok. \<forall>f l. rpc_matches f l \<longleftrightarrow> accepts block_ok f l)"

lemma foldl_merge_spec:
  assumes "\<forall>f \<in> set gs \<union> set fs. well_shaped f" and "sorted_wrt (\<lambda>f g. \<not> mergeable f g) fs"
  shows "sorted_wrt (\<lambda>f g. \<not> mergeable f g) (foldl merge_log_subscription_filter fs gs)
    \<and> length (foldl merge_log_subscription_filter fs gs) \<le> length fs + length gs
    \<and> ((\<exists>f \<in> set (foldl merge_log_subscription_filter fs gs). accepts ok f l) \<longleftrightarrow>
       (\<exists>f \<in> set gs \<union> set fs. accepts ok f l))"
  using assms
proof (induction gs arbitrary: fs)
  case (Cons g gs)
  let ?fs = "merge_log_subscription_filter fs g"
  have spec: "(\<forall>f \<in> set ?fs. well_shaped f) \<and> sorted_wrt (\<lambda>f g. \<not> mergeable f g) ?fs \<and> length ?fs \<le> length fs + 1
    \<and> ((\<exists>f \<in> set ?fs. accepts ok f l) \<longleftrightarrow> (\<exists>f \<in> insert g (set fs). accepts ok f l))"
    using Cons.prems by (intro merge_filter_spec) auto
  then have "\<forall>f \<in> set gs \<union> set ?fs. well_shaped f" using Cons.prems(1) by auto
  with spec have ih: "sorted_wrt (\<lambda>f g. \<not> mergeable f g) (foldl merge_log_subscription_filter ?fs gs)
    \<and> length (foldl merge_log_subscription_filter ?fs gs) \<le> length ?fs + length gs
    \<and> ((\<exists>f \<in> set (foldl merge_log_subscription_filter ?fs gs). accepts ok f l) \<longleftrightarrow>
       (\<exists>f \<in> set gs \<union> set ?fs. accepts ok f l))"
    by (intro Cons.IH) auto
  moreover have "(\<exists>f \<in> set gs \<union> set ?fs. accepts ok f l) \<longleftrightarrow> (\<exists>f \<in> set (g # gs) \<union> set fs. accepts ok f l)"
    using spec by auto
  moreover have "length ?fs + length gs \<le> length fs + length (g # gs)" using spec by simp
  ultimately show ?case by (simp add: Bex_def del: bex_simps)
qed simp

text \<open>
  \<^bold>\<open>C16.\<close> The subscriptions a registry asks a provider for are exact: a log passes one of the merged filters
  iff it passes the filter of some log interest of some registered handler, so merging neither loses a
  log nor asks for one nobody wants. No two of them could be merged further without widening, in
  particular none subsumes another, and there are at most as many as interests. The documentation of
  \<open>log_subscription_filters\<close> announces less: it says the sets are unioned independently and may overfetch.
\<close>

theorem subscription_filters_are_exact:
  assumes "filter_semantics rpc_matches" and "\<forall>i \<in> set (log_interests r). well_shaped (lf_provider_filter i)"
  shows "((\<exists>f \<in> set (log_subscription_filters r). rpc_matches f l) \<longleftrightarrow>
        (\<exists>i \<in> set (log_interests r). rpc_matches (lf_provider_filter i) l))
    \<and> sorted_wrt (\<lambda>f g. ft_block_option f = ft_block_option g \<longrightarrow> exact_filter_union f g = None) (log_subscription_filters r)
    \<and> length (log_subscription_filters r) \<le> length (log_interests r)"
proof -
  obtain ok where ok: "rpc_matches f l = accepts ok f l" for f l
    using assms(1) by (auto simp: filter_semantics_def)
  let ?gs = "map lf_provider_filter (log_interests r)"
  have r: "log_subscription_filters r = foldl merge_log_subscription_filter [] ?gs"
    by (simp add: log_subscription_filters_def foldl_map)
  have "sorted_wrt (\<lambda>f g. \<not> mergeable f g) (foldl merge_log_subscription_filter [] ?gs)
    \<and> length (foldl merge_log_subscription_filter [] ?gs) \<le> length ?gs
    \<and> ((\<exists>f \<in> set (foldl merge_log_subscription_filter [] ?gs). accepts ok f l) \<longleftrightarrow> (\<exists>f \<in> set ?gs. accepts ok f l))"
    using foldl_merge_spec [of ?gs "[]" ok l] assms(2) by auto
  then show ?thesis unfolding r ok mergeable_def by simp
qed

definition filter_of :: "address list \<Rightarrow> b256 list \<Rightarrow> log_interest" where
  "filter_of as ts = \<lparr>lf_provider_filter = \<lparr>ft_block_option = BlockRange None None, ft_address = as, ft_topics = [ts, [], [], []]\<rparr>,
     lf_local_matcher = None, lf_route_key = None\<rparr>"

definition filter_handler :: "string \<Rightarrow> log_interest list \<Rightarrow> reactive_handler" where
  "filter_handler i fs = \<lparr>hd_id = i, hd_interests = map LogsInterest fs, hd_log_route_index = None, hd_handle = (\<lambda>_ _ _. Err [])\<rparr>"

definition filter_registry :: reactive_registry where
  "filter_registry = snd (register_handler (filter_handler ''a'' [filter_of [1] [7], filter_of [2] [8], filter_of [2] [7]]) registry_empty)"

theorem subscription_filters_are_exact_witness:
  "log_subscription_filters filter_registry =
     [\<lparr>ft_block_option = BlockRange None None, ft_address = [1, 2], ft_topics = [[7], [], [], []]\<rparr>,
      lf_provider_filter (filter_of [2] [8])]
   \<and> (\<exists>f \<in> set (log_subscription_filters filter_registry). accepts (\<lambda>_ _. True) f (sample_log 2 []))"
proof -
  let ?is = "[filter_of [1] [7], filter_of [2] [8], filter_of [2] [7]]"
  have ints: "log_interests filter_registry = ?is"
    by (simp add: log_interests_def filter_registry_def register_handler_def insert_handler_prepared_def
        place_handler_def index_handler_def prepared_handler_def filter_handler_def registry_empty_def Let_def)
  have "log_subscription_filters filter_registry =
     [\<lparr>ft_block_option = BlockRange None None, ft_address = [1, 2], ft_topics = [[7], [], [], []]\<rparr>,
      lf_provider_filter (filter_of [2] [8])]"
    unfolding log_subscription_filters_def ints by code_simp
  moreover have "filter_semantics (accepts (\<lambda>_ _. True))" by (auto simp: filter_semantics_def)
  moreover have "\<forall>i \<in> set (log_interests filter_registry). well_shaped (lf_provider_filter i)"
    by (simp add: ints filter_of_def well_shaped_def)
  moreover have "\<exists>i \<in> set (log_interests filter_registry). accepts (\<lambda>_ _. True) (lf_provider_filter i) (sample_log 2 [])"
    by (simp add: ints filter_of_def accepts_def set_accepts_def sample_log_def)
  ultimately show ?thesis
    using subscription_filters_are_exact [of "accepts (\<lambda>_ _. True)" filter_registry "sample_log 2 []"] by blast
qed

end
