(* ===== verification/Cache_Views.thy ===== *)
theory Cache_Views
  imports Cache_Props
begin

text \<open>
  Batches of updates on the abstract storage view, and the chain of changes their diffs record: the facts
  that users of \<open>apply_updates\<close> outside the cache rely on.
\<close>

section \<open>Batches on the view\<close>

fun is_upsert :: "state_update \<Rightarrow> bool" where
  "is_upsert (AccountUpsert _ _) = True"
| "is_upsert _ = False"

lemma not_upsert [simp]: "\<not> is_upsert u \<Longrightarrow> \<not> upsert_of_not_existing u c"
  by (auto simp: upsert_of_not_existing_def)

lemma view_ignores_gen [simp]: "storage_view (set_gen g c) = storage_view c"
  by (simp add: storage_view_def reads_zero_at_def fun_eq_iff)

lemma apply_updates_as_each:
  assumes "apply_updates ext us c = Some (d, c')"
  obtains c'' where "apply_each ext us empty_diff c = Some (d, c'')" and "set_gen 0 c'' = set_gen 0 c'"
proof -
  have "forget_gen (apply_each ext us empty_diff c) = Some (d, set_gen 0 c')"
    using apply_updates_each [of ext us c] assms by (simp add: forget_gen_def)
  then obtain c'' where "apply_each ext us empty_diff c = Some (d, c'')" "set_gen 0 c'' = set_gen 0 c'"
    by (auto simp: forget_gen_def)
  then show thesis by (rule that)
qed

lemma storage_view_gen_eq: "set_gen 0 c = set_gen 0 c' \<Longrightarrow> storage_view c = storage_view c'"
  by (metis view_ignores_gen)

lemma apply_each_view:
  assumes "revm_ok ext" and "list_all (\<lambda>u. \<not> is_upsert u) us" and "apply_each ext us d0 c = Some (d, c')"
  shows "storage_view c' = fold spec_update us (storage_view c)"
  using assms(2,3)
proof (induction us arbitrary: d0 c)
  case (Cons u us)
  then obtain d1 c1 where u: "apply_update ext u c = Some (d1, c1)" and us: "apply_each ext us (diff_merge d0 d1) c1 = Some (d, c')"
    by (auto split: bind_splits)
  have "storage_view c1 = spec_update u (storage_view c)"
    using Cons.prems(1) by (intro apply_update_view [OF assms(1) u]) simp
  with Cons.IH [OF _ us] Cons.prems(1) show ?case by simp
qed simp

lemma apply_updates_view:
  assumes "revm_ok ext" and "list_all (\<lambda>u. \<not> is_upsert u) us" and "apply_updates ext us c = Some (d, c')"
  shows "storage_view c' = fold spec_update us (storage_view c)"
proof -
  obtain c'' where "apply_each ext us empty_diff c = Some (d, c'')" and "set_gen 0 c'' = set_gen 0 c'"
    by (rule apply_updates_as_each [OF assms(3)])
  with apply_each_view [OF assms(1,2)] show ?thesis by (metis storage_view_gen_eq)
qed

section \<open>Absolute slot writes\<close>

fun is_slot_write :: "state_update \<Rightarrow> bool" where
  "is_slot_write (Slot _ _ _) = True"
| "is_slot_write _ = False"

lemma slot_write_not_upsert: "list_all is_slot_write us \<Longrightarrow> list_all (\<lambda>u. \<not> is_upsert u) us"
  by (induction us) (auto elim: is_slot_write.elims)

text \<open>The last write to a slot decides.\<close>

fun written_value :: "address \<Rightarrow> u256 \<Rightarrow> state_update list \<Rightarrow> u256 option" where
  "written_value a s [] = None"
| "written_value a s (Slot b t v # us) =
     (case written_value a s us of Some w \<Rightarrow> Some w | None \<Rightarrow> if b = a \<and> t = s then Some v else None)"
| "written_value a s (_ # us) = written_value a s us"

lemma fold_slot_writes:
  "list_all is_slot_write us \<Longrightarrow>
   fst (fold spec_update us w) a s = (case written_value a s us of Some v \<Rightarrow> Some v | None \<Rightarrow> fst w a s)
   \<and> snd (fold spec_update us w) = snd w"
proof (induction us arbitrary: w)
  case (Cons u us)
  then obtain b t v where u: "u = Slot b t v" by (auto elim: is_slot_write.elims)
  show ?case using Cons by (auto simp: u view_set_def split: option.splits)
qed simp

lemma written_value_mem: "written_value a s us = Some v \<Longrightarrow> Slot a s v \<in> set us"
  by (induction a s us rule: written_value.induct) (auto split: option.splits if_splits)

lemma written_value_None: "list_all is_slot_write us \<Longrightarrow> written_value a s us = None \<longleftrightarrow> (\<forall>v. Slot a s v \<notin> set us)"
  by (induction a s us rule: written_value.induct) (auto split: option.splits if_splits)

end
