(* ===== verification/Reactive_Effects.thy ===== *)
theory Reactive_Effects
  imports Reactive_Registry Cache_Views
begin

text \<open>
  What handlers may do (\<open>validate_effects\<close>, \<open>HandlerExecution::from_outcome\<close>, \<open>detect_conflicts\<close>,
  \<open>absolute_writes\<close> and \<open>execute_handlers\<close> of \<^verbatim>\<open>src/reactive/mod.rs\<close>): effects of pending inputs are
  restricted, and the executions of one input may not write different values to one target.
\<close>

section \<open>Definitions\<close>

record handler_execution =
  he_handler_id :: handler_id
  he_quality :: state_effect_quality
  he_tags :: "report_tag list"
  he_state_updates :: "state_update list"
  he_invalidations :: "invalidation_request list"
  he_resyncs :: "resync_request list"
  he_speculative :: "speculative_request list"
  he_hook_signals :: "hook_signal list"

fun push_effect :: "input_ref \<Rightarrow> bool \<Rightarrow> handler_execution \<Rightarrow> reactive_effect \<Rightarrow> handler_execution" where
  "push_effect r pre e (EfStateUpdate u) = e\<lparr>he_state_updates := he_state_updates e @ [u]\<rparr>"
| "push_effect r pre e (EfInvalidate i) =
     e\<lparr>he_state_updates := he_state_updates e @ [Purge (iv_address i) (iv_scope i)],
       he_invalidations := he_invalidations e @ [i]\<rparr>"
| "push_effect r pre e (EfResync q) =
     e\<lparr>he_resyncs := he_resyncs e @ [if pre then q\<lparr>rq_block := RbPending\<rparr> else q]\<rparr>"
| "push_effect r pre e (EfHook s) = e\<lparr>he_hook_signals := he_hook_signals e @ [s]\<rparr>"
| "push_effect r pre e (EfSpeculative q) = e\<lparr>he_speculative := he_speculative e @ [q\<lparr>sq_input_ref := r\<rparr>]\<rparr>"

definition from_outcome :: "handler_id \<Rightarrow> input_ref \<Rightarrow> handler_outcome \<Rightarrow> bool \<Rightarrow> handler_execution" where
  "from_outcome i r outcome preconfirmed =
     foldl (push_effect r preconfirmed)
       \<lparr>he_handler_id = i, he_quality = ho_quality outcome, he_tags = ho_tags outcome, he_state_updates = [],
        he_invalidations = [], he_resyncs = [], he_speculative = [], he_hook_signals = []\<rparr> (ho_effects outcome)"

fun canonical_effect_kind :: "reactive_effect \<Rightarrow> string option" where
  "canonical_effect_kind (EfStateUpdate _) = Some ''state_update''"
| "canonical_effect_kind (EfInvalidate _) = Some ''invalidate''"
| "canonical_effect_kind (EfResync _) = Some ''resync''"
| "canonical_effect_kind _ = None"

fun is_pending_ref :: "input_ref \<Rightarrow> bool" where
  "is_pending_ref (RefPendingTx _ _) = True"
| "is_pending_ref _ = False"

fun validate_pending_effects :: "input_ref \<Rightarrow> handler_id \<Rightarrow> reactive_effect list \<Rightarrow> reactive_error + unit" where
  "validate_pending_effects r i [] = Okay ()"
| "validate_pending_effects r i (e # es) =
     (case canonical_effect_kind e of
        Some kind \<Rightarrow> Err (InvalidPendingEffect r i kind)
      | None \<Rightarrow> validate_pending_effects r i es)"

definition validate_effects ::
  "input_ref \<Rightarrow> reactive_context \<Rightarrow> handler_id \<Rightarrow> reactive_effect list \<Rightarrow> reactive_error + unit" where
  "validate_effects r cx i effects =
     (if cx_chain_status cx = StPending \<or> is_pending_ref r then validate_pending_effects r i effects else Okay ())"

datatype absolute_value = AvU256 u256 | AvU64 u64 | AvBytes bytes

definition account_patch_writes :: "address \<Rightarrow> account_patch \<Rightarrow> (effect_target \<times> absolute_value) list" where
  "account_patch_writes a p =
     (case ap_balance p of None \<Rightarrow> [] | Some b \<Rightarrow> [(TAccountBalance a, AvU256 b)])
     @ (case ap_nonce p of None \<Rightarrow> [] | Some n \<Rightarrow> [(TAccountNonce a, AvU64 n)])
     @ (case ap_code p of None \<Rightarrow> [] | Some c \<Rightarrow> [(TAccountCode a, AvBytes c)])"

fun absolute_writes :: "state_update \<Rightarrow> (effect_target \<times> absolute_value) list" where
  "absolute_writes (Slot a s v) = [(TStorageSlot a s, AvU256 v)]"
| "absolute_writes (SlotMasked a s m v) = [(TMaskedStorageSlot a s m, AvU256 v)]"
| "absolute_writes (Account a p) = account_patch_writes a p"
| "absolute_writes (AccountUpsert a p) = account_patch_writes a p"
| "absolute_writes (SlotDelta _ _ _) = []"
| "absolute_writes (BalanceDelta _ _) = []"
| "absolute_writes (Purge _ _) = []"

type_synonym write_table = "(effect_target, absolute_value \<times> handler_id) hashmap"

fun check_writes ::
  "input_ref \<Rightarrow> handler_id \<Rightarrow> (effect_target \<times> absolute_value) list \<Rightarrow> write_table \<Rightarrow> reactive_error + write_table" where
  "check_writes r i [] writes = Okay writes"
| "check_writes r i ((t, v) # ws) writes =
     (case hm_get writes t of
        Some (v', first) \<Rightarrow>
          if v' \<noteq> v then Err (ConflictingEffects r t first i) else check_writes r i ws writes
      | None \<Rightarrow> check_writes r i ws (hm_insert t (v, i) writes))"

definition execution_writes :: "handler_execution \<Rightarrow> (effect_target \<times> absolute_value) list" where
  "execution_writes e = concat (map absolute_writes (he_state_updates e))"

fun detect_conflicts_from :: "input_ref \<Rightarrow> handler_execution list \<Rightarrow> write_table \<Rightarrow> reactive_error + unit" where
  "detect_conflicts_from r [] writes = Okay ()"
| "detect_conflicts_from r (e # es) writes =
     (case check_writes r (he_handler_id e) (execution_writes e) writes of
        Inl err \<Rightarrow> Err err
      | Inr writes' \<Rightarrow> detect_conflicts_from r es writes')"

definition detect_conflicts :: "input_ref \<Rightarrow> handler_execution list \<Rightarrow> reactive_error + unit" where
  "detect_conflicts r es = detect_conflicts_from r es []"

fun audience_excludes :: "delivery_audience \<Rightarrow> handler_id \<Rightarrow> bool" where
  "audience_excludes AudAll i = False"
| "audience_excludes (AudOwners owners) i = (i \<notin> set owners)"
| "audience_excludes (AudAllExcept excluded) i = (i \<in> set excluded)"

text \<open>
  The loop of \<open>execute_handlers\<close> over the candidates. The flag next to an error says that the counter
  \<open>pending_contamination\<close> was advanced.
\<close>

fun run_handlers ::
  "(log_filter \<Rightarrow> rpc_log \<Rightarrow> bool) \<Rightarrow> evm_cache \<Rightarrow> reactive_input_record \<Rightarrow> input_ref \<Rightarrow> delivery_audience
     \<Rightarrow> registered_handler list \<Rightarrow> handler_execution list \<Rightarrow> (reactive_error \<times> bool) + handler_execution list" where
  "run_handlers rm c rec r aud [] es = Okay es"
| "run_handlers rm c rec r aud (h # hs) es =
     (if audience_excludes aud (rg_id h) \<or> \<not> registered_matches rm h (rr_input rec)
      then run_handlers rm c rec r aud hs es
      else case hd_handle (rg_handler h) (rr_context rec) (rr_input rec) c of
             Inl message \<Rightarrow> Err (HandlerFailed (rg_id h) message, False)
           | Inr outcome \<Rightarrow>
               (case validate_effects r (rr_context rec) (rg_id h) (ho_effects outcome) of
                  Inl e \<Rightarrow> Err (e, True)
                | Inr _ \<Rightarrow> run_handlers rm c rec r aud hs
                    (es @ [from_outcome (rg_id h) r outcome
                       (case cx_chain_status (rr_context rec) of StPreconfirmed _ \<Rightarrow> True | _ \<Rightarrow> False)])))"

definition execute_handlers ::
  "(log_filter \<Rightarrow> rpc_log \<Rightarrow> bool) \<Rightarrow> reactive_registry \<Rightarrow> evm_cache \<Rightarrow> reactive_input_record \<Rightarrow> input_ref
     \<Rightarrow> delivery_audience \<Rightarrow> (reactive_error \<times> bool) + handler_execution list" where
  "execute_handlers rm reg c rec r aud =
     (let candidates = (case rr_input rec of
            InLog l \<Rightarrow> log_handler_candidates reg l
          | _ \<Rightarrow> map snd (rs_handlers reg))
      in run_handlers rm c rec r aud candidates [])"

section \<open>Conflicts\<close>

definition all_writes :: "handler_execution list \<Rightarrow> (effect_target \<times> absolute_value \<times> handler_id) list" where
  "all_writes es = concat (map (\<lambda>e. map (\<lambda>(t, v). (t, v, he_handler_id e)) (execution_writes e)) es)"

text \<open>What the table holds after the writes \<open>ws\<close>: one entry per target, of its first write.\<close>

definition table_of :: "(effect_target \<times> absolute_value \<times> handler_id) list \<Rightarrow> write_table \<Rightarrow> bool" where
  "table_of ws m \<longleftrightarrow> (\<forall>t. hm_get m t = map_of (map (\<lambda>(t, v, i). (t, (v, i))) ws) t)
     \<and> (\<forall>t v i v' i'. (t, v, i) \<in> set ws \<longrightarrow> (t, v', i') \<in> set ws \<longrightarrow> v = v')"

lemma mem_tagged [simp]: "(t, v, j) \<in> (\<lambda>(t, v). (t, v, i)) ` A \<longleftrightarrow> j = i \<and> (t, v) \<in> A"
  by force

lemma table_of_Nil: "table_of [] []"
  by (simp add: table_of_def)

lemma table_lookup:
  assumes "table_of ws m" and "hm_get m t = Some (v, i)"
  shows "(t, v, i) \<in> set ws" and "(t, v', i') \<in> set ws \<Longrightarrow> v' = v"
proof -
  from assms have "map_of (map (\<lambda>(t, v, i). (t, (v, i))) ws) t = Some (v, i)" by (simp add: table_of_def)
  then show *: "(t, v, i) \<in> set ws" by (auto dest!: map_of_SomeD)
  with assms(1) show "(t, v', i') \<in> set ws \<Longrightarrow> v' = v" unfolding table_of_def by blast
qed

lemma table_missing:
  assumes "table_of ws m" and "hm_get m t = None"
  shows "(t, v, i) \<notin> set ws"
proof
  assume "(t, v, i) \<in> set ws"
  then have "t \<in> fst ` set (map (\<lambda>(t, v, i). (t, (v, i))) ws)" by force
  with assms show False by (simp add: table_of_def map_of_eq_None_iff)
qed

lemma table_append_new:
  assumes "table_of ws m" and "hm_get m t = None"
  shows "table_of (ws @ [(t, v, i)]) (hm_insert t (v, i) m)"
proof -
  have "map_of (map (\<lambda>(t, v, i). (t, (v, i))) ws) t = None" using assms by (simp add: table_of_def)
  then show ?thesis
    using assms(1) table_missing [OF assms] unfolding table_of_def
    by (auto simp: map_add_def split: option.splits) blast+
qed

lemma table_append_same:
  assumes "table_of ws m" and "hm_get m t = Some (v, j)"
  shows "table_of (ws @ [(t, v, i)]) m"
proof -
  have look: "map_of (map (\<lambda>(t, v, i). (t, (v, i))) ws) t = Some (v, j)" using assms by (simp add: table_of_def)
  then show ?thesis
    using assms(1) table_lookup(2) [OF assms] unfolding table_of_def
    by (auto simp: map_add_def split: option.splits) blast+
qed

lemma check_writes_ok:
  assumes "table_of ws m"
  shows "case check_writes r i vs m of
      Inr m' \<Rightarrow> table_of (ws @ map (\<lambda>(t, v). (t, v, i)) vs) m'
    | Inl e \<Rightarrow> (\<exists>t v v' first. e = ConflictingEffects r t first i \<and> v \<noteq> v' \<and> (t, v) \<in> set vs
        \<and> (t, v', first) \<in> set (ws @ map (\<lambda>(t, v). (t, v, i)) vs))"
  using assms
proof (induction vs arbitrary: ws m)
  case (Cons w vs)
  obtain t v where w: "w = (t, v)" by (cases w)
  show ?case
  proof (cases "hm_get m t")
    case None
    from Cons.IH [OF table_append_new [OF Cons.prems None, of v i]] show ?thesis
      using None by (auto simp: w split: sum.splits)
  next
    case (Some x)
    obtain v' j where x: "x = (v', j)" by (cases x)
    show ?thesis
    proof (cases "v' = v")
      case True
      from Cons.IH [OF table_append_same [OF Cons.prems, of t v j i]] show ?thesis
        using Some x True by (auto simp: w split: sum.splits)
    next
      case False
      have "(t, v', j) \<in> set ws" using table_lookup(1) [OF Cons.prems] Some x by simp
      moreover have "check_writes r i (w # vs) m = Err (ConflictingEffects r t j i)"
        using False Some x by (simp add: w)
      ultimately show ?thesis
        using False by (simp add: w) (metis (no_types))
    qed
  qed
qed simp

lemma detect_conflicts_from_exact:
  assumes "table_of ws m"
  shows "case detect_conflicts_from r es m of
      Inr _ \<Rightarrow> \<exists>m'. table_of (ws @ all_writes es) m'
    | Inl e \<Rightarrow> (\<exists>t v v' first second. e = ConflictingEffects r t first second \<and> v \<noteq> v'
        \<and> (t, v', first) \<in> set (ws @ all_writes es) \<and> (t, v, second) \<in> set (all_writes es))"
  using assms
proof (induction es arbitrary: ws m)
  case Nil
  then show ?case by (auto simp: all_writes_def)
next
  case (Cons e es)
  let ?vs = "execution_writes e" and ?i = "he_handler_id e"
  have aw: "all_writes (e # es) = map (\<lambda>(t, v). (t, v, ?i)) ?vs @ all_writes es" by (simp add: all_writes_def)
  show ?case
  proof (cases "check_writes r ?i ?vs m")
    case (Inl err)
    then obtain t v v' first where c: "err = ConflictingEffects r t first ?i" "v \<noteq> v'" "(t, v) \<in> set ?vs"
        "(t, v', first) \<in> set (ws @ map (\<lambda>(t, v). (t, v, ?i)) ?vs)"
      using check_writes_ok [OF Cons.prems, of r ?i ?vs] by auto
    then have "(t, v, ?i) \<in> set (all_writes (e # es))" "(t, v', first) \<in> set (ws @ all_writes (e # es))"
      by (force simp: aw)+
    with Inl c(1,2) show ?thesis by auto
  next
    case (Inr m')
    then have "table_of (ws @ map (\<lambda>(t, v). (t, v, ?i)) ?vs) m'"
      using check_writes_ok [OF Cons.prems, of r ?i ?vs] by simp
    from Cons.IH [OF this] show ?thesis
      using Inr by (simp add: aw split: sum.splits) blast
  qed
qed

section \<open>Properties\<close>

text \<open>
  \<^bold>\<open>C18.\<close> The conflict check of the executions of one input is exact. It accepts iff no two of their absolute
  writes (slots, masked slots, balances, nonces, code) give one target different values; when it rejects,
  the error names a target and two handlers that really write different values to it. So if the accepted
  executions consist of slot writes, the cache ends with the one value each slot was written, whatever the
  order in which the executions are applied.
\<close>

theorem conflict_check_is_exact:
  "(detect_conflicts r es = Okay () \<longleftrightarrow>
      (\<forall>t v i v' i'. (t, v, i) \<in> set (all_writes es) \<and> (t, v', i') \<in> set (all_writes es) \<longrightarrow> v = v'))
   \<and> (\<forall>e. detect_conflicts r es = Err e \<longrightarrow>
      (\<exists>t v v' first second. e = ConflictingEffects r t first second \<and> v \<noteq> v'
        \<and> (t, v', first) \<in> set (all_writes es) \<and> (t, v, second) \<in> set (all_writes es)))
   \<and> (revm_ok ext \<and> detect_conflicts r es = Okay () \<and> mset es' = mset es
        \<and> list_all is_slot_write (concat (map he_state_updates es))
        \<and> apply_updates ext (concat (map he_state_updates es')) c = Some (d, c') \<and> Slot a s v \<in> set (concat (map he_state_updates es))
      \<longrightarrow> cached_storage_value c' a s = Some v)"
proof -
  have exact: "case detect_conflicts r es of
      Inr _ \<Rightarrow> \<exists>m'. table_of (all_writes es) m'
    | Inl e \<Rightarrow> (\<exists>t v v' first second. e = ConflictingEffects r t first second \<and> v \<noteq> v'
        \<and> (t, v', first) \<in> set (all_writes es) \<and> (t, v, second) \<in> set (all_writes es))"
    using detect_conflicts_from_exact [OF table_of_Nil, of r es] unfolding detect_conflicts_def append_Nil .
  have agree: "detect_conflicts r es = Okay () \<longleftrightarrow>
      (\<forall>t v i v' i'. (t, v, i) \<in> set (all_writes es) \<and> (t, v', i') \<in> set (all_writes es) \<longrightarrow> v = v')"
    using exact unfolding table_of_def by (auto split: sum.splits)
  moreover have "cached_storage_value c' a s = Some v"
    if ext: "revm_ok ext" and ok: "detect_conflicts r es = Okay ()" and perm: "mset es' = mset es"
      and sw: "list_all is_slot_write (concat (map he_state_updates es))"
      and app: "apply_updates ext (concat (map he_state_updates es')) c = Some (d, c')"
      and mem: "Slot a s v \<in> set (concat (map he_state_updates es))"
  proof -
    let ?us = "concat (map he_state_updates es')"
    have sets: "set ?us = set (concat (map he_state_updates es))"
      using mset_eq_setD [OF perm] by simp
    with sw have sw': "list_all is_slot_write ?us" by (simp add: list_all_iff)
    have "Slot a s v \<in> set ?us" using mem sets by blast
    then obtain w where w: "written_value a s ?us = Some w"
      using written_value_None [OF sw', of a s] by fastforce
    have wr: "(TStorageSlot a s, AvU256 x) \<in> fst ` (\<lambda>(t, v, i). ((t, v), i)) ` set (all_writes es)"
      if "Slot a s x \<in> set (concat (map he_state_updates es))" for x
    proof -
      from that obtain e where "e \<in> set es" "Slot a s x \<in> set (he_state_updates e)" by auto
      then have "(TStorageSlot a s, AvU256 x, he_handler_id e) \<in> set (all_writes es)"
        by (force simp: all_writes_def execution_writes_def)
      then show ?thesis by force
    qed
    have "w = v"
      using wr [OF mem] wr [of w] written_value_mem [OF w] agree ok sets by fastforce
    with apply_updates_view [OF ext slot_write_not_upsert [OF sw'] app] w
    have "fst (storage_view c') a s = Some v" using fold_slot_writes [OF sw', of _ a s] by simp
    then show ?thesis by simp
  qed
  ultimately show ?thesis using exact by (auto split: sum.splits)
qed

definition slot_execution :: "string \<Rightarrow> u256 \<Rightarrow> handler_execution" where
  "slot_execution i v = from_outcome i (RefPendingTx None 0)
     \<lparr>ho_effects = [EfStateUpdate (Slot 1 5 v)], ho_quality = ExactFromInput, ho_tags = []\<rparr> False"

theorem conflict_check_is_exact_witness:
  "detect_conflicts (RefPendingTx None 0) [slot_execution ''a'' 7, slot_execution ''b'' 7] = Okay ()
   \<and> (\<exists>d c'. apply_updates sample_ext (concat (map he_state_updates [slot_execution ''b'' 7, slot_execution ''a'' 7])) sample_cache
       = Some (d, c') \<and> cached_storage_value c' 1 5 = Some 7)
   \<and> detect_conflicts (RefPendingTx None 0) [slot_execution ''a'' 7, slot_execution ''b'' 8] =
       Err (ConflictingEffects (RefPendingTx None 0) (TStorageSlot 1 5) ''a'' ''b'')"
proof -
  let ?es = "[slot_execution ''a'' 7, slot_execution ''b'' 7]" and ?es' = "[slot_execution ''b'' 7, slot_execution ''a'' 7]"
  have ups: "he_state_updates (slot_execution i v) = [Slot 1 5 v]" "he_handler_id (slot_execution i v) = i" for i v
    by (simp_all add: slot_execution_def from_outcome_def)
  have ok: "detect_conflicts (RefPendingTx None 0) ?es = Okay ()"
    and bad: "detect_conflicts (RefPendingTx None 0) [slot_execution ''a'' 7, slot_execution ''b'' 8] =
       Err (ConflictingEffects (RefPendingTx None 0) (TStorageSlot 1 5) ''a'' ''b'')"
    by (simp_all add: detect_conflicts_def execution_writes_def ups)
  obtain d c' where app: "apply_updates sample_ext (concat (map he_state_updates ?es')) sample_cache = Some (d, c')"
    using apply_updates_is_Some by blast
  have "mset ?es' = mset ?es" by (simp add: add_mset_commute)
  then have "cached_storage_value c' 1 5 = Some 7"
    using conflict_check_is_exact [of "RefPendingTx None 0" ?es sample_ext ?es' sample_cache d c' 1 5 7] ok app sample_ext_ok
    by (simp add: ups)
  with ok bad app show ?thesis by blast
qed

end
