(* ===== verification/Reactive_Runtime.thy ===== *)
theory Reactive_Runtime
  imports Reactive_Effects Code_Seeds
begin

text \<open>
  The state of \<open>ReactiveRuntime\<close> (\<^verbatim>\<open>src/reactive/mod.rs\<close>) and its block journal: recording inputs, handler
  effects and resyncs per block, trimming, draining, and the recovery of dropped blocks, which rolls the cache
  back by the recorded old values and purges what has no recorded old value. The report hooks are the
  reports an operation returns.
\<close>

section \<open>State\<close>

record applied_report =
  ar_input_ref :: input_ref
  ar_handler_id :: handler_id
  ar_quality :: state_effect_quality
  ar_tags :: "report_tag list"
  ar_diff :: state_diff
  ar_state_updates :: "state_update list"
  ar_invalidations :: "invalidation_request list"
  ar_resyncs :: "resync_request list"
  ar_speculative :: "speculative_request list"
  ar_hook_signals :: "hook_signal list"

datatype resync_failure_kind =
    MissingStorageFetcher | StorageFetchFailed | StorageFetchOmitted
  | MissingAccountFetcher | AccountFetchFailed | AccountFetchOmitted

record resync_failure =
  rf_request_id :: string
  rf_block :: resync_block
  rf_target :: resync_target
  rf_kind :: resync_failure_kind
  rf_message :: string

record resync_report =
  rp_requested :: "resync_request list"
  rp_state_updates :: "state_update list"
  rp_diff :: state_diff
  rp_failed :: "resync_failure list"

record block_journal =
  bj_block :: block_ref
  bj_inputs :: "input_ref list"
  bj_applied :: "applied_report list"
  bj_handler_ids :: "handler_id list"
  bj_resynced :: "resync_report list"
  bj_rollback_diffs :: "state_diff list"

datatype cache_health = Healthy | Degraded u64 | Unhealthy u64

record cache_metrics =
  mt_deep_reorgs :: u64
  mt_reorgs_recovered :: u64
  mt_resync_requests :: u64
  mt_resync_failures :: u64
  mt_missed_ranges :: u64
  mt_coverage_gaps :: u64
  mt_pending_contamination :: u64
  mt_stale_verdicts :: u64

datatype tracking_policy = PolSlots "u256 list" | PolWholeAccount | PolScalars

datatype root_gate_cadence = EveryNBlocks u64 | GateDisabled

record tracked_root =
  tk_last_root :: b256
  tk_last_block :: u64
  tk_balance :: u256
  tk_nonce :: u64
  tk_code_hash :: b256

record reorg_report =
  rg_dropped :: "block_ref option"
  rg_dropped_blocks :: "block_ref list"
  rg_dropped_inputs :: "input_ref list"
  rg_rollback_updates :: "state_update list"
  rg_rollback_diff :: state_diff
  rg_purge_updates :: "state_update list"
  rg_purge_diff :: state_diff
  rg_canceled_resyncs :: "resync_request list"
  rg_reason :: reorg_reason

datatype reactive_report =
    RpInput input_ref reactive_context "provider_ref option"
  | RpDecoded input_ref "handler_id list"
  | RpApplied applied_report
  | RpResynced resync_report
  | RpReorg reorg_report
  | RpMissedBlockRange u64 u64 u64
  | RpHealth cache_health cache_health "u64 option"
  | RpCoverageGap address u64
  | RpChainControl chain_control
  | RpError "input_ref option" string

record runtime_state =
  ru_journal :: "block_journal list"
  ru_coverage_head :: "block_ref option"
  ru_log_coverage_head :: "block_ref option"
  ru_pending_resyncs :: "resync_request list"
  ru_health :: cache_health
  ru_safe_head :: "block_ref option"
  ru_finalized_head :: "block_ref option"
  ru_freshness :: "freshness_registry option"
  ru_tracking :: "(address, tracking_policy) hashmap"
  ru_tracked_roots :: "(address, tracked_root) hashmap"
  ru_root_gate_cadence :: root_gate_cadence
  ru_last_gate_block :: "u64 option"
  ru_touched_since_gate :: "address hashset"
  ru_metrics :: cache_metrics

definition new_metrics :: cache_metrics where
  "new_metrics = \<lparr>mt_deep_reorgs = 0, mt_reorgs_recovered = 0, mt_resync_requests = 0, mt_resync_failures = 0,
     mt_missed_ranges = 0, mt_coverage_gaps = 0, mt_pending_contamination = 0, mt_stale_verdicts = 0\<rparr>"

definition every_n_blocks :: "u64 \<Rightarrow> root_gate_cadence" where
  "every_n_blocks n = EveryNBlocks (max n 1)"

definition new_runtime :: runtime_state where
  "new_runtime = \<lparr>ru_journal = [], ru_coverage_head = None, ru_log_coverage_head = None, ru_pending_resyncs = [],
     ru_health = Healthy, ru_safe_head = None, ru_finalized_head = None, ru_freshness = None, ru_tracking = [],
     ru_tracked_roots = [], ru_root_gate_cadence = every_n_blocks 16, ru_last_gate_block = None,
     ru_touched_since_gate = [], ru_metrics = new_metrics\<rparr>"

section \<open>Health\<close>

definition transition_health ::
  "cache_health \<Rightarrow> u64 option \<Rightarrow> runtime_state \<Rightarrow> reactive_report option \<times> runtime_state" where
  "transition_health to blk r =
     (if to = ru_health r then (None, r)
      else (Some (RpHealth (ru_health r) to blk), r\<lparr>ru_health := to\<rparr>))"

definition escalate_trust :: "u64 \<Rightarrow> runtime_state \<Rightarrow> reactive_report option \<times> runtime_state" where
  "escalate_trust blk r =
     (case ru_health r of
        Healthy \<Rightarrow> transition_health (Degraded blk) (Some blk) r
      | Degraded _ \<Rightarrow> transition_health (Unhealthy blk) (Some blk) r
      | Unhealthy _ \<Rightarrow> (None, r))"

definition reset_health :: "runtime_state \<Rightarrow> runtime_state" where
  "reset_health r = r\<lparr>ru_health := Healthy\<rparr>"

definition warn_under_recovery :: "u64 \<Rightarrow> runtime_state \<Rightarrow> reactive_report option \<times> runtime_state" where
  "warn_under_recovery n r =
     escalate_trust n (r\<lparr>ru_metrics := (ru_metrics r)\<lparr>mt_deep_reorgs := mt_deep_reorgs (ru_metrics r) + 1\<rparr>\<rparr>)"

section \<open>The journal\<close>

definition new_journal :: "block_ref \<Rightarrow> block_journal" where
  "new_journal b = \<lparr>bj_block = b, bj_inputs = [], bj_applied = [], bj_handler_ids = [], bj_resynced = [], bj_rollback_diffs = []\<rparr>"

text \<open>
  \<open>journal_entry_mut\<close> finds or appends the entry of a block and enriches it; the change the caller makes to
  it is \<open>f\<close>.
\<close>

fun modify_entry :: "block_ref \<Rightarrow> (block_journal \<Rightarrow> block_journal) \<Rightarrow> block_journal list \<Rightarrow> block_journal list" where
  "modify_entry b f [] = [f (new_journal b)]"
| "modify_entry b f (e # es) =
     (if same_block (bj_block e) b then f (e\<lparr>bj_block := enrich_block_ref (bj_block e) b\<rparr>) # es
      else e # modify_entry b f es)"

definition journal_entry_mut :: "block_ref \<Rightarrow> (block_journal \<Rightarrow> block_journal) \<Rightarrow> runtime_state \<Rightarrow> runtime_state" where
  "journal_entry_mut b f r = r\<lparr>ru_journal := modify_entry b f (ru_journal r)\<rparr>"

definition journal_block :: "block_ref \<Rightarrow> runtime_state \<Rightarrow> block_ref" where
  "journal_block b r =
     (case find (\<lambda>e. same_block (bj_block e) b) (ru_journal r) of
        Some e \<Rightarrow> enrich_block_ref (bj_block e) b
      | None \<Rightarrow> b)"

definition trim_journal :: "nat \<Rightarrow> runtime_state \<Rightarrow> runtime_state" where
  "trim_journal depth r =
     (if depth = 0 then r\<lparr>ru_journal := []\<rparr>
      else r\<lparr>ru_journal := drop (length (ru_journal r) - depth) (ru_journal r)\<rparr>)"

definition push_unique :: "'a \<Rightarrow> 'a list \<Rightarrow> 'a list" where
  "push_unique x xs = (if x \<in> set xs then xs else xs @ [x])"

definition record_journal_input :: "nat \<Rightarrow> block_ref \<Rightarrow> input_ref \<Rightarrow> runtime_state \<Rightarrow> runtime_state" where
  "record_journal_input depth b i r =
     (let r1 = r\<lparr>ru_coverage_head := advance_or_enrich_coverage (ru_coverage_head r) b\<rparr>;
          enriched = journal_block b r1;
          r2 = journal_entry_mut b (\<lambda>e. e\<lparr>bj_inputs := push_unique i (bj_inputs e)\<rparr>) r1;
          r3 = r2\<lparr>ru_coverage_head := advance_or_enrich_coverage (ru_coverage_head r2) enriched\<rparr>
      in trim_journal depth r3)"

definition journal_applied :: "applied_report \<Rightarrow> block_journal \<Rightarrow> block_journal" where
  "journal_applied a e =
     e\<lparr>bj_handler_ids := push_unique (ar_handler_id a) (bj_handler_ids e),
       bj_rollback_diffs := bj_rollback_diffs e @ [ar_diff a],
       bj_applied := bj_applied e @ [a]\<rparr>"

definition record_journal_applied :: "nat \<Rightarrow> block_ref \<Rightarrow> applied_report \<Rightarrow> runtime_state \<Rightarrow> runtime_state" where
  "record_journal_applied depth b a r = trim_journal depth (journal_entry_mut b (journal_applied a) r)"

fun modify_present :: "block_ref \<Rightarrow> (block_journal \<Rightarrow> block_journal) \<Rightarrow> block_journal list \<Rightarrow> block_journal list" where
  "modify_present b f [] = []"
| "modify_present b f (e # es) = (if same_block (bj_block e) b then f e # es else e # modify_present b f es)"

definition record_journal_applied_if_present :: "block_ref \<Rightarrow> applied_report \<Rightarrow> runtime_state \<Rightarrow> runtime_state" where
  "record_journal_applied_if_present b a r = r\<lparr>ru_journal := modify_present b (journal_applied a) (ru_journal r)\<rparr>"

definition single_hash_pinned_resync_block :: "resync_report \<Rightarrow> block_ref option" where
  "single_hash_pinned_resync_block rep =
     (case rp_requested rep of
        [] \<Rightarrow> None
      | q # qs \<Rightarrow>
          if \<not> list_all (\<lambda>q'. rq_block q' = rq_block q) (q # qs) then None
          else case rq_block q of
                 RbHash n h _ \<Rightarrow> Some \<lparr>br_number = n, br_hash = h, br_parent_hash = None, br_timestamp = None\<rparr>
               | _ \<Rightarrow> None)"

definition record_journal_resync :: "nat \<Rightarrow> resync_report \<Rightarrow> runtime_state \<Rightarrow> runtime_state" where
  "record_journal_resync depth rep r =
     (if diff_is_empty (rp_diff rep) then r
      else case single_hash_pinned_resync_block rep of
             None \<Rightarrow> r
           | Some b \<Rightarrow> trim_journal depth (journal_entry_mut b
               (\<lambda>e. e\<lparr>bj_rollback_diffs := bj_rollback_diffs e @ [rp_diff rep],
                      bj_resynced := bj_resynced e @ [rep]\<rparr>) r))"

definition drain_journal_from :: "nat \<Rightarrow> runtime_state \<Rightarrow> block_journal list \<times> runtime_state" where
  "drain_journal_from i r = (drop i (ru_journal r), r\<lparr>ru_journal := take i (ru_journal r)\<rparr>)"

definition drain_journal_after :: "nat \<Rightarrow> runtime_state \<Rightarrow> block_journal list \<times> runtime_state" where
  "drain_journal_after i r = drain_journal_from (i + 1) r"

fun find_position :: "('a \<Rightarrow> bool) \<Rightarrow> 'a list \<Rightarrow> nat option" where
  "find_position P [] = None"
| "find_position P (x # xs) = (if P x then Some 0 else map_option Suc (find_position P xs))"

definition find_rposition :: "('a \<Rightarrow> bool) \<Rightarrow> 'a list \<Rightarrow> nat option" where
  "find_rposition P xs = map_option (\<lambda>i. length xs - 1 - i) (find_position P (rev xs))"

definition drain_journal_from_number :: "u64 \<Rightarrow> runtime_state \<Rightarrow> block_journal list \<times> runtime_state" where
  "drain_journal_from_number n r =
     (case find_position (\<lambda>e. n \<le> br_number (bj_block e)) (ru_journal r) of
        None \<Rightarrow> ([], r)
      | Some i \<Rightarrow> drain_journal_from i r)"

section \<open>Recovery of dropped blocks\<close>

fun merged_purge_scope :: "purge_scope \<Rightarrow> purge_scope \<Rightarrow> purge_scope" where
  "merged_purge_scope (Slots l) (Slots r) = Slots (foldl (\<lambda>ss s. if s \<in> set ss then ss else ss @ [s]) l r)"
| "merged_purge_scope PurgeAccount _ = PurgeAccount"
| "merged_purge_scope _ PurgeAccount = PurgeAccount"
| "merged_purge_scope AllStorage _ = AllStorage"
| "merged_purge_scope _ AllStorage = AllStorage"

type_synonym purge_scopes = "(address \<times> purge_scope) list"

fun merge_purge_scope :: "purge_scopes \<Rightarrow> address \<Rightarrow> purge_scope \<Rightarrow> purge_scopes" where
  "merge_purge_scope [] a scope = [(a, scope)]"
| "merge_purge_scope ((b, existing) # scopes) a scope =
     (if b = a then (b, merged_purge_scope existing scope) # scopes
      else (b, existing) # merge_purge_scope scopes a scope)"

definition merge_purge_scopes_for_diff :: "state_diff \<Rightarrow> purge_scopes \<Rightarrow> purge_scopes" where
  "merge_purge_scopes_for_diff d scopes =
     foldl (\<lambda>ss p. merge_purge_scope ss (pr_address p) (pr_scope p))
       (foldl (\<lambda>ss ch. merge_purge_scope ss (ac_address ch) PurgeAccount) scopes (accounts d)) (purged d)"

text \<open>The diffs of dropped entries in the order the loops visit them, newest first.\<close>

definition diffs_newest_first :: "block_journal list \<Rightarrow> state_diff list" where
  "diffs_newest_first dropped = concat (map (\<lambda>e. rev (bj_rollback_diffs e)) (rev dropped))"

definition purge_scopes_for_dropped_journals :: "block_journal list \<Rightarrow> purge_scopes" where
  "purge_scopes_for_dropped_journals dropped = fold merge_purge_scopes_for_diff (diffs_newest_first dropped) []"

definition rollback_updates_for_diff :: "address list \<Rightarrow> state_diff \<Rightarrow> state_update list" where
  "rollback_updates_for_diff purge_addresses d =
     map (\<lambda>ch. Slot (sc_address ch) (sc_slot ch) (sc_old ch))
       (filter (\<lambda>ch. sc_address ch \<notin> set purge_addresses) (rev (slots d)))"

definition rollback_updates_for_dropped_journals :: "block_journal list \<Rightarrow> purge_scopes \<Rightarrow> state_update list" where
  "rollback_updates_for_dropped_journals dropped scopes =
     concat (map (rollback_updates_for_diff (map fst scopes)) (diffs_newest_first dropped))"

definition resync_request_targets_dropped_block :: "resync_request \<Rightarrow> block_ref list \<Rightarrow> bool" where
  "resync_request_targets_dropped_block q bs =
     (case rq_block q of
        RbHash n h _ \<Rightarrow> list_ex (\<lambda>b. br_hash b = h \<and> br_number b = n) bs
      | _ \<Rightarrow> False)"

definition cancel_resyncs_for_dropped_blocks :: "block_ref list \<Rightarrow> runtime_state \<Rightarrow> resync_request list \<times> runtime_state" where
  "cancel_resyncs_for_dropped_blocks bs r =
     (filter (\<lambda>q. resync_request_targets_dropped_block q bs) (ru_pending_resyncs r),
      r\<lparr>ru_pending_resyncs := filter (\<lambda>q. \<not> resync_request_targets_dropped_block q bs) (ru_pending_resyncs r)\<rparr>)"

definition max_option :: "u64 list \<Rightarrow> u64 option" where
  "max_option ns = (if ns = [] then None else Some (Max (set ns)))"

definition rebase_validation_state_from :: "u64 \<Rightarrow> runtime_state \<Rightarrow> runtime_state" where
  "rebase_validation_state_from first r =
     (let r1 = r\<lparr>ru_freshness := map_option (invalidate_valid_through_from first) (ru_freshness r)\<rparr>;
          r2 = r1\<lparr>ru_tracked_roots := filter (\<lambda>(_, base). tk_last_block base < first) (ru_tracked_roots r1)\<rparr>;
          r3 = (if (case ru_last_gate_block r2 of None \<Rightarrow> False | Some b \<Rightarrow> first \<le> b)
                then r2\<lparr>ru_last_gate_block := max_option (map (tk_last_block \<circ> snd) (ru_tracked_roots r2))\<rparr> else r2)
      in r3\<lparr>ru_touched_since_gate := []\<rparr>)"

definition apply_nonempty :: "revm_ext \<Rightarrow> state_update list \<Rightarrow> evm_cache \<Rightarrow> (state_diff \<times> evm_cache) option" where
  "apply_nonempty ext us c = (if us = [] then Some (empty_diff, c) else apply_updates ext us c)"

definition recover_dropped_journals ::
  "revm_ext \<Rightarrow> block_journal list \<Rightarrow> reorg_reason \<Rightarrow> runtime_state \<Rightarrow> evm_cache
     \<Rightarrow> (reorg_report option \<times> runtime_state \<times> evm_cache) option" where
  "recover_dropped_journals ext dropped reason r c =
     (if dropped = [] then Some (None, r, c)
      else
        (let first_dropped = Min (set (map (br_number \<circ> bj_block) dropped));
             r1 = rebase_validation_state_from first_dropped r;
             r2 = (if (case ru_safe_head r1 of None \<Rightarrow> False | Some h \<Rightarrow> first_dropped \<le> br_number h)
                   then r1\<lparr>ru_safe_head := None\<rparr> else r1);
             dropped_blocks = map bj_block dropped;
             dropped_inputs = concat (map bj_inputs dropped);
             (canceled, r3) = cancel_resyncs_for_dropped_blocks dropped_blocks r2;
             scopes = purge_scopes_for_dropped_journals dropped;
             rollback_updates = rollback_updates_for_dropped_journals dropped scopes;
             purge_updates = map (\<lambda>(a, scope). Purge a scope) scopes
         in Option.bind (apply_nonempty ext rollback_updates c) (\<lambda>(rollback_diff, c1).
            Option.bind (apply_nonempty ext purge_updates c1) (\<lambda>(purge_diff, c2).
            let r4 = r3\<lparr>ru_coverage_head :=
                  (if ru_journal r3 = [] then None else Some (bj_block (last (ru_journal r3))))\<rparr>
            in Some (Some \<lparr>rg_dropped = (case dropped_blocks of [] \<Rightarrow> None | b # _ \<Rightarrow> Some b),
                  rg_dropped_blocks = dropped_blocks, rg_dropped_inputs = dropped_inputs,
                  rg_rollback_updates = rollback_updates, rg_rollback_diff = rollback_diff,
                  rg_purge_updates = purge_updates, rg_purge_diff = purge_diff,
                  rg_canceled_resyncs = canceled, rg_reason = reason\<rparr>, r4, c2)))))"

end
