(* ===== verification/Reorg_Rollback.thy ===== *)
theory Reorg_Rollback
  imports Reactive_Runtime
begin

text \<open>
  Rolling back dropped blocks. Per slot, the diffs of the dropped blocks form a chain from the value before
  the first block to the current one, and applying the recorded old values newest first walks it back.
\<close>

section \<open>The chain of changes of a slot\<close>

fun chain :: "u256 \<Rightarrow> slot_change list \<Rightarrow> u256 \<Rightarrow> bool" where
  "chain x [] y = (x = y)"
| "chain x (ch # chs) y = (sc_old ch = x \<and> chain (sc_new ch) chs y)"

lemma chain_append [simp]: "chain x (xs @ ys) z \<longleftrightarrow> (\<exists>y. chain x xs y \<and> chain y ys z)"
  by (induction xs arbitrary: x) auto

definition changes_at :: "address \<Rightarrow> u256 \<Rightarrow> slot_change list \<Rightarrow> slot_change list" where
  "changes_at a s chs = filter (\<lambda>ch. sc_address ch = a \<and> sc_slot ch = s) chs"

lemma changes_at_simps [simp]:
  "changes_at a s [] = []" "changes_at a s (xs @ ys) = changes_at a s xs @ changes_at a s ys"
  "changes_at a s (rev xs) = rev (changes_at a s xs)"
  "changes_at a s (ch # xs) = (if sc_address ch = a \<and> sc_slot ch = s then ch # changes_at a s xs else changes_at a s xs)"
  by (simp_all add: changes_at_def rev_filter)

definition quiet :: "address \<Rightarrow> state_diff \<Rightarrow> bool" where
  "quiet a d \<longleftrightarrow> a \<notin> ac_address ` set (accounts d) \<and> a \<notin> pr_address ` set (purged d)"

lemma quiet_merge [simp]: "quiet a (diff_merge d e) \<longleftrightarrow> quiet a d \<and> quiet a e"
  by (auto simp: quiet_def)

definition slot_step :: "address \<Rightarrow> u256 \<Rightarrow> state_diff \<Rightarrow> evm_cache \<Rightarrow> evm_cache \<Rightarrow> bool" where
  "slot_step a s d c c' \<longleftrightarrow>
     chain (unwrap_or (cached_storage_value c a s) 0) (changes_at a s (slots d)) (unwrap_or (cached_storage_value c' a s) 0)
     \<and> (cached_storage_value c a s \<noteq> None \<longrightarrow> cached_storage_value c' a s \<noteq> None)"

lemma slot_step_same: "slots d = [] \<Longrightarrow> cached_storage_value c' a s = cached_storage_value c a s \<Longrightarrow> slot_step a s d c c'"
  by (simp add: slot_step_def)

lemma slot_step_trans: "slot_step a s d c c1 \<Longrightarrow> slot_step a s e c1 c2 \<Longrightarrow> slot_step a s (diff_merge d e) c c2"
  by (auto simp: slot_step_def)

lemma cached_write_info_other:
  "revm_ok ext \<Longrightarrow> b \<noteq> a \<Longrightarrow>
   cached_storage_value (write_account_info_through ext b i c) a = cached_storage_value c a"
  by (auto simp: write_account_info_through_def Let_def cached_storage_value_eq read_slot_account_state_aware_def fun_eq_iff insert_account_info_other
      split: option.splits)

lemma account_change_address:
  "fst (apply_account_patch ext b p up c) = Inr (Some ch) \<Longrightarrow> ac_address ch = b"
  by (auto simp: apply_account_patch_def Let_def info_change_def split: option.splits if_splits)

lemma account_patch_at:
  assumes "revm_ok ext" and "apply_account_patch ext b p up c = (Inr ch, c')" and "quiet a (account_diff ch)"
  shows "cached_storage_value c' a = cached_storage_value c a"
proof (cases ch)
  case None
  with assms(2) show ?thesis by (auto simp: apply_account_patch_def Let_def split: option.splits if_splits)
next
  case (Some x)
  then have "ac_address x = b" using account_change_address [of ext b p up c x] assms(2) by simp
  with assms(3) Some have "a \<noteq> b" by (simp add: quiet_def account_diff_def empty_diff_def)
  with assms(1,2) Some show ?thesis
    by (auto simp: apply_account_patch_def Let_def cached_write_info_other split: option.splits if_splits)
qed

lemma account_patch_skip: "apply_account_patch ext b p up c = (Inl sk, c') \<Longrightarrow> c' = c"
  by (auto simp: apply_account_patch_def Let_def split: option.splits if_splits)

lemma purge_other:
  "b \<noteq> a \<Longrightarrow> cached_storage_value (snd (apply_purge b scope c)) a = cached_storage_value c a"
proof -
  assume "b \<noteq> a"
  have "cached_storage_value (snd (apply_purge b scope c)) = fst (spec_update (Purge b scope) (storage_view c))"
    using storage_view_purge [of b scope c] by (metis fst_storage_view)
  with \<open>b \<noteq> a\<close> show ?thesis by (cases scope) auto
qed

lemma apply_purge_record: "pr_address (fst (apply_purge b scope c)) = b" "pr_scope (fst (apply_purge b scope c)) = scope"
  by (cases scope; simp add: apply_purge_def split: prod.splits)+

lemma slots_then_some [simp]: "slots (slot_diff (then_some b x)) = (if b then [x] else [])"
  by (simp add: then_some_def)

lemma write_hot_at:
  assumes "cached_storage_value c b t = Some old" and "write_hot_slot b t old new c = (d, c')"
  shows "slot_step a s d c c'"
  using assms by (auto simp: slot_step_def write_hot_slot_def cache_store.read_write)

lemma apply_update_arm_at:
  assumes ext: "revm_ok ext" and arm: "apply_update_arm ext u c = Some (d, c')" and q: "quiet a d"
  shows "slot_step a s d c c'"
proof (cases u)
  case (Slot b t v)
  with arm show ?thesis
    by (auto simp: slot_step_def apply_slot_def Let_def cache_store.read_write)
next
  case (SlotDelta b t dl)
  with arm show ?thesis
    by (auto split: option.splits intro: write_hot_at slot_step_same)
next
  case (SlotMasked b t m v)
  with arm show ?thesis
    by (auto split: option.splits intro: write_hot_at slot_step_same)
next
  case (BalanceDelta b dl)
  with arm show ?thesis
    using storage_view_balance_delta [OF ext, of b dl c]
    by (auto split: prod.splits sum.splits intro!: slot_step_same dest!: arg_cong [where f = fst])
next
  case (Account b p)
  with arm q show ?thesis
    by (auto split: prod.splits sum.splits intro!: slot_step_same dest: account_patch_skip account_patch_at [OF ext])
next
  case (AccountUpsert b p)
  with arm q show ?thesis
    by (auto split: prod.splits sum.splits intro!: slot_step_same dest: account_patch_at [OF ext])
next
  case (Purge b scope)
  with arm have d: "d = empty_diff\<lparr>purged := [fst (apply_purge b scope c)]\<rparr>" and c': "c' = snd (apply_purge b scope c)"
    by (auto split: prod.splits)
  with q have "b \<noteq> a" by (auto simp: quiet_def apply_purge_record)
  then show ?thesis by (simp add: d c' slot_step_same purge_other)
qed

lemma apply_each_at:
  assumes ext: "revm_ok ext" and "apply_each ext us d0 c = Some (d, c')"
  shows "\<exists>e. d = diff_merge d0 e \<and> (quiet a e \<longrightarrow> slot_step a s e c c')"
  using assms(2)
proof (induction us arbitrary: d0 c)
  case Nil
  then show ?case by (intro exI [of _ empty_diff]) (simp add: slot_step_same)
next
  case (Cons u us)
  then obtain d1 c1 where u: "apply_update ext u c = Some (d1, c1)" and us: "apply_each ext us (diff_merge d0 d1) c1 = Some (d, c')"
    by (auto split: bind_splits)
  from Cons.IH [OF us] obtain e where e: "d = diff_merge (diff_merge d0 d1) e" "quiet a e \<longrightarrow> slot_step a s e c1 c'" by blast
  have "quiet a d1 \<longrightarrow> slot_step a s d1 (bump_snapshot_generation c) c1"
    using apply_update_arm_at [OF ext] u by (simp add: apply_update_def)
  then have "quiet a d1 \<longrightarrow> slot_step a s d1 c c1" by (simp add: slot_step_def)
  with e show ?case
    by (intro exI [of _ "diff_merge d1 e"]) (auto simp: diff_merge_assoc intro: slot_step_trans)
qed

lemma apply_updates_at:
  assumes "revm_ok ext" and "apply_updates ext us c = Some (d, c')" and "quiet a d"
  shows "slot_step a s d c c'"
proof -
  obtain c'' where each: "apply_each ext us empty_diff c = Some (d, c'')" and gen: "set_gen 0 c'' = set_gen 0 c'"
    by (rule apply_updates_as_each [OF assms(2)])
  have "cached_storage_value c'' = cached_storage_value c'" using storage_view_gen_eq [OF gen] by (metis fst_storage_view)
  with apply_each_at [OF assms(1) each, of a s] assms(3) show ?thesis by (auto simp: slot_step_def)
qed

section \<open>Purge scopes\<close>

text \<open>Does a scope purge slot \<open>s\<close>?\<close>

fun scope_covers :: "purge_scope \<Rightarrow> u256 \<Rightarrow> bool" where
  "scope_covers (Slots ss) s = (s \<in> set ss)"
| "scope_covers _ s = True"

lemma set_push_all: "set (foldl (\<lambda>ss s. if s \<in> set ss then ss else ss @ [s]) l r) = set l \<union> set r"
  by (induction r arbitrary: l) auto

lemma merged_covers: "scope_covers (merged_purge_scope l r) s \<longleftrightarrow> scope_covers l s \<or> scope_covers r s"
  by (cases "(l, r)" rule: merged_purge_scope.cases) (auto simp: set_push_all)

lemma merged_account: "merged_purge_scope l r = PurgeAccount \<longleftrightarrow> l = PurgeAccount \<or> r = PurgeAccount"
  by (cases "(l, r)" rule: merged_purge_scope.cases) auto

lemma merge_purge_scope_get:
  "map_of (merge_purge_scope scopes a scope) b =
     (if b = a then Some (case map_of scopes a of None \<Rightarrow> scope | Some e \<Rightarrow> merged_purge_scope e scope) else map_of scopes b)"
  by (induction scopes a scope rule: merge_purge_scope.induct) auto

lemma merge_purge_scope_keys:
  "fst ` set (merge_purge_scope scopes a scope) = insert a (fst ` set scopes)"
  "distinct (map fst scopes) \<Longrightarrow> distinct (map fst (merge_purge_scope scopes a scope))"
  by (induction scopes a scope rule: merge_purge_scope.induct) auto

text \<open>What purges a diff asks for.\<close>

definition asked :: "state_diff \<Rightarrow> (address \<times> purge_scope) list" where
  "asked d = map (\<lambda>ch. (ac_address ch, PurgeAccount)) (accounts d) @ map (\<lambda>p. (pr_address p, pr_scope p)) (purged d)"

lemma merge_for_diff: "merge_purge_scopes_for_diff d scopes = foldl (\<lambda>ss (a, sc). merge_purge_scope ss a sc) scopes (asked d)"
  by (simp add: merge_purge_scopes_for_diff_def asked_def foldl_map)

lemma foldl_scopes:
  fixes scopes :: purge_scopes
  defines "res ps \<equiv> foldl (\<lambda>ss (a, sc). merge_purge_scope ss a sc) scopes ps"
  assumes "distinct (map fst scopes)"
  shows "distinct (map fst (res ps)) \<and> fst ` set (res ps) = fst ` set ps \<union> fst ` set scopes
    \<and> (\<forall>a sc. (a, sc) \<in> set ps \<union> set scopes \<longrightarrow> (\<exists>sc'. map_of (res ps) a = Some sc'
        \<and> (\<forall>s. scope_covers sc s \<longrightarrow> scope_covers sc' s) \<and> (sc = PurgeAccount \<longrightarrow> sc' = PurgeAccount)))"
  unfolding res_def using assms(2)
proof (induction ps rule: rev_induct)
  case Nil
  then show ?case by (auto simp: map_of_eq_Some_iff)
next
  case (snoc p ps)
  obtain a sc where p: "p = (a, sc)" by (cases p)
  let ?r = "foldl (\<lambda>ss (a, sc). merge_purge_scope ss a sc) scopes ps"
  have ih: "distinct (map fst ?r)" "fst ` set ?r = fst ` set ps \<union> fst ` set scopes"
    and old: "\<And>b sb. (b, sb) \<in> set ps \<union> set scopes \<Longrightarrow> \<exists>sc'. map_of ?r b = Some sc'
        \<and> (\<forall>s. scope_covers sb s \<longrightarrow> scope_covers sc' s) \<and> (sb = PurgeAccount \<longrightarrow> sc' = PurgeAccount)"
    using snoc by auto
  have new: "\<exists>sc'. map_of (merge_purge_scope ?r a sc) b = Some sc'
      \<and> (\<forall>s. scope_covers sb s \<longrightarrow> scope_covers sc' s) \<and> (sb = PurgeAccount \<longrightarrow> sc' = PurgeAccount)"
    if "(b, sb) \<in> set (ps @ [p]) \<union> set scopes" for b sb
  proof (cases "(b, sb) = p")
    case True
    then show ?thesis
      by (auto simp: p merge_purge_scope_get merged_covers merged_account split: option.splits)
  next
    case False
    with that old [of b sb] obtain sc' where "map_of ?r b = Some sc'"
      "\<forall>s. scope_covers sb s \<longrightarrow> scope_covers sc' s" "sb = PurgeAccount \<longrightarrow> sc' = PurgeAccount" by auto
    then show ?thesis by (auto simp: merge_purge_scope_get merged_covers merged_account)
  qed
  with ih show ?case
    by (auto simp: p merge_purge_scope_keys)
qed

lemma scopes_as_foldl:
  "fold merge_purge_scopes_for_diff ds scopes = foldl (\<lambda>ss (a, sc). merge_purge_scope ss a sc) scopes (concat (map asked ds))"
  by (induction ds arbitrary: scopes) (simp_all add: merge_for_diff)

lemma set_newest_first: "set (diffs_newest_first dropped) = set (concat (map bj_rollback_diffs dropped))"
  by (auto simp: diffs_newest_first_def)

lemma scopes_for_dropped:
  fixes dropped
  defines "scopes \<equiv> purge_scopes_for_dropped_journals dropped" and "ds \<equiv> concat (map bj_rollback_diffs dropped)"
  shows "distinct (map fst scopes)"
    and "a \<notin> fst ` set scopes \<longleftrightarrow> (\<forall>d \<in> set ds. quiet a d)"
    and "d \<in> set ds \<Longrightarrow> (a, sc) \<in> set (asked d) \<Longrightarrow> \<exists>sc'. map_of scopes a = Some sc'
        \<and> (\<forall>s. scope_covers sc s \<longrightarrow> scope_covers sc' s) \<and> (sc = PurgeAccount \<longrightarrow> sc' = PurgeAccount)"
proof -
  let ?ps = "concat (map asked (diffs_newest_first dropped))"
  have s: "scopes = foldl (\<lambda>ss (a, sc). merge_purge_scope ss a sc) [] ?ps"
    by (simp add: scopes_def purge_scopes_for_dropped_journals_def scopes_as_foldl)
  have "distinct (map fst ([] :: purge_scopes))" by simp
  note f = foldl_scopes [OF this, of ?ps, folded s]
  have spec: "distinct (map fst scopes) \<and> fst ` set scopes = fst ` set ?ps
    \<and> (\<forall>a sc. (a, sc) \<in> set ?ps \<longrightarrow> (\<exists>sc'. map_of scopes a = Some sc'
        \<and> (\<forall>s. scope_covers sc s \<longrightarrow> scope_covers sc' s) \<and> (sc = PurgeAccount \<longrightarrow> sc' = PurgeAccount)))"
    using f unfolding list.set image_empty Un_empty_right .
  then show "distinct (map fst scopes)" by simp
  have "quiet a d \<longleftrightarrow> a \<notin> fst ` set (asked d)" for d
    by (simp add: quiet_def asked_def image_Un image_image)
  moreover have "a \<in> fst ` set (concat (map asked ds')) \<longleftrightarrow> (\<exists>d \<in> set ds'. a \<in> fst ` set (asked d))" for ds'
    by (induction ds') auto
  ultimately show "a \<notin> fst ` set scopes \<longleftrightarrow> (\<forall>d \<in> set ds. quiet a d)"
    using spec by (simp add: set_newest_first ds_def del: set_concat)
  show "\<exists>sc'. map_of scopes a = Some sc'
        \<and> (\<forall>s. scope_covers sc s \<longrightarrow> scope_covers sc' s) \<and> (sc = PurgeAccount \<longrightarrow> sc' = PurgeAccount)"
    if "d \<in> set ds" "(a, sc) \<in> set (asked d)"
  proof -
    have "(a, sc) \<in> set ?ps" using that by (auto simp: set_newest_first ds_def)
    with spec show ?thesis by blast
  qed
qed

section \<open>Rolling back\<close>

lemma newest_first_rev: "diffs_newest_first dropped = rev (concat (map bj_rollback_diffs dropped))"
  by (simp add: diffs_newest_first_def rev_concat rev_map comp_def)

lemma rollback_updates_at:
  assumes "a \<notin> set as"
  shows "written_value a s (concat (map (rollback_updates_for_diff as) (rev ds))) =
    (case changes_at a s (concat (map slots ds)) of [] \<Rightarrow> None | ch # _ \<Rightarrow> Some (sc_old ch))"
proof -
  have app: "written_value a s (us @ vs) = (case written_value a s vs of Some v \<Rightarrow> Some v | None \<Rightarrow> written_value a s us)" for us vs
    by (induction a s us rule: written_value.induct) (auto split: option.splits)
  have one: "written_value a s (map (\<lambda>ch. Slot (sc_address ch) (sc_slot ch) (sc_old ch)) (filter (\<lambda>ch. sc_address ch \<notin> set as) (rev chs)))
      = (case changes_at a s chs of [] \<Rightarrow> None | ch # _ \<Rightarrow> Some (sc_old ch))" for chs
    using assms by (induction chs) (auto simp: app split: list.splits option.splits)
  have "concat (map (rollback_updates_for_diff as) (rev ds)) =
      map (\<lambda>ch. Slot (sc_address ch) (sc_slot ch) (sc_old ch)) (filter (\<lambda>ch. sc_address ch \<notin> set as) (rev (concat (map slots ds))))"
    by (induction ds) (simp_all add: rollback_updates_for_diff_def)
  with one [of "concat (map slots ds)"] show ?thesis by simp
qed

lemma rollback_slot_writes: "list_all is_slot_write (concat (map (rollback_updates_for_diff as) ds))"
  by (auto simp: list_all_iff rollback_updates_for_diff_def)

lemma apply_nonempty_view:
  assumes "revm_ok ext" and "list_all (\<lambda>u. \<not> is_upsert u) us" and "apply_nonempty ext us c = Some (d, c')"
  shows "storage_view c' = fold spec_update us (storage_view c)"
  using assms apply_updates_view [OF assms(1,2)] by (auto simp: apply_nonempty_def split: if_splits)

lemma fold_purges:
  assumes "distinct (map fst scopes)"
  shows "fst (fold spec_update (map (\<lambda>(a, sc). Purge a sc) scopes) w) a =
    (case map_of scopes a of None \<Rightarrow> fst w a | Some sc \<Rightarrow> fst (spec_update (Purge a sc) w) a)"
  using assms
proof (induction scopes arbitrary: w)
  case (Cons p scopes)
  obtain b sc where p: "p = (b, sc)" by (cases p)
  have other: "fst (spec_update (Purge b sc) w) a = fst w a" "snd (spec_update (Purge b sc) w) a = snd w a" if "a \<noteq> b"
    using that by (cases sc; simp)+
  have spec: "fst (spec_update (Purge a sc') (spec_update (Purge b sc) w)) a = fst (spec_update (Purge a sc') w) a" if "a \<noteq> b" for sc'
    using other [OF that] by (cases sc') (simp_all add: view_missing_def fun_eq_iff)
  have "map_of scopes b = None" using Cons.prems by (simp add: p map_of_eq_None_iff)
  with Cons other spec show ?case
    by (cases "a = b") (auto simp: p split: option.splits simp del: spec_update.simps)
qed simp

lemma purged_reads:
  assumes "scope_covers sc s"
  shows "fst (spec_update (Purge a sc) w) a s \<in> {None, Some 0}"
    and "sc = PurgeAccount \<Longrightarrow> fst (spec_update (Purge a sc) w) a s = None"
  using assms by (cases sc; simp add: view_missing_def)+

section \<open>Recovery of dropped blocks\<close>

text \<open>
  A run of the cache over the blocks that are dropped later: batches of updates, whose diffs the journal
  records, and anything in between that leaves the cached slots as they are (reads that load cold slots).
\<close>

inductive dropped_run :: "revm_ext \<Rightarrow> evm_cache \<Rightarrow> state_diff list \<Rightarrow> evm_cache \<Rightarrow> bool" for ext c0 where
  run_start: "dropped_run ext c0 [] c0"
| run_apply: "dropped_run ext c0 ds c \<Longrightarrow> apply_updates ext us c = Some (d, c') \<Longrightarrow> dropped_run ext c0 (ds @ [d]) c'"
| run_load: "dropped_run ext c0 ds c \<Longrightarrow>
    (\<And>a s v. cached_storage_value c a s = Some v \<Longrightarrow> cached_storage_value c' a s = Some v) \<Longrightarrow> dropped_run ext c0 ds c'"

lemma run_chain:
  assumes "revm_ok ext" and "dropped_run ext c0 ds c" and "cached_storage_value c0 a s = Some v" and "\<forall>d \<in> set ds. quiet a d"
  shows "\<exists>w. cached_storage_value c a s = Some w \<and> chain v (changes_at a s (concat (map slots ds))) w"
  using assms(2,4)
proof (induction rule: dropped_run.induct)
  case run_start
  with assms(3) show ?case by simp
next
  case (run_apply ds c us d c')
  then obtain w where w: "cached_storage_value c a s = Some w" "chain v (changes_at a s (concat (map slots ds))) w" by auto
  have "slot_step a s d c c'" using run_apply by (intro apply_updates_at [OF assms(1)]) auto
  with w show ?case by (auto simp: slot_step_def)
next
  case (run_load ds c c')
  then show ?case by blast
qed

lemma recovered_reads:
  assumes ext: "revm_ok ext" and ne: "dropped \<noteq> []" and rec: "recover_dropped_journals ext dropped reason r c = Some (rep, r', c')"
  shows "cached_storage_value c' a = (let scopes = purge_scopes_for_dropped_journals dropped;
      w = fold spec_update (rollback_updates_for_dropped_journals dropped scopes) (storage_view c)
    in case map_of scopes a of None \<Rightarrow> fst w a | Some sc \<Rightarrow> fst (spec_update (Purge a sc) w) a)"
proof -
  let ?scopes = "purge_scopes_for_dropped_journals dropped"
  let ?us = "rollback_updates_for_dropped_journals dropped ?scopes" and ?ps = "map (\<lambda>(a, sc). Purge a sc) ?scopes"
  from rec ne obtain d1 c1 d2 where a1: "apply_nonempty ext ?us c = Some (d1, c1)" and a2: "apply_nonempty ext ?ps c1 = Some (d2, c')"
    by (auto simp: recover_dropped_journals_def Let_def split: prod.splits bind_splits)
  have u: "list_all (\<lambda>u. \<not> is_upsert u) ?us" unfolding rollback_updates_for_dropped_journals_def
    by (rule slot_write_not_upsert [OF rollback_slot_writes])
  have p: "list_all (\<lambda>u. \<not> is_upsert u) ?ps" by (auto simp: list_all_iff)
  have "storage_view c' = fold spec_update ?ps (fold spec_update ?us (storage_view c))"
    using apply_nonempty_view [OF ext u a1] apply_nonempty_view [OF ext p a2] by simp
  then have "cached_storage_value c' = fst (fold spec_update ?ps (fold spec_update ?us (storage_view c)))"
    by (metis fst_storage_view)
  then show ?thesis by (simp only: fold_purges [OF scopes_for_dropped(1)] Let_def)
qed

lemma recover_is_Some: "dropped \<noteq> [] \<Longrightarrow>
  \<exists>rep r' c'. recover_dropped_journals ext dropped reason r c = Some (Some rep, r', c') \<and> rg_dropped_blocks rep = map bj_block dropped"
proof -
  let ?scopes = "purge_scopes_for_dropped_journals dropped"
  have some: "\<exists>d c'. apply_nonempty ext us x = Some (d, c')" for us x
    using apply_updates_is_Some by (simp add: apply_nonempty_def)
  obtain d1 c1 where 1: "apply_nonempty ext (rollback_updates_for_dropped_journals dropped ?scopes) c = Some (d1, c1)" using some by blast
  obtain d2 c2 where 2: "apply_nonempty ext (map (\<lambda>(a, sc). Purge a sc) ?scopes) c1 = Some (d2, c2)" using some by blast
  assume "dropped \<noteq> []"
  then show ?thesis
    by (simp add: recover_dropped_journals_def Let_def cancel_resyncs_for_dropped_blocks_def 1 2)
qed

lemma rollback_value:
  assumes ext: "revm_ok ext" and run: "dropped_run ext c0 (concat (map bj_rollback_diffs dropped)) c"
    and q: "\<forall>d \<in> set (concat (map bj_rollback_diffs dropped)). quiet a d" and v: "cached_storage_value c0 a s = Some v"
    and scopes: "scopes = purge_scopes_for_dropped_journals dropped"
  shows "fst (fold spec_update (rollback_updates_for_dropped_journals dropped scopes) (storage_view c)) a s = Some v"
proof -
  let ?ds = "concat (map bj_rollback_diffs dropped)"
  have "a \<notin> set (map fst scopes)" using scopes_for_dropped(2) [of a dropped] q by (simp add: scopes)
  then have w: "written_value a s (rollback_updates_for_dropped_journals dropped scopes) =
      (case changes_at a s (concat (map slots ?ds)) of [] \<Rightarrow> None | ch # _ \<Rightarrow> Some (sc_old ch))"
    unfolding rollback_updates_for_dropped_journals_def newest_first_rev by (rule rollback_updates_at)
  obtain y where y: "cached_storage_value c a s = Some y" "chain v (changes_at a s (concat (map slots ?ds))) y"
    using run_chain [OF ext run v q] by blast
  have "list_all is_slot_write (rollback_updates_for_dropped_journals dropped scopes)"
    by (simp only: rollback_updates_for_dropped_journals_def rollback_slot_writes)
  then show ?thesis
    using y by (cases "changes_at a s (concat (map slots ?ds))") (simp_all add: fold_slot_writes w)
qed

lemma purge_on_recovery:
  assumes ext: "revm_ok ext" and ne: "dropped \<noteq> []" and rec: "recover_dropped_journals ext dropped reason r c = Some (rep, r', c')"
    and d: "d \<in> set (concat (map bj_rollback_diffs dropped))" "(a, sc) \<in> set (asked d)" and covers: "scope_covers sc s"
  shows "cached_storage_value c' a s \<in> {None, Some 0}" and "sc = PurgeAccount \<Longrightarrow> cached_storage_value c' a s = None"
proof -
  obtain sc' where "map_of (purge_scopes_for_dropped_journals dropped) a = Some sc'" "scope_covers sc' s"
    "sc = PurgeAccount \<longrightarrow> sc' = PurgeAccount"
    using scopes_for_dropped(3) [OF d] covers by blast
  then show "cached_storage_value c' a s \<in> {None, Some 0}" "sc = PurgeAccount \<Longrightarrow> cached_storage_value c' a s = None"
    using recovered_reads [OF ext ne rec, of a] purged_reads by (simp_all add: Let_def del: spec_update.simps)
qed

text \<open>
  \<^bold>\<open>C3.\<close> Recovery from a reorg always completes, and undoes the dropped blocks. Let the cache have gone
  from \<open>c0\<close> to \<open>c\<close> while the dropped blocks were applied. Afterwards every slot cached in \<open>c0\<close>, of an account
  whose fields no dropped block changed and which none purged, reads its value of \<open>c0\<close> again, however often
  it was written; an account a dropped block changed has no cached storage left; and what a dropped block
  purged is not served from the orphaned branch: it reads as absent, or as the zero of an account known to
  be empty.
\<close>

theorem reorg_rollback_restores:
  assumes "revm_ok ext" and "dropped \<noteq> []" and "dropped_run ext c0 (concat (map bj_rollback_diffs dropped)) c"
  shows "\<exists>rep r' c'. recover_dropped_journals ext dropped reason r c = Some (Some rep, r', c')
    \<and> rg_dropped_blocks rep = map bj_block dropped
    \<and> (\<forall>a s v. (\<forall>d \<in> set (concat (map bj_rollback_diffs dropped)). quiet a d) \<longrightarrow> cached_storage_value c0 a s = Some v
        \<longrightarrow> cached_storage_value c' a s = Some v)
    \<and> (\<forall>d \<in> set (concat (map bj_rollback_diffs dropped)).
        (\<forall>ch \<in> set (accounts d). \<forall>s. cached_storage_value c' (ac_address ch) s = None)
        \<and> (\<forall>p \<in> set (purged d). \<forall>s. scope_covers (pr_scope p) s \<longrightarrow> cached_storage_value c' (pr_address p) s \<in> {None, Some 0}))"
proof -
  obtain rep r' c' where rec: "recover_dropped_journals ext dropped reason r c = Some (Some rep, r', c')"
    and blocks: "rg_dropped_blocks rep = map bj_block dropped" using recover_is_Some [OF assms(2)] by blast
  have "cached_storage_value c' a s = Some v"
    if "\<forall>d \<in> set (concat (map bj_rollback_diffs dropped)). quiet a d" "cached_storage_value c0 a s = Some v" for a s v
    using recovered_reads [OF assms(1,2) rec, of a] rollback_value [OF assms(1,3) that refl] scopes_for_dropped(2) [of a dropped] that(1)
    by (simp add: Let_def map_of_eq_None_iff [THEN iffD2])
  moreover have "cached_storage_value c' (ac_address ch) s = None"
    if "d \<in> set (concat (map bj_rollback_diffs dropped))" "ch \<in> set (accounts d)" for d ch s
    using that by (intro purge_on_recovery(2) [OF assms(1,2) rec that(1)]) (auto simp: asked_def)
  moreover have "cached_storage_value c' (pr_address p) s \<in> {None, Some 0}"
    if "d \<in> set (concat (map bj_rollback_diffs dropped))" "p \<in> set (purged d)" "scope_covers (pr_scope p) s" for d p s
    using that by (intro purge_on_recovery(1) [OF assms(1,2) rec that(1)]) (auto simp: asked_def)
  ultimately show ?thesis using rec blocks by blast
qed

section \<open>Examples\<close>

text \<open>The sample cache holds 100 in slot 5 of account 1. One block applies \<open>us\<close>, then is dropped.\<close>

definition demo_block :: block_ref where
  "demo_block = \<lparr>br_number = 9, br_hash = 77, br_parent_hash = None, br_timestamp = None\<rparr>"

definition drop_after :: "state_update list \<Rightarrow> evm_cache option" where
  "drop_after us = Option.bind (apply_updates sample_ext us sample_cache) (\<lambda>(d, c).
     map_option (\<lambda>(_, _, c'). c')
       (recover_dropped_journals sample_ext [(new_journal demo_block)\<lparr>bj_rollback_diffs := [d]\<rparr>] ReorgedInput new_runtime c))"

theorem reorg_rollback_restores_witness:
  "cached_storage_value sample_cache 1 5 = Some 100
   \<and> (\<exists>c'. drop_after [Slot 1 5 7, SlotDelta 1 5 (Add 3)] = Some c' \<and> cached_storage_value c' 1 5 = Some 100)"
proof -
  obtain d c where d: "apply_updates sample_ext [Slot 1 5 7, SlotDelta 1 5 (Add 3)] sample_cache = Some (d, c)"
    using apply_updates_is_Some by blast
  let ?j = "[(new_journal demo_block)\<lparr>bj_rollback_diffs := [d]\<rparr>]"
  have "map_option fst (apply_updates sample_ext [Slot 1 5 7, SlotDelta 1 5 (Add 3)] sample_cache) =
      Some (empty_diff\<lparr>slots := [\<lparr>sc_address = 1, sc_slot = 5, sc_old = 100, sc_new = 7\<rparr>, \<lparr>sc_address = 1, sc_slot = 5, sc_old = 7, sc_new = 10\<rparr>]\<rparr>)"
    by code_simp
  with d have q: "\<forall>e \<in> set (concat (map bj_rollback_diffs ?j)). quiet 1 e" by (simp add: quiet_def empty_diff_def)
  have "dropped_run sample_ext sample_cache ([] @ [d]) c" by (rule run_apply [OF run_start d])
  then have run: "dropped_run sample_ext sample_cache (concat (map bj_rollback_diffs ?j)) c" by simp
  have v: "cached_storage_value sample_cache 1 5 = Some 100" by code_simp
  obtain rep r' c' where "recover_dropped_journals sample_ext ?j ReorgedInput new_runtime c = Some (Some rep, r', c')"
    and "cached_storage_value c' 1 5 = Some 100"
    using reorg_rollback_restores [OF sample_ext_ok _ run, of ReorgedInput new_runtime] q v by blast
  with d v show ?thesis by (simp add: drop_after_def)
qed

text \<open>
  Two limits of the rollback. A dropped block that purged one slot of an account and wrote another leaves the
  written value behind: the account counts as purged, so its old values are not restored, but only the one slot
  is purged. And a slot that was not cached before the dropped block wrote it comes back as a cached zero,
  since the recorded old value of an absent slot is zero; the chain's value was never known.
\<close>

lemma rollback_skips_partly_purged_accounts:
  "map_option (\<lambda>c. cached_storage_value c 1 5) (drop_after [Purge 1 (Slots [6]), Slot 1 5 9]) = Some (Some 9)"
  "map_option (\<lambda>c. cached_storage_value c 1 5) (drop_after [Slot 1 5 9]) = Some (Some 100)"
  by code_simp+

lemma rollback_of_cold_slot_caches_zero:
  "cached_storage_value sample_cache 1 6 = None"
  "map_option (\<lambda>c. cached_storage_value c 1 6) (drop_after [Slot 1 6 9]) = Some (Some 0)"
  by code_simp+

end
