(* ===== verification/Reactive_Recovery.thy ===== *)
theory Reactive_Recovery
  imports Reactive_Runtime
begin

text \<open>
  How the runtime reacts to signals of a reorganised chain (\<^verbatim>\<open>src/reactive/mod.rs\<close>): canonical records that do
  not extend the coverage head, removed or reorged records, and chain controls. An operation returns the
  reports it emits with the new runtime and cache state; \<open>None\<close> is the arm of \<open>apply_updates\<close> that never occurs.
\<close>

section \<open>Blocks dropped by the current batch\<close>

record batch_dropped =
  bd_identities :: "(u64 \<times> b256) hashset"
  bd_implicit_spans :: "(u64 \<times> u64) list"

definition no_dropped :: batch_dropped where
  "no_dropped = \<lparr>bd_identities = [], bd_implicit_spans = []\<rparr>"

definition block_key :: "block_ref \<Rightarrow> u64 \<times> b256" where
  "block_key b = (br_number b, br_hash b)"

definition covers_implicit_number :: "batch_dropped \<Rightarrow> u64 \<Rightarrow> bool" where
  "covers_implicit_number bd n = list_ex (\<lambda>(from, through). from \<le> n \<and> n \<le> through) (bd_implicit_spans bd)"

definition bd_contains :: "batch_dropped \<Rightarrow> block_ref \<Rightarrow> bool" where
  "bd_contains bd b \<longleftrightarrow> block_key b \<in> set (bd_identities bd)"

definition record_identity :: "block_ref \<Rightarrow> batch_dropped \<Rightarrow> batch_dropped" where
  "record_identity b bd = bd\<lparr>bd_identities := List.insert (block_key b) (bd_identities bd)\<rparr>"

definition record_explicit :: "block_ref \<Rightarrow> block_ref \<Rightarrow> batch_dropped \<Rightarrow> batch_dropped" where
  "record_explicit common_ancestor old_tip bd = record_identity old_tip bd"

definition record_drained :: "block_ref list \<Rightarrow> batch_dropped \<Rightarrow> batch_dropped" where
  "record_drained bs bd =
     (if bs = [] then bd
      else bd\<lparr>bd_implicit_spans := bd_implicit_spans bd @ [(Min (br_number ` set bs), Max (br_number ` set bs))],
              bd_identities := hs_extend (bd_identities bd) (map block_key bs)\<rparr>)"

section \<open>Shared parts\<close>

primrec option_to_list :: "'a option \<Rightarrow> 'a list" where
  "option_to_list None = []"
| "option_to_list (Some x) = [x]"

definition bare_reorg_report :: "block_ref \<Rightarrow> block_ref list \<Rightarrow> resync_request list \<Rightarrow> reorg_reason \<Rightarrow> reorg_report" where
  "bare_reorg_report b bs canceled reason =
     \<lparr>rg_dropped = Some b, rg_dropped_blocks = bs, rg_dropped_inputs = [], rg_rollback_updates = [],
      rg_rollback_diff = empty_diff, rg_purge_updates = [], rg_purge_diff = empty_diff,
      rg_canceled_resyncs = canceled, rg_reason = reason\<rparr>"

text \<open>Without journal entries to recover, only the resyncs pinned to the old tip are cancelled.\<close>

definition report_or_cancel ::
  "block_ref \<Rightarrow> reorg_reason \<Rightarrow> reorg_report option \<Rightarrow> runtime_state \<Rightarrow> reorg_report \<times> runtime_state" where
  "report_or_cancel tip reason recovered r =
     (case recovered of
        Some rep \<Rightarrow> (rep, r)
      | None \<Rightarrow> (let (canceled, r1) = cancel_resyncs_for_dropped_blocks [tip] r
                 in (bare_reorg_report tip [] canceled reason, r1)))"

text \<open>A safe or finalized head survives only at or below the anchor the new branch is known to contain.\<close>

definition retain_head :: "block_ref option \<Rightarrow> block_ref option \<Rightarrow> block_ref option" where
  "retain_head anchor head =
     (case head of
        None \<Rightarrow> None
      | Some h \<Rightarrow>
          (case anchor of
             None \<Rightarrow> None
           | Some a \<Rightarrow> if br_number a < br_number h \<or> br_number h = br_number a \<and> br_hash h \<noteq> br_hash a
                      then None else Some h))"

definition retain_heads :: "block_ref option \<Rightarrow> runtime_state \<Rightarrow> runtime_state" where
  "retain_heads anchor r =
     r\<lparr>ru_safe_head := retain_head anchor (ru_safe_head r), ru_finalized_head := retain_head anchor (ru_finalized_head r)\<rparr>"

definition remove_canceled_resyncs_from_batch :: "resync_request list \<Rightarrow> resync_request list \<Rightarrow> resync_request list" where
  "remove_canceled_resyncs_from_batch resyncs canceled =
     (if canceled = [] then resyncs else filter (\<lambda>q. rq_id q \<notin> rq_id ` set canceled) resyncs)"

definition advance_to :: "block_ref \<Rightarrow> evm_cache \<Rightarrow> evm_cache" where
  "advance_to b c = advance_compact_block (br_number b) (br_hash b) (br_timestamp b) False c"

section \<open>Canonical records\<close>

definition is_child_of :: "block_ref \<Rightarrow> block_ref \<Rightarrow> bool" where
  "is_child_of b p \<longleftrightarrow> checked_succ (br_number p) = Some (br_number b)"

type_synonym displaced = "block_journal list \<times> block_ref option \<times> reactive_report list \<times> runtime_state \<times> evm_cache"

text \<open>The entries a canonical block displaces, and the anchor of the new branch when the block proves one.\<close>

definition displaced_by :: "block_ref \<Rightarrow> runtime_state \<Rightarrow> evm_cache \<Rightarrow> displaced" where
  "displaced_by b r c =
     (case br_parent_hash b of
        Some ph \<Rightarrow>
          (case find_rposition (\<lambda>e. is_child_of b (bj_block e) \<and> br_hash (bj_block e) = ph) (ru_journal r) of
             Some i \<Rightarrow>
               (let parent = bj_block (ru_journal r ! i);
                    c1 = invalidate_cached_block_hashes_from (saturating_add (br_number parent) 1) c;
                    (dropped, r1) = drain_journal_after i r
                in (dropped, Some parent, [], r1, c1))
           | None \<Rightarrow>
               (let anchor = (case ru_finalized_head r of
                        Some f \<Rightarrow> if is_child_of b f \<and> ph = br_hash f then Some f else None
                      | None \<Rightarrow> None);
                    from_block = (case anchor of None \<Rightarrow> 0 | Some f \<Rightarrow> saturating_add (br_number f) 1);
                    c1 = invalidate_cached_block_hashes_from from_block c;
                    c2 = (if 0 < br_number b then set_cached_block_hash (br_number b - 1) ph c1 else c1);
                    (warning, r1) = warn_under_recovery (br_number b) r;
                    (dropped, r2) = drain_journal_from_number from_block r1
                in (dropped, anchor, option_to_list warning, r2, c2)))
      | None \<Rightarrow>
          (let c1 = invalidate_cached_block_hashes_from 0 c;
               (warning, r1) = warn_under_recovery (br_number b) r;
               (dropped, r2) = drain_journal_from_number 0 r1
           in (dropped, None, option_to_list warning, r2, c1)))"

definition extends_head :: "block_ref \<Rightarrow> block_ref \<Rightarrow> bool \<Rightarrow> bool" where
  "extends_head latest b proven \<longleftrightarrow> is_child_of b latest
     \<and> (br_parent_hash b = Some (br_hash latest) \<or> proven \<and> br_parent_hash b = None)"

definition skips_ahead :: "block_ref \<Rightarrow> block_ref \<Rightarrow> bool" where
  "skips_ahead latest b = (case checked_succ (br_number latest) of None \<Rightarrow> False | Some n \<Rightarrow> n < br_number b)"

type_synonym recovery = "reorg_report option \<times> reactive_report list \<times> runtime_state \<times> evm_cache"

definition note_missed_range :: "block_ref \<Rightarrow> block_ref \<Rightarrow> runtime_state \<Rightarrow> reactive_report list \<times> runtime_state" where
  "note_missed_range latest b r =
     (let r1 = r\<lparr>ru_metrics := (ru_metrics r)\<lparr>mt_missed_ranges := mt_missed_ranges (ru_metrics r) + 1\<rparr>\<rparr>;
          (health, r2) = escalate_trust (br_number b) r1
      in (option_to_list health @ [RpMissedBlockRange (br_number latest + 1) (br_number b - 1) (br_number b)], r2))"

definition switch_branch :: "revm_ext \<Rightarrow> block_ref \<Rightarrow> block_ref \<Rightarrow> runtime_state \<Rightarrow> evm_cache \<Rightarrow> recovery option" where
  "switch_branch ext latest b r c =
     (let (dropped, anchor, reports, r1, c1) = displaced_by b r c;
          r2 = rebase_validation_state_from (case anchor of None \<Rightarrow> 0 | Some a \<Rightarrow> saturating_add (br_number a) 1) r1
      in Option.bind (recover_dropped_journals ext dropped ParentMismatch r2 c1) (\<lambda>(recovered, r3, c2).
         let (report, r4) = report_or_cancel latest ParentMismatch recovered r3;
             r5 = retain_heads anchor (r4\<lparr>ru_coverage_head := anchor\<rparr>);
             c3 = (case anchor of None \<Rightarrow> c2 | Some a \<Rightarrow> advance_to a c2)
         in Some (Some report, reports, r5, c3)))"

definition recover_for_canonical_input ::
  "revm_ext \<Rightarrow> block_ref \<Rightarrow> bool \<Rightarrow> bool \<Rightarrow> runtime_state \<Rightarrow> evm_cache \<Rightarrow> recovery option" where
  "recover_for_canonical_input ext b gap_is_certified proven r c =
     (case or_else (ru_coverage_head r) (if ru_journal r = [] then None else Some (bj_block (last (ru_journal r)))) of
        None \<Rightarrow> Some (None, [], r, c)
      | Some latest \<Rightarrow>
          if same_block latest b then Some (None, [], r, c)
          else if list_ex (\<lambda>e. same_block (bj_block e) b) (ru_journal r) then Some (None, [], r, c)
          else if extends_head latest b proven then Some (None, [], r, c)
          else if skips_ahead latest b then
            (if gap_is_certified then Some (None, [], r, c)
             else let (reports, r1) = note_missed_range latest b r in Some (None, reports, r1, c))
          else switch_branch ext latest b r c)"

section \<open>Removed and reorged records\<close>

text \<open>The head the cache returns to when the dropped block is in the journal at \<open>i\<close>.\<close>

definition anchor_below :: "nat \<Rightarrow> block_ref \<Rightarrow> runtime_state \<Rightarrow> block_ref option" where
  "anchor_below i dropped r =
     (case checked_pred (br_number dropped) of
        None \<Rightarrow> None
      | Some n \<Rightarrow>
          (let retained = map_option bj_block (find (\<lambda>e. br_number (bj_block e) = n) (rev (take i (ru_journal r))));
               synthetic = map_option (\<lambda>h. \<lparr>br_number = n, br_hash = h, br_parent_hash = None, br_timestamp = None\<rparr>)
                 (br_parent_hash dropped);
               fallback = (case ru_finalized_head r of Some f \<Rightarrow> if br_number f = n then Some f else None | None \<Rightarrow> None);
               enrich = (\<lambda>head a. case head of Some h \<Rightarrow> if same_block h a then enrich_block_ref a h else a | None \<Rightarrow> a)
           in map_option (\<lambda>a. enrich (ru_finalized_head r) (enrich (ru_safe_head r) a))
                (or_else (or_else retained synthetic) fallback)))"

text \<open>A signal whose block is already gone only cancels resyncs pinned to it.\<close>

definition cancel_only :: "block_ref \<Rightarrow> reorg_reason \<Rightarrow> runtime_state \<Rightarrow> reorg_report option \<times> runtime_state" where
  "cancel_only b reason r =
     (let (canceled, r1) = cancel_resyncs_for_dropped_blocks [b] r
      in (if canceled = [] then None else Some (bare_reorg_report b [b] canceled reason), r1))"

definition known_dropped_block :: "nat option \<Rightarrow> block_ref \<Rightarrow> runtime_state \<Rightarrow> block_ref" where
  "known_dropped_block exact_index incoming r =
     enrich_block_ref
       (case exact_index of
          Some i \<Rightarrow> bj_block (ru_journal r ! i)
        | None \<Rightarrow> (case ru_coverage_head r of
              Some h \<Rightarrow> if same_block h incoming then h else incoming
            | None \<Rightarrow> incoming)) incoming"

definition replacement_known :: "nat option \<Rightarrow> block_ref \<Rightarrow> runtime_state \<Rightarrow> bool" where
  "replacement_known exact_index dropped r \<longleftrightarrow> exact_index = None \<and>
     (list_ex (\<lambda>e. br_number (bj_block e) = br_number dropped \<and> br_hash (bj_block e) \<noteq> br_hash dropped) (ru_journal r)
      \<or> (case ru_coverage_head r of None \<Rightarrow> False
         | Some h \<Rightarrow> br_number h = br_number dropped \<and> br_hash h \<noteq> br_hash dropped))"

definition drop_block ::
  "revm_ext \<Rightarrow> nat option \<Rightarrow> block_ref \<Rightarrow> reorg_reason \<Rightarrow> batch_dropped \<Rightarrow> runtime_state \<Rightarrow> evm_cache
     \<Rightarrow> (reorg_report option \<times> reactive_report list \<times> batch_dropped \<times> runtime_state \<times> evm_cache) option" where
  "drop_block ext exact_index dropped_block reason bd r c =
     (let anchor = (case exact_index of None \<Rightarrow> None | Some i \<Rightarrow> anchor_below i dropped_block r);
          c1 = invalidate_cached_block_hashes_from (br_number dropped_block) c;
          (reports, dropped, r1) = (case exact_index of
              Some i \<Rightarrow> (let (dropped, r') = drain_journal_from i r in ([], dropped, r'))
            | None \<Rightarrow> (let (warning, r') = warn_under_recovery (br_number dropped_block) r;
                           (dropped, r'') = drain_journal_from_number (br_number dropped_block) r'
                       in (option_to_list warning, dropped, r'')));
          bd1 = record_identity dropped_block (record_drained (map bj_block dropped) bd);
          r2 = rebase_validation_state_from (br_number dropped_block) r1
      in if dropped = []
         then (let (canceled, r3) = cancel_resyncs_for_dropped_blocks [dropped_block] r2
               in Some (Some (bare_reorg_report dropped_block [] canceled reason), reports, bd1, r3, c1))
         else Option.bind (recover_dropped_journals ext dropped reason r2 c1) (\<lambda>(report, r3, c2).
           let r4 = (case anchor of None \<Rightarrow> r3 | Some a \<Rightarrow> r3\<lparr>ru_coverage_head := Some a\<rparr>);
               r5 = retain_heads (ru_coverage_head r4) r4;
               c3 = (case (report, ru_coverage_head r5) of (Some _, Some h) \<Rightarrow> advance_to h c2 | _ \<Rightarrow> c2)
           in Some (report, reports, bd1, r5, c3)))"

definition recover_for_reorged_input ::
  "revm_ext \<Rightarrow> reactive_input_record \<Rightarrow> batch_dropped \<Rightarrow> runtime_state \<Rightarrow> evm_cache
     \<Rightarrow> (reorg_report option \<times> reactive_report list \<times> batch_dropped \<times> runtime_state \<times> evm_cache) option" where
  "recover_for_reorged_input ext rc bd r c =
     (case reorg_signal_block rc of
        None \<Rightarrow> Some (None, [], bd, r, c)
      | Some (incoming, reason) \<Rightarrow>
          if bd_contains bd incoming
          then (let (report, r1) = cancel_only incoming reason r in Some (report, [], bd, r1, c))
          else
            (let exact_index = find_position (\<lambda>e. same_block (bj_block e) incoming) (ru_journal r);
                 dropped_block = known_dropped_block exact_index incoming r
             in if replacement_known exact_index dropped_block r
                then (let (report, r1) = cancel_only dropped_block reason r in Some (report, [], bd, r1, c))
                else drop_block ext exact_index dropped_block reason bd r c))"

section \<open>Chain controls\<close>

definition cover_block :: "nat \<Rightarrow> block_ref \<Rightarrow> runtime_state \<Rightarrow> runtime_state" where
  "cover_block depth b r =
     (let r1 = r\<lparr>ru_coverage_head := advance_or_enrich_coverage (ru_coverage_head r) b\<rparr>;
          enriched = journal_block b r1;
          r2 = journal_entry_mut b (\<lambda>e. e) r1
      in trim_journal depth (r2\<lparr>ru_coverage_head := advance_or_enrich_coverage (ru_coverage_head r2) enriched\<rparr>))"

definition drop_above :: "block_ref \<Rightarrow> runtime_state \<Rightarrow> reactive_report list \<times> block_journal list \<times> runtime_state" where
  "drop_above ancestor r =
     (case find_rposition (\<lambda>e. same_block (bj_block e) ancestor) (ru_journal r) of
        Some i \<Rightarrow> (let (dropped, r1) = drain_journal_after i r in ([], dropped, r1))
      | None \<Rightarrow>
          (let above = saturating_add (br_number ancestor) 1;
               (warning, r1) =
                 (if ru_journal r = [] \<or> br_number ancestor < br_number (bj_block (hd (ru_journal r)))
                  then warn_under_recovery above r else (None, r));
               (dropped, r2) = drain_journal_from_number above r1
           in (option_to_list warning, dropped, r2)))"

definition enriched_ancestor :: "block_ref \<Rightarrow> runtime_state \<Rightarrow> block_ref" where
  "enriched_ancestor ancestor r =
     (let a1 = (case find (\<lambda>e. same_block (bj_block e) ancestor) (ru_journal r) of
                  Some e \<Rightarrow> enrich_block_ref ancestor (bj_block e) | None \<Rightarrow> ancestor)
      in case ru_coverage_head r of
           Some h \<Rightarrow> if same_block h ancestor then enrich_block_ref a1 h else a1
         | None \<Rightarrow> a1)"

text \<open>The runtime continues from the ancestor, which becomes the coverage head and an entry of the journal.\<close>

definition restart_at :: "nat \<Rightarrow> block_ref \<Rightarrow> runtime_state \<Rightarrow> block_ref \<times> runtime_state" where
  "restart_at depth ancestor r =
     (let anc = enriched_ancestor ancestor r;
          r1 = r\<lparr>ru_coverage_head := Some anc\<rparr>;
          anc' = journal_block anc r1;
          r2 = (journal_entry_mut anc (\<lambda>e. e) r1)\<lparr>ru_coverage_head := Some anc'\<rparr>
      in (anc, trim_journal depth r2))"

definition count_recovered :: "runtime_state \<Rightarrow> runtime_state" where
  "count_recovered r = r\<lparr>ru_metrics := (ru_metrics r)\<lparr>mt_reorgs_recovered := mt_reorgs_recovered (ru_metrics r) + 1\<rparr>\<rparr>"

type_synonym control_result = "(resync_request list \<times> reactive_report list \<times> runtime_state \<times> evm_cache) option"

definition apply_reorg_control ::
  "revm_ext \<Rightarrow> nat \<Rightarrow> block_ref \<Rightarrow> block_ref \<Rightarrow> resync_request list \<Rightarrow> runtime_state \<Rightarrow> evm_cache \<Rightarrow> control_result" where
  "apply_reorg_control ext depth ancestor old_tip resyncs r c =
     (let above = saturating_add (br_number ancestor) 1;
          c1 = invalidate_cached_block_hashes_from above c;
          r1 = rebase_validation_state_from above r;
          (warnings, dropped, r2) = drop_above ancestor r1
      in Option.bind (recover_dropped_journals ext dropped Explicit r2 c1) (\<lambda>(recovered, r3, c2).
         let (report, r4) = report_or_cancel old_tip Explicit recovered r3;
             r5 = retain_heads (Some ancestor) (count_recovered r4);
             (anc, r6) = restart_at depth ancestor r5
         in Some (remove_canceled_resyncs_from_batch resyncs (rg_canceled_resyncs report),
                  warnings @ [RpReorg report], r6, advance_to anc c2)))"

fun apply_chain_control ::
  "revm_ext \<Rightarrow> nat \<Rightarrow> chain_control \<Rightarrow> resync_request list \<Rightarrow> runtime_state \<Rightarrow> evm_cache \<Rightarrow> control_result" where
  "apply_chain_control ext depth (CcSafe b) qs r c =
     Some (qs, [RpChainControl (CcSafe b)], r\<lparr>ru_safe_head := set_or_enrich_block_ref (ru_safe_head r) b\<rparr>, c)"
| "apply_chain_control ext depth (CcFinalized b) qs r c =
     Some (qs, [RpChainControl (CcFinalized b)], r\<lparr>ru_finalized_head := set_or_enrich_block_ref (ru_finalized_head r) b\<rparr>, c)"
| "apply_chain_control ext depth (CcLogCoverage b) qs r c =
     Some (qs, [RpChainControl (CcLogCoverage b)], r\<lparr>ru_log_coverage_head := set_or_enrich_block_ref (ru_log_coverage_head r) b\<rparr>, c)"
| "apply_chain_control ext depth (CcBarrier i None) qs r c = Some (qs, [RpChainControl (CcBarrier i None)], r, c)"
| "apply_chain_control ext depth (CcReorg ancestor old_tip new_tip) qs r c =
     map_option (\<lambda>(qs', reports, r', c'). (qs', reports @ [RpChainControl (CcReorg ancestor old_tip new_tip)], r', c'))
       (apply_reorg_control ext depth ancestor old_tip qs r c)"
| "apply_chain_control ext depth (CcCanonicalProgress b) qs r c =
     (let preserve_env = (case ru_coverage_head r of None \<Rightarrow> False | Some h \<Rightarrow> block_refs_compatible h b)
      in Some (qs, [RpChainControl (CcCanonicalProgress b)], cover_block depth b r,
               advance_compact_block (br_number b) (br_hash b) (br_timestamp b) preserve_env c))"
| "apply_chain_control ext depth (CcBarrier i (Some b)) qs r c =
     (let preserve_env = (case ru_coverage_head r of None \<Rightarrow> False | Some h \<Rightarrow> block_refs_compatible h b)
      in Some (qs, [RpChainControl (CcBarrier i (Some b))], cover_block depth b r,
               advance_compact_block (br_number b) (br_hash b) (br_timestamp b) preserve_env c))"

end
