(* ===== verification/Canonical_Sequence.thy ===== *)
theory Canonical_Sequence
  imports Reactive_Recovery
begin

text \<open>
  The validator of canonical delivery envelopes (\<^verbatim>\<open>src/reactive/mod.rs\<close>): the retained canonical history with its
  coverage, safe, finalized and log-coverage heads, and the checks and transitions of reorg controls, records and
  post-record controls. Error messages are modelled by their fixed text. Maps keyed by block are association
  lists; where the code iterates one, only the choice of message depends on the order.
\<close>

section \<open>State and errors\<close>

record sequence_state =
  ss_history :: "block_ref list"
  ss_coverage :: "block_ref option"
  ss_safe :: "block_ref option"
  ss_finalized :: "block_ref option"
  ss_log_coverage :: "block_ref option"

definition retain_recent_history :: "nat \<Rightarrow> sequence_state \<Rightarrow> sequence_state" where
  "retain_recent_history max_entries st = st\<lparr>ss_history := drop (length (ss_history st) - max_entries) (ss_history st)\<rparr>"

datatype sequence_mutation =
    Rewind "block_ref option" "block_ref list"
  | MutCanonical block_ref
  | MutSafe block_ref
  | MutFinalized block_ref
  | MutLogCoverage block_ref

record sequence_validation =
  sv_pre_record_state :: sequence_state
  sv_next_state :: sequence_state
  sv_mutations :: "sequence_mutation list"
  sv_normalized_controls :: "chain_control list"

datatype validation_policy = RequireCompleteRollback | RequireCompleteRollbackNormalizeCoverage | ObserveIncompleteRollback

fun requires_complete_rollback :: "validation_policy \<Rightarrow> bool" where
  "requires_complete_rollback ObserveIncompleteRollback = False"
| "requires_complete_rollback _ = True"

fun normalizes_coverage :: "validation_policy \<Rightarrow> bool" where
  "normalizes_coverage RequireCompleteRollbackNormalizeCoverage = True"
| "normalizes_coverage _ = False"

datatype rollback_kind = RkExplicit | RkRemoved | RkImplicitParent | RkMissingReplacement

datatype sequence_error = SeqInvalid reactive_error | IncompleteRollback u64 "u64 option" rollback_kind

fun into_reactive_error :: "sequence_error \<Rightarrow> reactive_error" where
  "into_reactive_error (SeqInvalid e) = e"
| "into_reactive_error (IncompleteRollback _ _ _) =
     InvalidChainControl ''rollback exceeds retained canonical history''"

fun requires_history :: "sequence_error \<Rightarrow> bool" where
  "requires_history (SeqInvalid _) = False"
| "requires_history (IncompleteRollback _ _ _) = True"

record required_anchor =
  ra_number :: u64
  ra_block :: "block_ref option"
  ra_permits_missing_child_parent :: bool
  ra_must_be_consumed :: bool

section \<open>Checks in sequence\<close>

fun and_then :: "'e + 'a \<Rightarrow> ('a \<Rightarrow> 'e + 'b) \<Rightarrow> 'e + 'b" where
  "and_then (Inl e) f = Inl e"
| "and_then (Inr x) f = f x"

fun lift_err :: "('e \<Rightarrow> 'f) \<Rightarrow> 'e + 'a \<Rightarrow> 'f + 'a" where
  "lift_err g (Inl e) = Inl (g e)"
| "lift_err g (Inr x) = Inr x"

text \<open>\<open>ensure\<close> is a guard with an early return; \<open>all_ok\<close> runs checks in order and returns the first error.\<close>

definition ensure :: "bool \<Rightarrow> string \<Rightarrow> reactive_error + unit" where
  "ensure ok message = (if ok then Okay () else Err (InvalidChainControl message))"

fun all_ok :: "('e + unit) list \<Rightarrow> 'e + unit" where
  "all_ok [] = Okay ()"
| "all_ok (x # xs) = (case x of Inl e \<Rightarrow> Err e | Inr _ \<Rightarrow> all_ok xs)"

definition opt_ok :: "'a option \<Rightarrow> ('a \<Rightarrow> bool) \<Rightarrow> bool" where
  "opt_ok x P = (case x of None \<Rightarrow> True | Some y \<Rightarrow> P y)"

definition opt_is :: "'a option \<Rightarrow> ('a \<Rightarrow> bool) \<Rightarrow> bool" where
  "opt_is x P = (case x of None \<Rightarrow> False | Some y \<Rightarrow> P y)"

section \<open>Known blocks\<close>

definition known_blocks :: "sequence_state \<Rightarrow> block_ref list" where
  "known_blocks st = ss_history st @ option_to_list (ss_coverage st) @ option_to_list (ss_safe st) @ option_to_list (ss_finalized st)"

definition validate_sequence_known_hash_height :: "sequence_state \<Rightarrow> block_ref \<Rightarrow> reactive_error + unit" where
  "validate_sequence_known_hash_height st b =
     ensure (opt_ok (find (\<lambda>k. br_hash k = br_hash b) (known_blocks st)) (\<lambda>k. br_number k = br_number b))
       ''block reuses a canonical hash already known at another height''"

definition validate_sequence_known_parent_height :: "sequence_state \<Rightarrow> block_ref \<Rightarrow> reactive_error + unit" where
  "validate_sequence_known_parent_height st b =
     ensure (opt_ok (br_parent_hash b) (\<lambda>ph. opt_ok (find (\<lambda>k. br_hash k = ph) (known_blocks st)) (is_child_of b)))
       ''block names a hash from a known height as a non-adjacent parent''"

definition validate_sequence_known_identity :: "sequence_state \<Rightarrow> block_ref \<Rightarrow> reactive_error + unit" where
  "validate_sequence_known_identity st b = all_ok
     [validate_sequence_known_hash_height st b,
      validate_sequence_known_parent_height st b,
      ensure (opt_ok (case ss_coverage st of
                 Some h \<Rightarrow> if br_number h = br_number b then Some h else find (\<lambda>e. br_number e = br_number b) (ss_history st)
               | None \<Rightarrow> find (\<lambda>e. br_number e = br_number b) (ss_history st)) (\<lambda>k. block_refs_compatible k b))
        ''block conflicts with a known canonical block'']"

definition validate_sequence_matching_metadata :: "sequence_state \<Rightarrow> block_ref \<Rightarrow> reactive_error + unit" where
  "validate_sequence_matching_metadata st b = all_ok
     [validate_sequence_known_hash_height st b,
      validate_sequence_known_parent_height st b,
      ensure (opt_ok (case ss_coverage st of
                 Some h \<Rightarrow> if same_block h b then Some h else find (\<lambda>e. same_block e b) (ss_history st)
               | None \<Rightarrow> find (\<lambda>e. same_block e b) (ss_history st)) (\<lambda>k. block_refs_compatible k b))
        ''block carries metadata conflicting with a known canonical block'']"

definition validate_sequence_head_within_coverage :: "sequence_state \<Rightarrow> block_ref \<Rightarrow> reactive_error + unit" where
  "validate_sequence_head_within_coverage st b =
     (case ss_coverage st of
        None \<Rightarrow> Err (InvalidChainControl ''head requires an authoritative coverage head'')
      | Some h \<Rightarrow> ensure (\<not> (br_number h < br_number b \<or> br_number b = br_number h \<and> \<not> block_refs_compatible b h))
          ''head advances beyond or conflicts with coverage'')"

definition validate_reorg_ancestor_against_retained_branch :: "sequence_state \<Rightarrow> block_ref \<Rightarrow> reactive_error + unit" where
  "validate_reorg_ancestor_against_retained_branch st a = all_ok (concat (map (\<lambda>k.
     [ensure (\<not> (is_child_of k a \<and> opt_is (br_parent_hash k) (\<lambda>p. p \<noteq> br_hash a)))
        ''reorg common ancestor conflicts with retained child'',
      ensure (\<not> (br_parent_hash k = Some (br_hash a) \<and> \<not> is_child_of k a))
        ''reorg common ancestor is named as the non-adjacent parent of a retained block'']) (known_blocks st)))"

definition validate_sequence_adjacent_parent_identity :: "sequence_state \<Rightarrow> block_ref \<Rightarrow> reactive_error + unit" where
  "validate_sequence_adjacent_parent_identity st b =
     ensure (opt_ok (br_parent_hash b) (\<lambda>ph. opt_ok (checked_pred (br_number b)) (\<lambda>n.
        opt_ok (find (\<lambda>k. br_number k = n) (known_blocks st)) (\<lambda>k. br_hash k = ph))))
       ''block names a parent which conflicts with a known adjacent block''"

definition sequence_block_adds_metadata :: "sequence_state \<Rightarrow> block_ref \<Rightarrow> bool" where
  "sequence_block_adds_metadata st b =
     list_ex (\<lambda>k. br_parent_hash k = None \<and> br_parent_hash b \<noteq> None \<or> br_timestamp k = None \<and> br_timestamp b \<noteq> None)
       (filter (\<lambda>k. same_block k b) (option_to_list (ss_coverage st) @ ss_history st))"

section \<open>Snapshots\<close>

fun collect_heights ::
  "block_ref list \<Rightarrow> (b256, u64) hashmap \<Rightarrow> (u64, block_ref) hashmap
     \<Rightarrow> reactive_error + ((b256, u64) hashmap \<times> (u64, block_ref) hashmap)" where
  "collect_heights [] heights resolved = Okay (heights, resolved)"
| "collect_heights (b # bs) heights resolved =
     (if opt_is (hm_get heights (br_hash b)) (\<lambda>n. n \<noteq> br_number b)
      then Err (InvalidChainControl ''canonical hash is reused at two heights'')
      else case hm_get resolved (br_number b) of
             Some k \<Rightarrow>
               if \<not> block_refs_compatible k b
               then Err (InvalidChainControl ''canonical aliases carry conflicting identities or metadata'')
               else collect_heights bs (hm_insert (br_hash b) (br_number b) heights)
                      (hm_insert (br_number b) (enrich_block_ref k b) resolved)
           | None \<Rightarrow> collect_heights bs (hm_insert (br_hash b) (br_number b) heights) (hm_insert (br_number b) b resolved))"

definition check_child :: "(b256, u64) hashmap \<Rightarrow> (u64, block_ref) hashmap \<Rightarrow> block_ref \<Rightarrow> reactive_error + unit" where
  "check_child heights resolved child =
     (case br_parent_hash child of
        None \<Rightarrow> Okay ()
      | Some ph \<Rightarrow> all_ok
          [ensure (opt_ok (hm_get heights ph) (\<lambda>n. checked_succ n = Some (br_number child)))
             ''block names a hash from a known height as a non-adjacent parent'',
           ensure (opt_ok (checked_pred (br_number child)) (\<lambda>n. opt_ok (hm_get resolved n) (\<lambda>p. br_hash p = ph)))
             ''block does not descend from the supplied adjacent identity''])"

definition validate_known_parent_hash_heights :: "block_ref list \<Rightarrow> reactive_error + unit" where
  "validate_known_parent_hash_heights bs =
     and_then (collect_heights bs [] []) (\<lambda>(heights, resolved). all_ok (map (\<lambda>(_, child). check_child heights resolved child) resolved))"

definition validate_coverage_descends_from_adjacent_head :: "block_ref option \<Rightarrow> block_ref \<Rightarrow> reactive_error + unit" where
  "validate_coverage_descends_from_adjacent_head coverage head =
     ensure (opt_ok coverage (\<lambda>c. \<not> (is_child_of c head \<and> opt_is (br_parent_hash c) (\<lambda>p. p \<noteq> br_hash head))))
       ''canonical coverage does not descend from the adjacent head''"

definition validate_adjacent_finality :: "block_ref option \<Rightarrow> block_ref option \<Rightarrow> reactive_error + unit" where
  "validate_adjacent_finality finalized safe =
     ensure (opt_ok finalized (\<lambda>f. opt_ok safe (\<lambda>s. \<not> (is_child_of s f \<and> br_parent_hash s \<noteq> Some (br_hash f)))))
       ''adjacent safe head does not descend from finalized head''"

fun check_history :: "block_ref option \<Rightarrow> block_ref list \<Rightarrow> reactive_error + unit" where
  "check_history prior [] = Okay ()"
| "check_history prior (b # bs) =
     and_then (case prior of
        None \<Rightarrow> Okay ()
      | Some p \<Rightarrow> all_ok
          [ensure (\<not> br_number b < br_number p) ''retained canonical history is not ordered by block number'',
           ensure (br_number b \<noteq> br_number p) ''retained canonical history contains two identities at one block'',
           ensure (\<not> (is_child_of b p \<and> br_parent_hash b \<noteq> None \<and> br_parent_hash b \<noteq> Some (br_hash p)))
             ''adjacent retained block does not descend from its predecessor''])
       (\<lambda>_. check_history (Some b) bs)"

definition check_coverage :: "sequence_state \<Rightarrow> reactive_error + unit" where
  "check_coverage st =
     (case ss_coverage st of
        None \<Rightarrow> ensure (ss_history st = []) ''retained canonical history requires an authoritative coverage head''
      | Some h \<Rightarrow> all_ok
          [ensure (opt_ok (find (\<lambda>e. br_number e = br_number h) (ss_history st)) (\<lambda>e. block_refs_compatible e h))
             ''coverage head conflicts with retained identity'',
           ensure (\<not> (ss_history st \<noteq> [] \<and> br_number h < br_number (last (ss_history st))))
             ''retained canonical history advances beyond the coverage head'',
           ensure (\<not> (ss_history st \<noteq> [] \<and> is_child_of h (last (ss_history st)) \<and> br_parent_hash h \<noteq> None
                       \<and> br_parent_hash h \<noteq> Some (br_hash (last (ss_history st)))))
             ''coverage head does not descend from the adjacent retained block''])"

definition check_head :: "sequence_state \<Rightarrow> block_ref option \<Rightarrow> reactive_error + unit" where
  "check_head st head =
     (case head of
        None \<Rightarrow> Okay ()
      | Some h \<Rightarrow> all_ok
          [validate_sequence_known_identity st h, validate_sequence_head_within_coverage st h,
           validate_coverage_descends_from_adjacent_head (ss_coverage st) h])"

text \<open>Does \<open>later\<close> lie strictly above \<open>b\<close>, or name another block at its height?\<close>

definition passes :: "block_ref \<Rightarrow> block_ref \<Rightarrow> bool" where
  "passes later b \<longleftrightarrow> br_number b < br_number later \<or> br_number b = br_number later \<and> br_hash b \<noteq> br_hash later"

definition validate_canonical_sequence_snapshot :: "sequence_state \<Rightarrow> reactive_error + unit" where
  "validate_canonical_sequence_snapshot st = all_ok
     [validate_known_parent_hash_heights (known_blocks st),
      check_history None (ss_history st),
      check_coverage st,
      check_head st (ss_safe st),
      check_head st (ss_finalized st),
      validate_adjacent_finality (ss_finalized st) (ss_safe st),
      ensure (opt_ok (ss_finalized st) (\<lambda>f. opt_ok (ss_safe st) (\<lambda>s. \<not> passes f s)))
        ''finalized head cannot advance beyond or conflict with safe head'']"

section \<open>Controls\<close>

definition validate_head_control :: "block_ref option \<Rightarrow> block_ref \<Rightarrow> string \<Rightarrow> reactive_error + unit" where
  "validate_head_control current b message =
     ensure (opt_ok current (\<lambda>c. \<not> (br_number b < br_number c
        \<or> br_number b = br_number c \<and> (br_hash b \<noteq> br_hash c \<or> \<not> block_refs_compatible b c)))) message"

definition validate_reorg_control :: "sequence_state \<Rightarrow> block_ref \<Rightarrow> block_ref \<Rightarrow> block_ref \<Rightarrow> reactive_error + unit" where
  "validate_reorg_control st ancestor old_tip new_tip = all_ok
     [validate_sequence_known_identity st ancestor,
      validate_reorg_ancestor_against_retained_branch st ancestor,
      validate_sequence_known_hash_height st old_tip,
      validate_sequence_known_hash_height st new_tip,
      validate_sequence_known_parent_height st old_tip,
      validate_sequence_known_parent_height st new_tip,
      validate_sequence_adjacent_parent_identity st old_tip,
      ensure (opt_ok (ss_coverage st) (\<lambda>c. same_block old_tip c \<and> block_refs_compatible old_tip c))
        ''reorg old tip does not exactly match current metadata'',
      ensure (\<not> (br_number old_tip < br_number ancestor \<or> br_number new_tip < br_number ancestor))
        ''reorg common ancestor cannot be above either branch tip'',
      ensure (\<not> (br_number ancestor = br_number old_tip \<or> br_number ancestor = br_number new_tip))
        ''reorg must replace non-empty old and new branches above the common ancestor'',
      ensure (\<not> same_block old_tip new_tip) ''reorg old and new tips cannot have the same canonical identity'',
      ensure (\<not> (is_child_of old_tip ancestor \<and> br_parent_hash old_tip \<noteq> Some (br_hash ancestor)))
        ''reorg old tip does not descend from the common ancestor'',
      ensure (\<not> (is_child_of new_tip ancestor \<and> br_parent_hash new_tip \<noteq> Some (br_hash ancestor)))
        ''reorg new tip does not descend from the common ancestor'',
      ensure (opt_ok (ss_finalized st) (\<lambda>f. \<not> passes f ancestor)) ''reorg would cross or conflict with the finalized head'']"

definition validate_coverage_control :: "sequence_state \<Rightarrow> block_ref \<Rightarrow> reactive_error + unit" where
  "validate_coverage_control st b = all_ok
     [validate_sequence_known_identity st b,
      ensure (opt_ok (ss_coverage st) (\<lambda>c. \<not> passes c b)) ''canonical coverage conflicts with current'',
      ensure (opt_ok (ss_coverage st) (\<lambda>c. \<not> (is_child_of b c \<and> br_parent_hash b \<noteq> None \<and> br_parent_hash b \<noteq> Some (br_hash c))))
        ''canonical coverage does not descend from current'']"

fun validate_sequence_control :: "sequence_state \<Rightarrow> chain_control \<Rightarrow> reactive_error + unit" where
  "validate_sequence_control st (CcSafe b) = all_ok
     [validate_sequence_known_identity st b, validate_sequence_head_within_coverage st b,
      validate_head_control (ss_safe st) b ''safe head conflicts with current'',
      ensure (opt_ok (ss_finalized st) (\<lambda>f. \<not> passes f b)) ''safe head cannot precede or conflict with finalized head'',
      validate_adjacent_finality (ss_finalized st) (Some b)]"
| "validate_sequence_control st (CcFinalized b) = all_ok
     [validate_sequence_known_identity st b, validate_sequence_head_within_coverage st b,
      validate_head_control (ss_finalized st) b ''finalized head conflicts with current'',
      ensure (opt_ok (ss_safe st) (\<lambda>s. \<not> passes b s)) ''finalized head cannot advance beyond or conflict with safe head'',
      validate_adjacent_finality (Some b) (ss_safe st)]"
| "validate_sequence_control st (CcCanonicalProgress b) = validate_coverage_control st b"
| "validate_sequence_control st (CcBarrier _ (Some b)) = validate_coverage_control st b"
| "validate_sequence_control st (CcLogCoverage b) = all_ok
     [validate_sequence_known_identity st b,
      ensure (opt_ok (ss_log_coverage st) (\<lambda>c. \<not> passes c b)) ''log coverage conflicts with current'',
      ensure (opt_ok (ss_coverage st) (\<lambda>c. \<not> br_number c < br_number b)) ''log coverage is ahead of canonical coverage'']"
| "validate_sequence_control st (CcBarrier _ None) = Okay ()"
| "validate_sequence_control st (CcReorg ancestor old_tip new_tip) = validate_reorg_control st ancestor old_tip new_tip"

definition validate_control_phase_order :: "chain_control list \<Rightarrow> reactive_error + nat" where
  "validate_control_phase_order controls =
     (let split = length (takeWhile is_reorg_control controls)
      in if list_ex is_reorg_control (drop split controls)
         then Err (InvalidChainControl ''reorg controls must precede records and all post-record controls in a batch'')
         else Okay split)"

fun chain_control_canonical_assertion :: "chain_control \<Rightarrow> block_ref option" where
  "chain_control_canonical_assertion (CcSafe b) = Some b"
| "chain_control_canonical_assertion (CcFinalized b) = Some b"
| "chain_control_canonical_assertion (CcCanonicalProgress b) = Some b"
| "chain_control_canonical_assertion (CcLogCoverage b) = Some b"
| "chain_control_canonical_assertion (CcBarrier _ b) = b"
| "chain_control_canonical_assertion (CcReorg _ _ _) = None"

section \<open>Identities asserted by one envelope\<close>

definition check_asserted :: "block_ref \<Rightarrow> block_ref \<Rightarrow> reactive_error + unit" where
  "check_asserted b asserted = all_ok
     [ensure (\<not> (br_hash asserted = br_hash b \<and> br_number asserted \<noteq> br_number b)) ''hash is already asserted at another height'',
      ensure (\<not> (br_parent_hash b = Some (br_hash asserted) \<and> \<not> is_child_of b asserted))
        ''block names an asserted hash as a non-adjacent parent'',
      ensure (\<not> (br_parent_hash asserted = Some (br_hash b) \<and> \<not> is_child_of asserted b))
        ''a block asserted earlier names the hash from a non-adjacent height as its parent'']"

type_synonym asserted_blocks = "(u64, block_ref) hashmap"

definition assert_canonical_block_identity :: "asserted_blocks \<Rightarrow> block_ref \<Rightarrow> reactive_error + asserted_blocks" where
  "assert_canonical_block_identity asserted b =
     and_then (all_ok (map (\<lambda>(_, k). check_asserted b k) asserted)) (\<lambda>_.
       case hm_get asserted (br_number b) of
         Some k \<Rightarrow>
           if block_refs_compatible k b then Okay (hm_insert (br_number b) (enrich_block_ref k b) asserted)
           else Err (InvalidChainControl ''block conflicts with a block identity asserted earlier in the batch'')
       | None \<Rightarrow> Okay (hm_insert (br_number b) b asserted))"

fun assert_chain_control_identities :: "asserted_blocks \<Rightarrow> chain_control \<Rightarrow> reactive_error + asserted_blocks" where
  "assert_chain_control_identities asserted (CcReorg ancestor _ new_tip) =
     and_then (assert_canonical_block_identity (hm_retain (\<lambda>n. n \<le> br_number ancestor) asserted) ancestor)
       (\<lambda>asserted'. assert_canonical_block_identity asserted' new_tip)"
| "assert_chain_control_identities asserted control =
     (case chain_control_canonical_assertion control of
        None \<Rightarrow> Okay asserted
      | Some b \<Rightarrow> assert_canonical_block_identity asserted b)"

section \<open>Canonical blocks\<close>

definition parent_at :: "block_ref list \<Rightarrow> block_ref \<Rightarrow> nat option" where
  "parent_at hs b =
     (case br_parent_hash b of
        None \<Rightarrow> None
      | Some ph \<Rightarrow> find_rposition (\<lambda>e. is_child_of b e \<and> br_hash e = ph) hs)"

definition finalized_parent :: "sequence_state \<Rightarrow> block_ref \<Rightarrow> block_ref option" where
  "finalized_parent st b =
     (case ss_finalized st of
        None \<Rightarrow> None
      | Some f \<Rightarrow> if is_child_of b f \<and> br_parent_hash b = Some (br_hash f) then Some f else None)"

text \<open>Does the block leave the current branch where it is: known, the tip, its child, or ahead of it?\<close>

definition keeps_branch :: "block_ref list \<Rightarrow> block_ref \<Rightarrow> block_ref \<Rightarrow> bool \<Rightarrow> bool" where
  "keeps_branch hs latest b parentless_ok \<longleftrightarrow>
     same_block latest b \<or> list_ex (\<lambda>e. same_block e b) hs \<or> extends_head latest b parentless_ok \<or> skips_ahead latest b"

definition validate_sequence_implicit_finality ::
  "sequence_state \<Rightarrow> reactive_input_record \<Rightarrow> block_ref option \<Rightarrow> reactive_error + unit" where
  "validate_sequence_implicit_finality st rc resolved =
     (case ss_finalized st of
        None \<Rightarrow> Okay ()
      | Some f \<Rightarrow>
          (case reorg_signal_block rc of
             Some (dropped, _) \<Rightarrow> ensure (\<not> br_number dropped \<le> br_number f) ''implicit reorg would cross the finalized head''
           | None \<Rightarrow>
               (case (or_else resolved (canonical_record_block rc), ss_coverage st) of
                  (Some b, Some latest) \<Rightarrow>
                    if keeps_branch (ss_history st) latest b False then Okay ()
                    else ensure (\<not> (if br_number b \<le> br_number f then True
                         else if br_parent_hash b = None then True
                         else if is_child_of b f \<and> br_parent_hash b = Some (br_hash f) then False
                         else case parent_at (ss_history st) b of
                                Some i \<Rightarrow> list_ex (\<lambda>e. br_number e \<le> br_number f) (drop (i + 1) (ss_history st))
                              | None \<Rightarrow> True))
                      ''canonical input would replace the finalized head''
                | _ \<Rightarrow> Okay ())))"

definition validate_required_reorg_anchor :: "required_anchor option \<Rightarrow> block_ref \<Rightarrow> reactive_error + unit" where
  "validate_required_reorg_anchor required b =
     ensure (opt_ok required (\<lambda>q.
        let ancestor_hash = map_option br_hash (ra_block q);
            restores_ancestor = (br_number b = ra_number q \<and> ancestor_hash = Some (br_hash b));
            replaces_removed_child = (checked_succ (ra_number q) = Some (br_number b) \<and> ancestor_hash \<noteq> None
              \<and> (br_parent_hash b = ancestor_hash \<or> br_parent_hash b = None \<and> ra_permits_missing_child_parent q))
        in restores_ancestor \<or> replaces_removed_child))
       ''canonical replacement does not prove the parent of the removed tip''"

definition validate_replacement_reorg_anchor ::
  "required_anchor option \<Rightarrow> block_ref \<Rightarrow> validation_policy \<Rightarrow> u64 option \<Rightarrow> sequence_error + bool" where
  "validate_replacement_reorg_anchor required b policy oldest =
     (case required of
        None \<Rightarrow> Okay False
      | Some q \<Rightarrow>
          (case validate_required_reorg_anchor (Some q) b of
             Inr _ \<Rightarrow> Okay True
           | Inl e \<Rightarrow>
               if ra_block q \<noteq> None then Err (SeqInvalid e)
               else if requires_complete_rollback policy then Err (IncompleteRollback (ra_number q) oldest RkMissingReplacement)
               else Okay False))"

definition clear_sequence_heads_above :: "block_ref \<Rightarrow> sequence_state \<Rightarrow> sequence_state" where
  "clear_sequence_heads_above a st = st\<lparr>ss_safe := retain_head (Some a) (ss_safe st), ss_finalized := retain_head (Some a) (ss_finalized st)\<rparr>"

definition clear_sequence_heads :: "block_ref option \<Rightarrow> sequence_state \<Rightarrow> sequence_state" where
  "clear_sequence_heads anchor st =
     (case anchor of Some a \<Rightarrow> clear_sequence_heads_above a st | None \<Rightarrow> st\<lparr>ss_safe := None, ss_finalized := None\<rparr>)"

fun upsert_entry :: "block_ref list \<Rightarrow> block_ref \<Rightarrow> reactive_error + block_ref list option" where
  "upsert_entry [] b = Okay None"
| "upsert_entry (e # es) b =
     (if br_number e = br_number b then
        (if br_hash e \<noteq> br_hash b then Err (InvalidChainControl ''canonical block conflicts with retained identity'')
         else if \<not> block_refs_compatible e b then Err (InvalidChainControl ''canonical block carries conflicting retained metadata'')
         else Okay (Some (enrich_block_ref e b # es)))
      else and_then (upsert_entry es b) (\<lambda>r. Okay (map_option (\<lambda>es'. e # es') r)))"

definition upsert_sequence_history :: "block_ref list \<Rightarrow> block_ref \<Rightarrow> reactive_error + block_ref list" where
  "upsert_sequence_history hs b =
     and_then (upsert_entry hs b) (\<lambda>r.
       Okay (case r of Some h \<Rightarrow> h | None \<Rightarrow> sort_key br_number (hs @ [b])))"

definition rewind_for :: "sequence_state \<Rightarrow> block_ref \<Rightarrow> block_ref option \<times> block_ref list \<times> block_ref list" where
  "rewind_for st b =
     (let h = ss_history st in
      case parent_at h b of
        Some i \<Rightarrow> (Some (h ! i), take (i + 1) h, drop (i + 1) h)
      | None \<Rightarrow>
          (case finalized_parent st b of
             Some f \<Rightarrow> (Some f, takeWhile (\<lambda>e. br_number e \<le> br_number f) h, dropWhile (\<lambda>e. br_number e \<le> br_number f) h)
           | None \<Rightarrow> (None, [], h)))"

definition apply_sequence_canonical_block ::
  "sequence_state \<Rightarrow> block_ref \<Rightarrow> bool \<Rightarrow> reactive_error + ((block_ref option \<times> block_ref list) option \<times> sequence_state)" where
  "apply_sequence_canonical_block st b parentless_ok =
     (let (rewind, st1) =
        (if opt_is (ss_coverage st) (\<lambda>latest. \<not> keeps_branch (ss_history st) latest b parentless_ok)
         then (let (anchor, kept, dropped) = rewind_for st b
               in (Some (anchor, dropped), clear_sequence_heads anchor (st\<lparr>ss_history := kept, ss_coverage := anchor\<rparr>)))
         else (None, st))
      in and_then (upsert_sequence_history (ss_history st1) b) (\<lambda>h.
         Okay (rewind, st1\<lparr>ss_history := h, ss_coverage := advance_or_enrich_coverage (ss_coverage st1) b\<rparr>)))"

definition sequence_implicit_replacement_requires_history ::
  "sequence_state \<Rightarrow> block_ref \<Rightarrow> validation_policy \<Rightarrow> reactive_error + bool" where
  "sequence_implicit_replacement_requires_history st b policy =
     (case ss_coverage st of
        None \<Rightarrow> Okay False
      | Some latest \<Rightarrow>
          if keeps_branch (ss_history st) latest b False then Okay False
          else (case br_parent_hash b of
             None \<Rightarrow>
               if requires_complete_rollback policy
               then Err (InvalidChainControl ''implicit canonical replacement must identify its parent'') else Okay True
           | Some ph \<Rightarrow>
               if requires_complete_rollback policy
                  \<and> \<not> opt_ok (checked_pred (br_number b)) (\<lambda>n. opt_ok (find (\<lambda>k. br_number k = n) (known_blocks st)) (\<lambda>k. br_hash k = ph))
               then Err (InvalidChainControl ''implicit canonical replacement names a parent which conflicts with a known adjacent block'')
               else Okay (\<not> list_ex (\<lambda>e. is_child_of b e \<and> br_hash e = ph) (ss_history st) \<and> finalized_parent st b = None)))"

definition resolve_record_block_payload_metadata :: "reactive_input_record \<Rightarrow> block_ref \<Rightarrow> reactive_error + block_ref" where
  "resolve_record_block_payload_metadata rc b =
     (case rr_input rc of
        InLog l \<Rightarrow>
          if lg_block_number l \<noteq> Some (br_number b) \<or> lg_block_hash l \<noteq> Some (br_hash b)
          then Err (InvalidInputRecord ''log payload and canonical context carry different block identities'')
          else (case lg_block_timestamp l of
                  None \<Rightarrow> Okay b
                | Some t \<Rightarrow>
                    if opt_is (br_timestamp b) (\<lambda>k. k \<noteq> t)
                    then Err (InvalidInputRecord ''log payload and canonical context carry different block timestamps'')
                    else Okay (b\<lparr>br_timestamp := Some t\<rparr>))
      | _ \<Rightarrow> Okay b)"

section \<open>Envelopes\<close>

text \<open>The local variables of \<open>validate_canonical_sequence_parts\<close> that its loops change.\<close>

record sequence_acc =
  sa_state :: sequence_state
  sa_asserted :: asserted_blocks
  sa_mutations :: "sequence_mutation list"
  sa_controls :: "chain_control list"
  sa_dropped :: batch_dropped
  sa_removed :: "(u64 \<times> b256, block_ref) hashmap"
  sa_removed_heights :: "(b256, u64) hashmap"
  sa_record_proofs :: "(u64 \<times> b256) hashset"
  sa_anchor :: "required_anchor option"

definition start_acc :: "sequence_state \<Rightarrow> sequence_acc" where
  "start_acc st = \<lparr>sa_state = st, sa_asserted = [], sa_mutations = [], sa_controls = [], sa_dropped = no_dropped,
     sa_removed = [], sa_removed_heights = [], sa_record_proofs = [], sa_anchor = None\<rparr>"

fun fold_result :: "('a \<Rightarrow> 'b \<Rightarrow> 'e + 'b) \<Rightarrow> 'a list \<Rightarrow> 'b \<Rightarrow> 'e + 'b" where
  "fold_result f [] acc = Okay acc"
| "fold_result f (x # xs) acc = and_then (f x acc) (fold_result f xs)"

subsection \<open>Reorg controls\<close>

definition rewind_to :: "block_ref \<Rightarrow> block_ref \<Rightarrow> chain_control \<Rightarrow> asserted_blocks \<Rightarrow> sequence_acc \<Rightarrow> reactive_error + sequence_acc" where
  "rewind_to ancestor old_tip control asserted acc =
     (let st = sa_state acc;
          dropped = filter (\<lambda>b. br_number ancestor < br_number b) (ss_history st)
      in and_then (upsert_sequence_history (filter (\<lambda>b. br_number b \<le> br_number ancestor) (ss_history st)) ancestor) (\<lambda>h1.
         let a1 = (case find (\<lambda>b. same_block b ancestor) h1 of Some k \<Rightarrow> enrich_block_ref ancestor k | None \<Rightarrow> ancestor);
             a2 = (case ss_coverage st of Some c \<Rightarrow> if same_block c ancestor then enrich_block_ref a1 c else a1 | None \<Rightarrow> a1)
         in and_then (upsert_sequence_history h1 a2) (\<lambda>h2.
            Okay (acc\<lparr>sa_state := clear_sequence_heads_above a2 (st\<lparr>ss_history := h2, ss_coverage := Some a2\<rparr>),
                      sa_asserted := asserted,
                      sa_mutations := sa_mutations acc @ [Rewind (Some a2) dropped],
                      sa_controls := sa_controls acc @ [control],
                      sa_dropped := record_drained dropped (record_explicit ancestor old_tip (sa_dropped acc))\<rparr>))))"

text \<open>The phase check leaves only reorg controls here; the last equation stands for an unreachable arm.\<close>

fun pre_record_control :: "validation_policy \<Rightarrow> u64 option \<Rightarrow> chain_control \<Rightarrow> sequence_acc \<Rightarrow> sequence_error + sequence_acc" where
  "pre_record_control policy oldest (CcReorg ancestor old_tip new_tip) acc =
     and_then (lift_err SeqInvalid (validate_sequence_control (sa_state acc) (CcReorg ancestor old_tip new_tip))) (\<lambda>_.
     and_then (lift_err SeqInvalid (assert_chain_control_identities (sa_asserted acc) (CcReorg ancestor old_tip new_tip))) (\<lambda>asserted.
       let hs = ss_history (sa_state acc)
       in if requires_complete_rollback policy \<and> \<not> list_ex (\<lambda>b. same_block b ancestor) hs
             \<and> \<not> (hs \<noteq> [] \<and> br_number (hd hs) \<le> br_number ancestor)
          then Err (IncompleteRollback (br_number ancestor) oldest RkExplicit)
          else lift_err SeqInvalid (rewind_to ancestor old_tip (CcReorg ancestor old_tip new_tip) asserted acc)))"
| "pre_record_control policy oldest _ acc = Okay acc"

subsection \<open>Removed and reorged records\<close>

definition removal_anchor :: "sequence_state \<Rightarrow> u64 \<Rightarrow> block_ref list \<Rightarrow> block_ref \<Rightarrow> block_ref option \<times> block_ref option" where
  "removal_anchor st n kept dropped =
     (let retained = find (\<lambda>h. br_number h = n) (rev kept);
          synthetic = map_option (\<lambda>h. \<lparr>br_number = n, br_hash = h, br_parent_hash = None, br_timestamp = None\<rparr>) (br_parent_hash dropped);
          fallback = (case ss_finalized st of Some f \<Rightarrow> if br_number f = n then Some f else None | None \<Rightarrow> None);
          enrich = (\<lambda>head a. case head of Some h \<Rightarrow> if same_block h a then enrich_block_ref a h else a | None \<Rightarrow> a)
      in (retained, map_option (\<lambda>a. enrich (ss_finalized st) (enrich (ss_safe st) a)) (or_else (or_else retained synthetic) fallback)))"

definition remove_known_block :: "nat \<Rightarrow> block_ref \<Rightarrow> sequence_acc \<Rightarrow> sequence_acc" where
  "remove_known_block i dropped_block acc =
     (let st = sa_state acc;
          dropped = drop i (ss_history st);
          kept = take i (ss_history st);
          n = br_number dropped_block - 1;
          (retained, anchor) = removal_anchor st n kept dropped_block;
          coverage = or_else anchor (if kept = [] then None else Some (last kept))
      in acc\<lparr>sa_state := clear_sequence_heads coverage (st\<lparr>ss_history := kept, ss_coverage := coverage\<rparr>),
             sa_mutations := sa_mutations acc @ [Rewind coverage dropped],
             sa_dropped := record_drained dropped (sa_dropped acc),
             sa_anchor := Some \<lparr>ra_number = n, ra_block = anchor, ra_permits_missing_child_parent = retained \<noteq> None,
                                ra_must_be_consumed = anchor = None \<and> kept = []\<rparr>\<rparr>)"

definition known_or :: "sequence_state \<Rightarrow> block_ref \<Rightarrow> block_ref" where
  "known_or st incoming =
     enrich_block_ref
       (case find (\<lambda>k. same_block k incoming) (ss_history st) of
          Some k \<Rightarrow> k
        | None \<Rightarrow> (case ss_coverage st of Some h \<Rightarrow> if same_block h incoming then h else incoming | None \<Rightarrow> incoming))
       incoming"

definition note_removal :: "block_ref \<Rightarrow> sequence_acc \<Rightarrow> reactive_error + sequence_acc" where
  "note_removal dropped acc =
     and_then (ensure (opt_ok (hm_get (sa_removed_heights acc) (br_hash dropped)) (\<lambda>n. n = br_number dropped))
                 ''removed hash is reused at two heights'') (\<lambda>_.
     and_then (case hm_get (sa_removed acc) (block_key dropped) of
                 Some k \<Rightarrow>
                   if block_refs_compatible k dropped
                   then Okay (hm_insert (block_key dropped) (enrich_block_ref k dropped) (sa_removed acc))
                   else Err (InvalidChainControl ''duplicate removed block carries conflicting metadata'')
               | None \<Rightarrow> Okay (hm_insert (block_key dropped) dropped (sa_removed acc))) (\<lambda>removed.
     and_then (ensure (opt_ok (hm_get (sa_asserted acc) (br_number dropped)) (\<lambda>k. br_hash k \<noteq> br_hash dropped))
                 ''removed block is asserted canonical by the same envelope'') (\<lambda>_.
       Okay (acc\<lparr>sa_removed := removed,
                 sa_removed_heights := hm_insert (br_hash dropped) (br_number dropped) (sa_removed_heights acc)\<rparr>))))"

definition settle_removal :: "validation_policy \<Rightarrow> u64 option \<Rightarrow> block_ref \<Rightarrow> sequence_acc \<Rightarrow> sequence_error + sequence_acc" where
  "settle_removal policy oldest dropped acc =
     (let st = sa_state acc in
      if bd_contains (sa_dropped acc) dropped then Okay acc
      else case find_position (\<lambda>b. same_block b dropped) (ss_history st) of
             Some i \<Rightarrow> Okay (remove_known_block i dropped acc)
           | None \<Rightarrow>
               if list_ex (\<lambda>b. br_number b = br_number dropped \<and> br_hash b \<noteq> br_hash dropped) (ss_history st)
                  \<or> opt_is (ss_coverage st) (\<lambda>h. br_number h = br_number dropped \<and> br_hash h \<noteq> br_hash dropped)
               then Okay acc
               else if requires_complete_rollback policy
               then Err (IncompleteRollback (br_number dropped - 1) oldest RkRemoved)
               else Okay acc)"

definition removed_record ::
  "validation_policy \<Rightarrow> u64 option \<Rightarrow> reactive_input_record \<Rightarrow> block_ref \<Rightarrow> sequence_acc \<Rightarrow> sequence_error + sequence_acc" where
  "removed_record policy oldest rc signal acc =
     (let st = sa_state acc in
      and_then (lift_err SeqInvalid
        (and_then (resolve_record_block_payload_metadata rc signal) (\<lambda>incoming.
         and_then (validate_sequence_matching_metadata st incoming) (\<lambda>_.
         and_then (validate_sequence_adjacent_parent_identity st incoming) (\<lambda>_.
         and_then (validate_sequence_implicit_finality st rc None) (\<lambda>_.
         and_then (ensure (br_number incoming \<noteq> 0) ''a removed genesis block has no canonical parent anchor'') (\<lambda>_.
         and_then (note_removal (known_or st incoming) acc) (\<lambda>acc'. Okay (known_or st incoming, acc')))))))))
        (\<lambda>(dropped, acc'). settle_removal policy oldest dropped acc'))"

subsection \<open>Canonical records\<close>

definition proves_record :: "chain_control list \<Rightarrow> block_ref \<Rightarrow> bool" where
  "proves_record post b =
     list_ex (\<lambda>control. opt_is (canonical_coverage_control_block control) (\<lambda>a.
        same_block a b \<and> block_refs_compatible a b
        \<and> (br_parent_hash b = None \<and> br_parent_hash a \<noteq> None \<or> br_timestamp b = None \<and> br_timestamp a \<noteq> None))) post"

fun enrich_from :: "chain_control list \<Rightarrow> block_ref \<Rightarrow> reactive_error + block_ref" where
  "enrich_from [] b = Okay b"
| "enrich_from (control # post) b =
     (case chain_control_canonical_assertion control of
        None \<Rightarrow> enrich_from post b
      | Some a \<Rightarrow>
          if \<not> same_block a b then enrich_from post b
          else if \<not> block_refs_compatible b a
          then Err (InvalidChainControl ''canonical record conflicts with the asserted metadata'')
          else enrich_from post (enrich_block_ref b a))"

definition resolve_asserted :: "asserted_blocks \<Rightarrow> chain_control list \<Rightarrow> block_ref \<Rightarrow> reactive_error + block_ref" where
  "resolve_asserted asserted post b =
     and_then (case hm_get asserted (br_number b) of
         Some a \<Rightarrow>
           if br_hash a \<noteq> br_hash b then Okay b
           else if block_refs_compatible a b then Okay (enrich_block_ref b a)
           else Err (InvalidChainControl ''canonical record conflicts with the asserted metadata'')
       | None \<Rightarrow> Okay b) (enrich_from post)"

definition check_not_removed :: "sequence_acc \<Rightarrow> block_ref \<Rightarrow> reactive_error + unit" where
  "check_not_removed acc b = all_ok
     [ensure (hm_get (sa_removed acc) (block_key b) = None) ''canonical block is also removed by the same envelope'',
      ensure (opt_ok (hm_get (sa_removed_heights acc) (br_hash b)) (\<lambda>n. n = br_number b))
        ''canonical hash is removed at another height by the same envelope'']"

text \<open>The required anchor that a block above it has to consume.\<close>

definition anchor_for :: "sequence_acc \<Rightarrow> block_ref \<Rightarrow> required_anchor option" where
  "anchor_for acc b =
     (case sa_anchor acc of Some q \<Rightarrow> if ra_number q < br_number b then Some q else None | None \<Rightarrow> None)"

definition anchor_permits :: "required_anchor option \<Rightarrow> block_ref \<Rightarrow> bool" where
  "anchor_permits anchor b = opt_is anchor (\<lambda>q. ra_permits_missing_child_parent q \<and> checked_succ (ra_number q) = Some (br_number b))"

definition fill_parent :: "required_anchor option \<Rightarrow> block_ref \<Rightarrow> block_ref" where
  "fill_parent anchor b =
     (if br_parent_hash b = None \<and> anchor_permits anchor b
      then b\<lparr>br_parent_hash := Option.bind anchor (\<lambda>q. map_option br_hash (ra_block q))\<rparr> else b)"

definition accept_canonical :: "block_ref \<Rightarrow> bool \<Rightarrow> sequence_acc \<Rightarrow> reactive_error + sequence_acc" where
  "accept_canonical b parentless_ok acc =
     and_then (apply_sequence_canonical_block (sa_state acc) b parentless_ok) (\<lambda>(rewind, st).
       Okay (acc\<lparr>sa_state := st,
                 sa_mutations := sa_mutations acc
                   @ (case rewind of None \<Rightarrow> [] | Some (a, dropped) \<Rightarrow> [Rewind a dropped]) @ [MutCanonical b]\<rparr>))"

definition resolve_canonical ::
  "chain_control list \<Rightarrow> reactive_input_record \<Rightarrow> block_ref \<Rightarrow> sequence_acc
     \<Rightarrow> reactive_error + (block_ref \<times> required_anchor option \<times> block_ref)" where
  "resolve_canonical post rc context_block acc =
     and_then (resolve_record_block_payload_metadata rc context_block) (\<lambda>incoming.
     and_then (resolve_asserted (sa_asserted acc) post incoming) (\<lambda>resolved.
     let anchor = anchor_for acc resolved; b = fill_parent anchor resolved
     in and_then (check_not_removed acc b) (\<lambda>_. Okay (incoming, anchor, b))))"

definition check_replacement ::
  "validation_policy \<Rightarrow> u64 option \<Rightarrow> reactive_input_record \<Rightarrow> block_ref \<Rightarrow> bool \<Rightarrow> sequence_state \<Rightarrow> sequence_error + unit" where
  "check_replacement policy oldest rc b proven st =
     and_then (lift_err SeqInvalid
       (and_then (validate_sequence_matching_metadata st b) (\<lambda>_.
        and_then (validate_sequence_implicit_finality st rc (Some b)) (\<lambda>_.
        if proven then Okay False else sequence_implicit_replacement_requires_history st b policy)))) (\<lambda>needs_history.
     if needs_history \<and> requires_complete_rollback policy
     then Err (IncompleteRollback (saturating_sub (br_number b) 1) oldest RkImplicitParent)
     else Okay ())"

definition note_proof :: "chain_control list \<Rightarrow> block_ref \<Rightarrow> required_anchor option \<Rightarrow> sequence_acc \<Rightarrow> sequence_acc" where
  "note_proof post incoming anchor acc =
     acc\<lparr>sa_record_proofs := (if proves_record post incoming then List.insert (block_key incoming) (sa_record_proofs acc)
            else sa_record_proofs acc),
         sa_anchor := (if anchor = None then sa_anchor acc else None)\<rparr>"

definition canonical_record ::
  "validation_policy \<Rightarrow> u64 option \<Rightarrow> chain_control list \<Rightarrow> reactive_input_record \<Rightarrow> block_ref \<Rightarrow> sequence_acc
     \<Rightarrow> sequence_error + sequence_acc" where
  "canonical_record policy oldest post rc context_block acc =
     and_then (lift_err SeqInvalid (resolve_canonical post rc context_block acc)) (\<lambda>(incoming, anchor, b).
     and_then (validate_replacement_reorg_anchor anchor b policy oldest) (\<lambda>proven.
     and_then (check_replacement policy oldest rc b proven (sa_state acc)) (\<lambda>_.
     lift_err SeqInvalid
       (and_then (assert_canonical_block_identity (sa_asserted acc) b) (\<lambda>asserted.
        accept_canonical b (anchor_permits anchor b) ((note_proof post incoming anchor acc)\<lparr>sa_asserted := asserted\<rparr>))))))"

definition sequence_record ::
  "validation_policy \<Rightarrow> u64 option \<Rightarrow> chain_control list \<Rightarrow> reactive_input_record \<times> delivery_scope \<Rightarrow> sequence_acc
     \<Rightarrow> sequence_error + sequence_acc" where
  "sequence_record policy oldest post = (\<lambda>(rc, scope) acc.
     if \<not> advances_canonical_state scope then Okay acc
     else case reorg_signal_block rc of
            Some (signal, _) \<Rightarrow> removed_record policy oldest rc signal acc
          | None \<Rightarrow>
              (case canonical_record_block rc of
                 None \<Rightarrow> Okay acc
               | Some b \<Rightarrow> canonical_record policy oldest post rc b acc))"

subsection \<open>Post-record controls\<close>

definition redundant_coverage :: "sequence_state \<Rightarrow> block_ref \<Rightarrow> bool" where
  "redundant_coverage st b =
     opt_is (ss_coverage st) (\<lambda>h. br_number b \<le> br_number h \<and>
       opt_is (if same_block h b then Some h else find (\<lambda>e. same_block e b) (ss_history st))
         (\<lambda>k. block_refs_compatible k b \<and> (br_number b \<noteq> br_number h \<or> \<not> sequence_block_adds_metadata st b)))"

definition install_control :: "chain_control \<Rightarrow> required_anchor option \<Rightarrow> sequence_acc \<Rightarrow> reactive_error + sequence_acc" where
  "install_control control anchor acc =
     (let st = sa_state acc in
      case control of
        CcSafe b \<Rightarrow>
          (let h = set_or_enrich_block_ref (ss_safe st) b
           in Okay (acc\<lparr>sa_state := st\<lparr>ss_safe := h\<rparr>, sa_mutations := sa_mutations acc @ [MutSafe (the h)]\<rparr>))
      | CcFinalized b \<Rightarrow>
          (let h = set_or_enrich_block_ref (ss_finalized st) b
           in Okay (acc\<lparr>sa_state := st\<lparr>ss_finalized := h\<rparr>, sa_mutations := sa_mutations acc @ [MutFinalized (the h)]\<rparr>))
      | CcLogCoverage b \<Rightarrow>
          (let h = set_or_enrich_block_ref (ss_log_coverage st) b
           in Okay (acc\<lparr>sa_state := st\<lparr>ss_log_coverage := h\<rparr>, sa_mutations := sa_mutations acc @ [MutLogCoverage (the h)]\<rparr>))
      | _ \<Rightarrow>
          (case canonical_coverage_control_block control of
             None \<Rightarrow> Okay acc
           | Some b \<Rightarrow> accept_canonical b
               (anchor_permits anchor b \<or> anchor = None \<and> br_parent_hash b = None \<and> opt_is (ss_coverage st) (is_child_of b)) acc))"

definition without_block :: "chain_control \<Rightarrow> chain_control list" where
  "without_block control = (case control of CcBarrier i _ \<Rightarrow> [CcBarrier i None] | _ \<Rightarrow> [])"

definition post_record_control :: "validation_policy \<Rightarrow> u64 option \<Rightarrow> chain_control \<Rightarrow> sequence_acc \<Rightarrow> sequence_error + sequence_acc" where
  "post_record_control policy oldest control acc =
     and_then (case chain_control_canonical_assertion control of
         None \<Rightarrow> Okay ()
       | Some b \<Rightarrow> lift_err SeqInvalid (check_not_removed acc b)) (\<lambda>_.
     let covered = canonical_coverage_control_block control;
         anchor = Option.bind covered (anchor_for acc)
     in and_then (case covered of
            None \<Rightarrow> Okay False
          | Some b \<Rightarrow> validate_replacement_reorg_anchor anchor b policy oldest) (\<lambda>_.
        and_then (lift_err SeqInvalid (assert_chain_control_identities (sa_asserted acc) control)) (\<lambda>asserted.
        let acc1 = acc\<lparr>sa_anchor := (if anchor = None then sa_anchor acc else None), sa_asserted := asserted\<rparr>
        in if normalizes_coverage policy
              \<and> opt_is covered (\<lambda>b. block_key b \<notin> set (sa_record_proofs acc) \<and> redundant_coverage (sa_state acc) b)
           then Okay (acc1\<lparr>sa_controls := sa_controls acc @ without_block control\<rparr>)
           else lift_err SeqInvalid (and_then (validate_sequence_control (sa_state acc) control) (\<lambda>_.
                  install_control control anchor (acc1\<lparr>sa_controls := sa_controls acc @ [control]\<rparr>))))))"

subsection \<open>The validator\<close>

definition validate_canonical_sequence_parts ::
  "sequence_state \<Rightarrow> chain_control list \<Rightarrow> (reactive_input_record \<times> delivery_scope) list \<Rightarrow> validation_policy
     \<Rightarrow> sequence_error + sequence_validation" where
  "validate_canonical_sequence_parts initial controls records policy =
     and_then (lift_err SeqInvalid (validate_canonical_sequence_snapshot initial)) (\<lambda>_.
     and_then (lift_err SeqInvalid (validate_control_phase_order controls)) (\<lambda>split.
     let pre = take split controls; post = drop split controls;
         oldest = (case ss_history initial of [] \<Rightarrow> None | b # _ \<Rightarrow> Some (br_number b))
     in and_then (fold_result (pre_record_control policy oldest) pre (start_acc initial)) (\<lambda>acc1.
        and_then (fold_result (sequence_record policy oldest post) records acc1) (\<lambda>acc2.
        and_then (fold_result (post_record_control policy oldest) post acc2) (\<lambda>acc3.
        if requires_complete_rollback policy \<and> opt_is (sa_anchor acc3) ra_must_be_consumed
        then Err (IncompleteRollback (case sa_anchor acc3 of Some q \<Rightarrow> ra_number q | None \<Rightarrow> 0) oldest RkMissingReplacement)
        else and_then (lift_err SeqInvalid (validate_canonical_sequence_snapshot (sa_state acc3))) (\<lambda>_.
          Okay \<lparr>sv_pre_record_state = sa_state acc1, sv_next_state = sa_state acc3,
                sv_mutations = sa_mutations acc3, sv_normalized_controls = sa_controls acc3\<rparr>))))))"

end
