(* ===== verification/Sequence_Props.thy ===== *)
theory Sequence_Props
  imports Canonical_Sequence
begin

text \<open>
  What the validator of canonical envelopes guarantees: the retained history stays strictly ascending, and a
  finalized head that the history retains is never given up.
\<close>

section \<open>Results of checks\<close>

lemma and_then_okay: "and_then x f = Inr y \<longleftrightarrow> (\<exists>z. x = Inr z \<and> f z = Inr y)"
  by (cases x) auto

lemma lift_err_okay [simp]: "lift_err g x = Inr y \<longleftrightarrow> x = Inr y"
  by (cases x) auto

lemma ensure_okay [simp]: "ensure ok m = Inr u \<longleftrightarrow> ok"
  by (auto simp: ensure_def)

lemma all_ok_Cons [simp]: "all_ok (x # xs) = Inr u \<longleftrightarrow> x = Inr () \<and> all_ok xs = Inr ()"
  by (cases x) auto

lemma all_ok_Nil [simp]: "all_ok [] = Inr u"
  by simp

declare all_ok.simps [simp del]

lemmas okay_simps = and_then_okay opt_ok_def opt_is_def

lemma fold_result_invariant:
  assumes "fold_result f xs acc = Inr acc'" and "P acc" and "\<And>x a a'. x \<in> set xs \<Longrightarrow> P a \<Longrightarrow> f x a = Inr a' \<Longrightarrow> P a'"
  shows "P acc'"
  using assms by (induction xs arbitrary: acc) (auto simp: and_then_okay)

section \<open>Ascending histories\<close>

definition ascending :: "block_ref list \<Rightarrow> bool" where
  "ascending hs = sorted_wrt (<) (map br_number hs)"

lemma ascending_Nil [simp]: "ascending []"
  by (simp add: ascending_def)

lemma ascending_append:
  "ascending (xs @ ys) \<longleftrightarrow> ascending xs \<and> ascending ys \<and> (\<forall>x \<in> set xs. \<forall>y \<in> set ys. br_number x < br_number y)"
  by (simp add: ascending_def sorted_wrt_append)

lemma ascending_Cons: "ascending (x # ys) \<longleftrightarrow> ascending ys \<and> (\<forall>y \<in> set ys. br_number x < br_number y)"
  using ascending_append [of "[x]" ys] by (auto simp: ascending_def)

lemma ascending_unique: "ascending hs \<Longrightarrow> x \<in> set hs \<Longrightarrow> y \<in> set hs \<Longrightarrow> br_number x = br_number y \<Longrightarrow> x = y"
  by (induction hs) (auto simp: ascending_Cons)

lemma ascending_sublists:
  assumes "ascending hs"
  shows "ascending (take n hs)" "ascending (drop n hs)" "ascending (filter P hs)" "ascending (takeWhile P hs)"
  using assms by (auto simp: ascending_def take_map drop_map sorted_wrt_take sorted_wrt_drop sorted_wrt_map intro: sorted_wrt_filter)

lemma check_history_ascending:
  "check_history prior hs = Inr u \<Longrightarrow> ascending hs \<and> (\<forall>p. prior = Some p \<longrightarrow> (\<forall>b \<in> set hs. br_number p < br_number b))"
proof (induction prior hs arbitrary: u rule: check_history.induct)
  case (2 prior b bs)
  then have rest: "check_history (Some b) bs = Inr u" by (auto simp: and_then_okay)
  have "br_number p < br_number b" if "prior = Some p" for p
    using 2(2) that by (auto simp: and_then_okay)
  then show ?case using 2(1) [OF rest] by (fastforce simp: ascending_Cons)
qed simp

lemma last_ascending: "ascending hs \<Longrightarrow> x \<in> set hs \<Longrightarrow> br_number x < br_number (last hs) \<or> x = last hs"
  by (induction hs) (auto simp: ascending_Cons)

section \<open>Upserts\<close>

lemma upsert_entry_shape:
  "upsert_entry hs b = Inr r \<Longrightarrow>
   (case r of None \<Rightarrow> br_number b \<notin> br_number ` set hs
    | Some hs' \<Rightarrow> \<exists>xs e ys. hs = xs @ e # ys \<and> hs' = xs @ enrich_block_ref e b # ys \<and> same_block e b)"
proof (induction hs b arbitrary: r rule: upsert_entry.induct)
  case (2 e es b)
  show ?case
  proof (cases "br_number e = br_number b")
    case True
    with 2(2) have "r = Some (enrich_block_ref e b # es)" "same_block e b" by (auto simp: same_block_def split: if_splits)
    then show ?thesis by fastforce
  next
    case False
    with 2(2) obtain q where q: "upsert_entry es b = Inr q" and r: "r = map_option ((#) e) q" by (auto simp: and_then_okay)
    show ?thesis
    proof (cases q)
      case None
      with 2(1) [OF False q] False r show ?thesis by auto
    next
      case (Some hs')
      with 2(1) [OF False q] obtain xs k ys where "es = xs @ k # ys" "hs' = xs @ enrich_block_ref k b # ys" "same_block k b" by auto
      with r Some show ?thesis by (auto intro: exI [of _ "e # xs"])
    qed
  qed
qed simp

lemma ascending_enrich: "ascending (xs @ enrich_block_ref e b # ys) \<longleftrightarrow> ascending (xs @ e # ys)"
  by (simp add: ascending_def)

lemma sort_key_ascending:
  assumes "ascending hs" and "br_number b \<notin> br_number ` set hs"
  shows "ascending (sort_key br_number (hs @ [b]))"
proof -
  have "distinct (map br_number (hs @ [b]))"
    using assms by (auto simp: ascending_def strict_sorted_iff)
  then have "distinct (map br_number (sort_key br_number (hs @ [b])))"
    by (metis distinct_map distinct_sort set_sort)
  then show ?thesis by (simp add: ascending_def strict_sorted_iff)
qed

lemma upsert_history:
  assumes "upsert_sequence_history hs b = Inr hs'" and "ascending hs"
  shows "ascending hs'" and "\<And>e. e \<in> set hs \<Longrightarrow> \<exists>e' \<in> set hs'. same_block e' e" and "\<exists>e \<in> set hs'. same_block e b"
    and "\<And>e'. e' \<in> set hs' \<Longrightarrow> same_block e' b \<or> (\<exists>e \<in> set hs. same_block e' e)"
proof -
  from assms(1) obtain r where r: "upsert_entry hs b = Inr r"
    and hs': "hs' = (case r of Some h \<Rightarrow> h | None \<Rightarrow> sort_key br_number (hs @ [b]))"
    by (auto simp: upsert_sequence_history_def and_then_okay)
  have "ascending hs' \<and> (\<forall>e \<in> set hs. \<exists>e' \<in> set hs'. same_block e' e) \<and> (\<exists>e \<in> set hs'. same_block e b)
    \<and> (\<forall>e' \<in> set hs'. same_block e' b \<or> (\<exists>e \<in> set hs. same_block e' e))"
  proof (cases r)
    case None
    with upsert_entry_shape [OF r] have "br_number b \<notin> br_number ` set hs" by simp
    from sort_key_ascending [OF assms(2) this] None show ?thesis
      by (simp add: hs') (use same_block_refl in blast)
  next
    case (Some h)
    with upsert_entry_shape [OF r] obtain xs e ys where "hs = xs @ e # ys" "h = xs @ enrich_block_ref e b # ys" "same_block e b" by auto
    with Some assms(2) show ?thesis
      by (simp add: hs' ascending_enrich) (use same_block_refl in blast)
  qed
  then show "ascending hs'" "\<And>e. e \<in> set hs \<Longrightarrow> \<exists>e' \<in> set hs'. same_block e' e" "\<exists>e \<in> set hs'. same_block e b"
    "\<And>e'. e' \<in> set hs' \<Longrightarrow> same_block e' b \<or> (\<exists>e \<in> set hs. same_block e' e)" by blast+
qed

section \<open>Finality\<close>

definition retains :: "block_ref \<Rightarrow> sequence_state \<Rightarrow> bool" where
  "retains f st \<longleftrightarrow> ascending (ss_history st) \<and> ss_finalized st = Some f \<and> (\<exists>e \<in> set (ss_history st). same_block e f)"

lemma same_block_trans: "same_block a b \<Longrightarrow> same_block b c \<Longrightarrow> same_block a c"
  and same_block_sym: "same_block a b \<Longrightarrow> same_block b a"
  by (simp_all add: same_block_def)

lemma upsert_retains:
  assumes "upsert_sequence_history hs b = Inr hs'" and "ascending hs" and "\<exists>e \<in> set hs. same_block e f"
  shows "ascending hs' \<and> (\<exists>e \<in> set hs'. same_block e f)"
  using upsert_history [OF assms(1,2)] assms(3) by (meson same_block_trans)

lemma retain_head_keeps: "\<not> passes f a \<Longrightarrow> retain_head (Some a) (Some f) = Some f"
  by (auto simp: retain_head_def passes_def)

lemma passes_same: "same_block a b \<Longrightarrow> passes f a = passes f b"
  by (auto simp: passes_def same_block_def)

lemma not_passes_entry:
  assumes "ascending hs" and "e \<in> set hs" and "same_block e f" and "x \<in> set hs" and "br_number f \<le> br_number x"
  shows "\<not> passes f x"
proof (cases "br_number x = br_number e")
  case True
  with ascending_unique [OF assms(1,4,2)] assms(3) show ?thesis by (simp add: passes_def same_block_def)
qed (use assms(3,5) in \<open>auto simp: passes_def same_block_def\<close>)

lemma rewind_to_retains:
  assumes "rewind_to a old control asserted acc = Inr acc'" and r: "retains f (sa_state acc)" and np: "\<not> passes f a"
  shows "retains f (sa_state acc')"
proof -
  let ?hs = "ss_history (sa_state acc)"
  from assms(1) obtain h1 a2 h2 where h1: "upsert_sequence_history (filter (\<lambda>b. br_number b \<le> br_number a) ?hs) a = Inr h1"
    and h2: "upsert_sequence_history h1 a2 = Inr h2" and a2: "same_block a2 a"
    and st: "sa_state acc' = clear_sequence_heads_above a2 ((sa_state acc)\<lparr>ss_history := h2, ss_coverage := Some a2\<rparr>)"
    by (auto simp: rewind_to_def Let_def and_then_okay split: option.splits if_splits)
  have "ascending (filter (\<lambda>b. br_number b \<le> br_number a) ?hs)" "\<exists>e \<in> set (filter (\<lambda>b. br_number b \<le> br_number a) ?hs). same_block e f"
    using r np ascending_sublists by (auto simp: retains_def passes_def same_block_def)
  then have "ascending h2 \<and> (\<exists>e \<in> set h2. same_block e f)"
    using upsert_retains [OF h1] upsert_retains [OF h2] by blast
  with r np show ?thesis
    by (simp add: st retains_def clear_sequence_heads_above_def retain_head_keeps passes_same [OF a2])
qed

lemma pre_record_retains:
  assumes "pre_record_control policy oldest control acc = Inr acc'" and "retains f (sa_state acc)"
  shows "retains f (sa_state acc')"
proof (cases control)
  case (CcReorg a old new)
  with assms have "\<not> passes f a" "\<exists>asserted. rewind_to a old control asserted acc = Inr acc'"
    by (auto simp: and_then_okay validate_reorg_control_def Let_def opt_ok_def retains_def split: if_splits)
  with rewind_to_retains assms(2) show ?thesis by blast
qed (use assms in auto)

lemma find_position_Some:
  "find_position P xs = Some i \<Longrightarrow> i < length xs \<and> P (xs ! i) \<and> (\<forall>j < i. \<not> P (xs ! j))"
proof (induction xs arbitrary: i)
  case (Cons x xs)
  then show ?case by (cases i) (auto simp: less_Suc_eq_0_disj split: if_splits)
qed simp

lemma entry_below_kept:
  assumes "ascending hs" and "i < length hs" and "e \<in> set hs" and "br_number e < br_number (hs ! i)"
  shows "e \<in> set (take i hs)"
proof -
  obtain j where j: "j < length hs" "e = hs ! j" using assms(3) by (auto simp: in_set_conv_nth)
  have "j < i"
  proof (rule ccontr)
    assume "\<not> j < i"
    then have "j = i \<or> i < j" by auto
    then show False
      using assms j sorted_wrt_nth_less [of "(<)" "map br_number hs" i j] by (auto simp: ascending_def)
  qed
  with j show ?thesis by (auto simp: in_set_conv_nth)
qed

lemma find_Some: "find P xs = Some k \<Longrightarrow> k \<in> set xs \<and> P k"
  by (auto simp: find_Some_iff)

lemma removal_anchor_retained:
  assumes "removal_anchor st n kept d = (Some k, anchor)"
  shows "k \<in> set kept \<and> br_number k = n \<and> (\<exists>a. anchor = Some a \<and> same_block a k)"
proof -
  have k: "find (\<lambda>h. br_number h = n) (rev kept) = Some k" using assms by (simp add: removal_anchor_def Let_def)
  have "\<exists>a. anchor = Some a \<and> same_block a k"
    using assms by (simp add: removal_anchor_def Let_def k) (auto split: option.splits)
  with k show ?thesis using find_Some by fastforce
qed

lemma removal_anchor_unretained:
  assumes "removal_anchor st n kept d = (None, Some a)"
  shows "br_number a = n \<and> (\<forall>e \<in> set kept. br_number e \<noteq> n)"
proof -
  have none: "find (\<lambda>h. br_number h = n) (rev kept) = None" using assms by (simp add: removal_anchor_def Let_def)
  then have "br_number a = n"
    using assms by (auto simp: removal_anchor_def Let_def or_else.simps split: option.splits if_splits elim!: or_else.elims)
  with none show ?thesis by (auto simp: find_None_iff)
qed

lemma remove_known_retains:
  assumes pos: "find_position (\<lambda>b. same_block b d) (ss_history (sa_state acc)) = Some i"
    and r: "retains f (sa_state acc)" and above: "br_number f < br_number d"
  shows "retains f (sa_state (remove_known_block i d acc))"
proof -
  let ?st = "sa_state acc" and ?hs = "ss_history (sa_state acc)"
  let ?kept = "take i ?hs" and ?n = "br_number d - 1"
  obtain retained anchor where ra: "removal_anchor ?st ?n ?kept d = (retained, anchor)" by (cases "removal_anchor ?st ?n ?kept d")
  obtain e where e: "e \<in> set ?hs" "same_block e f" using r by (auto simp: retains_def)
  have asc: "ascending ?kept" using r ascending_sublists by (auto simp: retains_def)
  have ek: "e \<in> set ?kept"
    using entry_below_kept [of ?hs i e] find_position_Some [OF pos] r e above by (auto simp: retains_def same_block_def)
  have le: "br_number f \<le> ?n" using above by unat_arith
  have np: "\<not> passes f h" if "or_else anchor (if ?kept = [] then None else Some (last ?kept)) = Some h" for h
  proof (cases anchor)
    case None
    with that ek have "h = last ?kept" by (auto split: if_splits)
    then show ?thesis using not_passes_entry [OF asc ek e(2), of h] last_ascending [OF asc ek] ek e(2) by (force simp: same_block_def passes_def)
  next
    case (Some a)
    then have "h = a" using that by simp
    show ?thesis
    proof (cases retained)
      case (Some k)
      then have "k \<in> set ?kept" "br_number k = ?n" "same_block a k"
        using removal_anchor_retained [of ?st ?n ?kept d k anchor] ra \<open>anchor = Some a\<close> by auto
      then show ?thesis using not_passes_entry [OF asc ek e(2)] le passes_same \<open>h = a\<close> by metis
    next
      case None
      then have "br_number e \<noteq> ?n" "br_number a = ?n"
        using removal_anchor_unretained [of ?st ?n ?kept d a] ra ek \<open>anchor = Some a\<close> by auto
      then show ?thesis using le e(2) \<open>h = a\<close> by (auto simp: passes_def same_block_def)
    qed
  qed
  obtain h where h: "or_else anchor (if ?kept = [] then None else Some (last ?kept)) = Some h"
    using ek by (cases anchor; cases "?kept = []") auto
  have "retain_head (Some h) (Some f) = Some f" by (rule retain_head_keeps [OF np [OF h]])
  then show ?thesis
    using r asc ek e(2) h
    by (auto simp: remove_known_block_def Let_def ra retains_def clear_sequence_heads_def clear_sequence_heads_above_def)
qed

lemma removed_record_retains:
  assumes "removed_record policy oldest rc signal acc = Inr acc'" and r: "retains f (sa_state acc)"
    and sig: "reorg_signal_block rc = Some (signal, reason)"
  shows "retains f (sa_state acc')"
proof -
  let ?st = "sa_state acc"
  from assms(1) obtain incoming acc1 where inc: "resolve_record_block_payload_metadata rc signal = Inr incoming"
    and fin: "validate_sequence_implicit_finality ?st rc None = Inr ()"
    and note1: "note_removal (known_or ?st incoming) acc = Inr acc1"
    and settle: "settle_removal policy oldest (known_or ?st incoming) acc1 = Inr acc'"
    by (auto simp: removed_record_def Let_def and_then_okay)
  have st: "sa_state acc1 = ?st" using note1 by (auto simp: note_removal_def and_then_okay)
  have num: "br_number incoming = br_number signal" using inc
    by (auto simp: resolve_record_block_payload_metadata_def split: reactive_input.splits option.splits if_splits)
  have "br_number (known_or ?st incoming) = br_number incoming"
    by (auto simp: known_or_def same_block_def find_Some_iff split: option.splits if_splits)
  moreover have "br_number f < br_number signal"
    using fin r sig by (auto simp: validate_sequence_implicit_finality_def retains_def)
  ultimately have above: "br_number f < br_number (known_or ?st incoming)" by (simp add: num)
  have r1: "retains f (sa_state acc1)" using r by (simp add: st)
  show ?thesis
    using settle r1 remove_known_retains [OF _ r1 above]
    by (auto simp: settle_removal_def Let_def split: option.splits if_splits)
qed

lemma find_rposition_Some:
  assumes "find_rposition P xs = Some i"
  shows "i < length xs \<and> P (xs ! i) \<and> (\<forall>j < length xs. i < j \<longrightarrow> \<not> P (xs ! j))"
proof -
  obtain k where k: "find_position P (rev xs) = Some k" "i = length xs - 1 - k" using assms by (auto simp: find_rposition_def)
  have "k < length xs" "P (rev xs ! k)" "\<forall>j < k. \<not> P (rev xs ! j)" using find_position_Some [OF k(1)] by auto
  moreover have "\<not> P (xs ! j)" if "j < length xs" "i < j" for j
    using that k(2) calculation(1) calculation(3) [rule_format, of "length xs - 1 - j"] by (simp add: rev_nth)
  ultimately show ?thesis using k(2) by (simp add: rev_nth)
qed

lemma drop_entries: "\<not> list_ex P (drop n xs) \<Longrightarrow> x \<in> set xs \<Longrightarrow> P x \<Longrightarrow> x \<in> set (take n xs)"
  by (metis Un_iff append_take_drop_id list_ex_iff set_append)

lemma entry_in_takeWhile: "ascending hs \<Longrightarrow> e \<in> set hs \<Longrightarrow> br_number e \<le> n \<Longrightarrow> e \<in> set (takeWhile (\<lambda>k. br_number k \<le> n) hs)"
  by (induction hs) (auto simp: ascending_Cons)

lemma keeps_branch_weaken: "keeps_branch hs l b False \<Longrightarrow> keeps_branch hs l b p"
  by (auto simp: keeps_branch_def extends_head_def)

lemma apply_block_retains:
  assumes app: "apply_sequence_canonical_block st b parentless_ok = Inr (rw, st')" and r: "retains f st"
    and fin: "validate_sequence_implicit_finality st rc (Some b) = Inr ()" and nosig: "reorg_signal_block rc = None"
  shows "retains f st'"
proof (cases "opt_is (ss_coverage st) (\<lambda>latest. \<not> keeps_branch (ss_history st) latest b parentless_ok)")
  case False
  then obtain h where "upsert_sequence_history (ss_history st) b = Inr h" "ss_history st' = h" "ss_finalized st' = ss_finalized st"
    using app by (auto simp: apply_sequence_canonical_block_def Let_def and_then_okay)
  with upsert_retains [of "ss_history st" b h f] r show ?thesis by (auto simp: retains_def)
next
  case True
  obtain latest where cov: "ss_coverage st = Some latest" and nk: "\<not> keeps_branch (ss_history st) latest b False"
    using True keeps_branch_weaken by (auto simp: opt_is_def split: option.splits)
  obtain e where e: "e \<in> set (ss_history st)" "same_block e f" and asc: "ascending (ss_history st)" and f: "ss_finalized st = Some f"
    using r by (auto simp: retains_def)
  have above: "br_number f < br_number b" "br_parent_hash b \<noteq> None"
    and anch: "is_child_of b f \<and> br_parent_hash b = Some (br_hash f) \<or>
      (\<exists>i. parent_at (ss_history st) b = Some i \<and> \<not> list_ex (\<lambda>e. br_number e \<le> br_number f) (drop (i + 1) (ss_history st)))"
    using fin nosig nk by (auto simp: validate_sequence_implicit_finality_def f cov split: if_splits option.splits)
  obtain anchor kept dropped where rw: "rewind_for st b = (anchor, kept, dropped)" by (cases "rewind_for st b")
  have kept: "\<exists>a. anchor = Some a \<and> \<not> passes f a \<and> ascending kept \<and> e \<in> set kept"
  proof (cases "parent_at (ss_history st) b")
    case (Some i)
    then have p: "i < length (ss_history st)" "is_child_of b (ss_history st ! i)" "br_parent_hash b = Some (br_hash (ss_history st ! i))"
      using find_rposition_Some by (auto simp: parent_at_def split: option.splits)
    have le: "br_number f \<le> br_number (ss_history st ! i)"
      using p(2) above(1) by (auto simp: is_child_of_def checked_succ_def split: if_splits) unat_arith
    have "e \<in> set (take (i + 1) (ss_history st))"
    proof (cases "br_number e = br_number (ss_history st ! i)")
      case True
      then have "e = ss_history st ! i" using ascending_unique [OF asc e(1), of "ss_history st ! i"] p(1) by simp
      with p(1) show ?thesis by (simp add: take_Suc_conv_app_nth)
    next
      case False
      then have "br_number e < br_number (ss_history st ! i)" using le e(2) by (simp add: same_block_def)
      from entry_below_kept [OF asc p(1) e(1) this] show ?thesis using p(1) by (simp add: take_Suc_conv_app_nth)
    qed
    moreover have "\<not> passes f (ss_history st ! i)" by (rule not_passes_entry [OF asc e _ le]) (use p(1) in simp)
    ultimately show ?thesis using rw Some ascending_sublists(1) [OF asc] by (auto simp: rewind_for_def Let_def)
  next
    case None
    then have fp: "finalized_parent st b = Some f" using anch by (auto simp: finalized_parent_def f)
    have "e \<in> set (takeWhile (\<lambda>k. br_number k \<le> br_number f) (ss_history st))"
      using entry_in_takeWhile [OF asc e(1)] e(2) by (simp add: same_block_def)
    then show ?thesis using rw ascending_sublists(4) [OF asc] by (auto simp: rewind_for_def Let_def passes_def None fp)
  qed
  then obtain a where a: "anchor = Some a" "\<not> passes f a" "ascending kept" "e \<in> set kept" by blast
  then obtain h where "upsert_sequence_history kept b = Inr h" "ss_history st' = h" "ss_finalized st' = retain_head (Some a) (ss_finalized st)"
    using app True rw by (auto simp: apply_sequence_canonical_block_def Let_def and_then_okay clear_sequence_heads_def clear_sequence_heads_above_def)
  with upsert_retains [of kept b h f] a e(2) f retain_head_keeps show ?thesis by (auto simp: retains_def)
qed

lemma canonical_record_steps:
  assumes "canonical_record policy oldest post rc cb acc = Inr acc'"
  obtains incoming anchor b proven asserted rw where "resolve_canonical post rc cb acc = Inr (incoming, anchor, b)"
    "validate_replacement_reorg_anchor anchor b policy oldest = Inr proven"
    "check_replacement policy oldest rc b proven (sa_state acc) = Inr ()"
    "assert_canonical_block_identity (sa_asserted acc) b = Inr asserted"
    "apply_sequence_canonical_block (sa_state acc) b (anchor_permits anchor b) = Inr (rw, sa_state acc')"
  using assms by (fastforce simp: canonical_record_def and_then_okay accept_canonical_def note_proof_def)

lemma check_replacement_finality:
  "check_replacement policy oldest rc b proven st = Inr () \<Longrightarrow> validate_sequence_implicit_finality st rc (Some b) = Inr ()"
  by (auto simp: check_replacement_def and_then_okay)

lemma canonical_record_retains:
  assumes "canonical_record policy oldest post rc cb acc = Inr acc'" and "retains f (sa_state acc)" and "reorg_signal_block rc = None"
  shows "retains f (sa_state acc')"
  using assms(1)
  by (rule canonical_record_steps) (rule apply_block_retains [OF _ assms(2) check_replacement_finality assms(3)])

lemma sequence_record_retains:
  "sequence_record policy oldest post r acc = Inr acc' \<Longrightarrow> retains f (sa_state acc) \<Longrightarrow> retains f (sa_state acc')"
proof -
  assume step: "sequence_record policy oldest post r acc = Inr acc'" and ret: "retains f (sa_state acc)"
  obtain rc scope where r: "r = (rc, scope)" by (cases r)
  show ?thesis
  proof (cases "advances_canonical_state scope")
    case False
    with step ret show ?thesis by (simp add: sequence_record_def r)
  next
    case True
    show ?thesis
    proof (cases "reorg_signal_block rc")
      case None
      with True step ret canonical_record_retains [OF _ ret None] show ?thesis
        by (cases "canonical_record_block rc") (auto simp: sequence_record_def r)
    next
      case (Some p)
      obtain signal reason where p: "p = (signal, reason)" by (cases p)
      with True step Some have "removed_record policy oldest rc signal acc = Inr acc'" by (simp add: sequence_record_def r)
      with removed_record_retains [OF _ ret] Some p show ?thesis by blast
    qed
  qed
qed

text \<open>Controls after the records may raise the finalized head.\<close>

definition finalized_from :: "block_ref \<Rightarrow> sequence_state \<Rightarrow> bool" where
  "finalized_from f st \<longleftrightarrow> (\<exists>f'. ss_finalized st = Some f' \<and> (br_number f < br_number f' \<or> same_block f' f))"

lemma word_succ_cases: "(c :: u64) \<le> b \<Longrightarrow> b = c \<or> c \<noteq> - 1 \<and> c + 1 = b \<or> c \<noteq> - 1 \<and> c + 1 < b"
proof -
  assume "c \<le> b"
  moreover have "c \<noteq> - 1 \<and> c + 1 \<le> b" if "c < b" using that inc_le [of c b] by auto
  ultimately show ?thesis by (auto simp: order.order_iff_strict)
qed

lemma coverage_control_keeps_branch:
  assumes v: "validate_coverage_control st b = Inr ()" and cov: "ss_coverage st = Some c"
    and anch: "validate_replacement_reorg_anchor anchor b policy oldest = Inr proven" and pol: "requires_complete_rollback policy"
    and above: "\<forall>q. anchor = Some q \<longrightarrow> ra_number q < br_number b"
  shows "keeps_branch (ss_history st) c b (anchor_permits anchor b \<or> anchor = None \<and> br_parent_hash b = None \<and> opt_is (ss_coverage st) (is_child_of b))"
proof -
  have np: "\<not> passes c b" and child: "\<not> (is_child_of b c \<and> br_parent_hash b \<noteq> None \<and> br_parent_hash b \<noteq> Some (br_hash c))"
    using v by (auto simp: validate_coverage_control_def opt_ok_def cov)
  consider "br_number b = br_number c" | "is_child_of b c" | "skips_ahead c b"
  proof -
    have "br_number c \<le> br_number b" using np by (auto simp: passes_def)
    then have "br_number b = br_number c \<or> is_child_of b c \<or> skips_ahead c b"
      using word_succ_cases [of "br_number c" "br_number b"] by (auto simp: is_child_of_def skips_ahead_def checked_succ_def)
    then show thesis using that by blast
  qed
  then show ?thesis
  proof cases
    case 1
    with np show ?thesis by (auto simp: keeps_branch_def passes_def same_block_def)
  next
    case 3
    then show ?thesis by (simp add: keeps_branch_def)
  next
    case 2
    show ?thesis
    proof (cases "br_parent_hash b")
      case (Some p)
      with child 2 show ?thesis by (auto simp: keeps_branch_def extends_head_def is_child_of_def)
    next
      case None
      have "anchor_permits anchor b" if "anchor = Some q" for q
        using anch pol above that None
        by (auto simp: validate_replacement_reorg_anchor_def validate_required_reorg_anchor_def opt_ok_def Let_def anchor_permits_def opt_is_def
            split: sum.splits if_splits)
      then have "anchor_permits anchor b \<or> anchor = None" by (cases anchor) auto
      with 2 None show ?thesis by (auto simp: keeps_branch_def extends_head_def is_child_of_def opt_is_def cov)
    qed
  qed
qed

lemma covered_control:
  "canonical_coverage_control_block control = Some b \<Longrightarrow> validate_sequence_control st control = validate_coverage_control st b"
  by (cases control rule: canonical_coverage_control_block.cases) auto

lemma post_record_steps:
  fixes control acc
  defines "anchor \<equiv> Option.bind (canonical_coverage_control_block control) (anchor_for acc)"
  assumes "post_record_control policy oldest control acc = Inr acc'"
  obtains "sa_state acc' = sa_state acc"
    | acc1 where "sa_state acc1 = sa_state acc" "validate_sequence_control (sa_state acc) control = Inr ()" "install_control control anchor acc1 = Inr acc'"
        "\<forall>b. canonical_coverage_control_block control = Some b \<longrightarrow> (\<exists>proven. validate_replacement_reorg_anchor anchor b policy oldest = Inr proven)"
proof -
  from assms(2) obtain proven asserted acc1 where
    pr: "(case canonical_coverage_control_block control of None \<Rightarrow> Okay False | Some b \<Rightarrow> validate_replacement_reorg_anchor anchor b policy oldest) = Inr proven"
    and acc1: "acc1 = acc\<lparr>sa_anchor := (if anchor = None then sa_anchor acc else None), sa_asserted := asserted\<rparr>"
    and res: "(if normalizes_coverage policy
              \<and> opt_is (canonical_coverage_control_block control) (\<lambda>b. block_key b \<notin> set (sa_record_proofs acc) \<and> redundant_coverage (sa_state acc) b)
           then Okay (acc1\<lparr>sa_controls := sa_controls acc @ without_block control\<rparr>)
           else lift_err SeqInvalid (and_then (validate_sequence_control (sa_state acc) control) (\<lambda>_.
                  install_control control anchor (acc1\<lparr>sa_controls := sa_controls acc @ [control]\<rparr>)))) = Inr acc'"
    by (auto simp only: post_record_control_def Let_def and_then_okay anchor_def)
  have a: "\<forall>b. canonical_coverage_control_block control = Some b \<longrightarrow> (\<exists>proven. validate_replacement_reorg_anchor anchor b policy oldest = Inr proven)"
    using pr by auto
  have st: "sa_state (acc1\<lparr>sa_controls := x\<rparr>) = sa_state acc" for x by (simp add: acc1)
  show thesis
  proof (cases "sa_state acc' = sa_state acc")
    case False
    with res st have "validate_sequence_control (sa_state acc) control = Inr ()"
      "install_control control anchor (acc1\<lparr>sa_controls := sa_controls acc @ [control]\<rparr>) = Inr acc'"
      by (auto simp: and_then_okay split: if_splits)
    then show thesis using that(2) [OF st] a by blast
  qed (rule that(1))
qed

lemma set_or_enrich_finalized:
  assumes "validate_head_control (Some g) b m = Inr ()" and "br_number f < br_number g \<or> same_block g f"
  shows "\<exists>f'. set_or_enrich_block_ref (Some g) b = Some f' \<and> (br_number f < br_number f' \<or> same_block f' f)"
proof (cases "same_block g b")
  case True
  then have "set_or_enrich_block_ref (Some g) b = Some (enrich_block_ref g b)" by (simp add: set_or_enrich_block_ref_def)
  with assms(2) show ?thesis by (metis enrich_block_ref_identity(1,3))
next
  case False
  have "\<not> br_number b < br_number g" "br_number b = br_number g \<longrightarrow> br_hash b = br_hash g"
    using assms(1) by (simp_all add: validate_head_control_def opt_ok_def)
  with False have "br_number g < br_number b" unfolding same_block_def by (metis linorder_neqE)
  then have "br_number f < br_number b" using assms(2) unfolding same_block_def by (metis less_trans)
  with False show ?thesis by (simp add: set_or_enrich_block_ref_def)
qed

lemma uncovered_control_finalized:
  assumes "sa_state acc1 = st" and "validate_sequence_control st control = Inr ()" and "install_control control anchor acc1 = Inr acc'"
    and "\<forall>b. canonical_coverage_control_block control = Some b \<longrightarrow> Q b"
    and "finalized_from f st" and "canonical_coverage_control_block control = None"
  shows "finalized_from f (sa_state acc')"
proof (cases control)
  case (CcFinalized b)
  obtain g where g: "ss_finalized st = Some g" "br_number f < br_number g \<or> same_block g f" using assms(5) by (auto simp: finalized_from_def)
  have "validate_head_control (Some g) b ''finalized head conflicts with current'' = Inr ()" using assms(2) g(1) CcFinalized by simp
  from set_or_enrich_finalized [OF this g(2)] show ?thesis
    using assms(3) by (auto simp: install_control_def Let_def finalized_from_def assms(1) g(1) CcFinalized)
next
  case (CcSafe b)
  then show ?thesis using assms(3,5) by (auto simp: install_control_def Let_def finalized_from_def assms(1))
next
  case (CcLogCoverage b)
  then show ?thesis using assms(3,5) by (auto simp: install_control_def Let_def finalized_from_def assms(1))
qed (use assms(1,3,5,6) in \<open>simp_all add: install_control_def Let_def split: option.splits\<close>)

lemma post_record_finalized:
  assumes step: "post_record_control policy oldest control acc = Inr acc'" and fin: "finalized_from f (sa_state acc)"
    and pol: "requires_complete_rollback policy"
  shows "finalized_from f (sa_state acc')"
proof -
  let ?st = "sa_state acc" and ?cov = "canonical_coverage_control_block control"
  let ?anchor = "Option.bind ?cov (anchor_for acc)"
  from step consider "sa_state acc' = ?st"
    | acc1 where "sa_state acc1 = ?st" "validate_sequence_control ?st control = Inr ()" "install_control control ?anchor acc1 = Inr acc'"
        "\<forall>b. ?cov = Some b \<longrightarrow> (\<exists>proven. validate_replacement_reorg_anchor ?anchor b policy oldest = Inr proven)"
    by (rule post_record_steps)
  then show ?thesis
  proof cases
    case 1
    with fin show ?thesis by simp
  next
    case (2 acc1)
    show ?thesis
    proof (cases ?cov)
      case None
      from 2 fin None show ?thesis
        by (rule uncovered_control_finalized)
    next
      case (Some b)
      then have inst: "accept_canonical b (anchor_permits ?anchor b \<or> ?anchor = None \<and> br_parent_hash b = None \<and> opt_is (ss_coverage ?st) (is_child_of b)) acc1 = Inr acc'"
        using 2(1,3) by (cases control rule: canonical_coverage_control_block.cases) (auto simp: install_control_def Let_def)
      obtain proven where pr: "validate_replacement_reorg_anchor ?anchor b policy oldest = Inr proven" using 2(4) Some by blast
      have v: "validate_coverage_control ?st b = Inr ()" using 2(2) covered_control [OF Some] by simp
      have above: "\<forall>q. ?anchor = Some q \<longrightarrow> ra_number q < br_number b"
        using Some by (auto simp: anchor_for_def split: option.splits if_splits)
      have "\<not> opt_is (ss_coverage ?st) (\<lambda>l. \<not> keeps_branch (ss_history ?st) l b
          (anchor_permits ?anchor b \<or> ?anchor = None \<and> br_parent_hash b = None \<and> opt_is (ss_coverage ?st) (is_child_of b)))"
        using coverage_control_keeps_branch [OF v _ pr pol above] by (auto simp: opt_is_def split: option.splits)
      with inst 2(1) fin show ?thesis
        by (auto simp: accept_canonical_def apply_sequence_canonical_block_def Let_def and_then_okay finalized_from_def)
    qed
  qed
qed

lemma snapshot_ascending: "validate_canonical_sequence_snapshot st = Inr () \<Longrightarrow> ascending (ss_history st)"
  using check_history_ascending by (auto simp: validate_canonical_sequence_snapshot_def)

text \<open>
  \<^bold>\<open>C4.\<close> Finality never regresses: when an envelope passes strict validation and the retained history holds the
  finalized block, then the next state has a finalized head too, the same block or a higher one; the next
  history is strictly ascending, so it retains one block per height, and its blocks lie at or below the
  coverage head.
\<close>

theorem finality_never_regresses:
  assumes "validate_canonical_sequence_parts st controls records policy = Okay v" and "requires_complete_rollback policy"
    and "ss_finalized st = Some f" and "e \<in> set (ss_history st)" and "same_block e f"
  shows "(\<exists>f'. ss_finalized (sv_next_state v) = Some f' \<and> (br_number f < br_number f' \<or> same_block f' f))
    \<and> sorted_wrt (<) (map br_number (ss_history (sv_next_state v)))
    \<and> (\<forall>b \<in> set (ss_history (sv_next_state v)). \<exists>h. ss_coverage (sv_next_state v) = Some h \<and> br_number b \<le> br_number h)"
proof -
  from assms(1) obtain pre post oldest acc1 acc2 acc3 where snap: "validate_canonical_sequence_snapshot st = Inr ()"
    and pre: "fold_result (pre_record_control policy oldest) pre (start_acc st) = Inr acc1"
    and recs: "fold_result (sequence_record policy oldest post) records acc1 = Inr acc2"
    and post: "fold_result (post_record_control policy oldest) post acc2 = Inr acc3"
    and snap': "validate_canonical_sequence_snapshot (sa_state acc3) = Inr ()" and v: "sv_next_state v = sa_state acc3"
    by (auto simp: validate_canonical_sequence_parts_def Let_def and_then_okay split: if_splits)
  have "retains f (sa_state (start_acc st))"
    using snapshot_ascending [OF snap] assms(3-5) by (auto simp: retains_def start_acc_def)
  then have "retains f (sa_state acc1)"
    by (rule fold_result_invariant [OF pre]) (rule pre_record_retains)
  then have "retains f (sa_state acc2)"
    by (rule fold_result_invariant [OF recs]) (rule sequence_record_retains)
  then have "finalized_from f (sa_state acc2)" by (auto simp: retains_def finalized_from_def)
  then have "finalized_from f (sa_state acc3)"
    by (rule fold_result_invariant [OF post]) (rule post_record_finalized [OF _ _ assms(2)])
  moreover have asc: "ascending (ss_history (sa_state acc3))" by (rule snapshot_ascending [OF snap'])
  moreover have "\<exists>h. ss_coverage (sa_state acc3) = Some h \<and> br_number b \<le> br_number h" if "b \<in> set (ss_history (sa_state acc3))" for b
    using snap' last_ascending [OF asc that] that
    by (auto simp: validate_canonical_sequence_snapshot_def check_coverage_def split: option.splits)
  ultimately show ?thesis by (auto simp: v finalized_from_def ascending_def)
qed

section \<open>Examples\<close>

definition demo_ref :: "u64 \<Rightarrow> b256 \<Rightarrow> b256 option \<Rightarrow> block_ref" where
  "demo_ref n h p = \<lparr>br_number = n, br_hash = h, br_parent_hash = p, br_timestamp = None\<rparr>"

definition demo_record :: "chain_status \<Rightarrow> reactive_input_record" where
  "demo_record status = \<lparr>rr_input = InPendingTxHash 1,
     rr_context = \<lparr>cx_chain_id = None, cx_source = SrcBatch, cx_chain_status = status, cx_block = None,
       cx_transaction_index = None, cx_log_index = None\<rparr>, rr_provider = None\<rparr>"

definition demo_state :: sequence_state where
  "demo_state = \<lparr>ss_history = [demo_ref 8 80 None, demo_ref 9 90 (Some 80), demo_ref 10 100 (Some 90)],
     ss_coverage = Some (demo_ref 10 100 (Some 90)), ss_safe = None, ss_finalized = Some (demo_ref 8 80 None), ss_log_coverage = None\<rparr>"

definition demo_envelope :: "sequence_error + sequence_validation" where
  "demo_envelope = validate_canonical_sequence_parts demo_state [CcFinalized (demo_ref 9 90 None)]
     [(demo_record (StIncluded (demo_ref 10 101 (Some 90)) 0), ScCanonical)] RequireCompleteRollback"

fun state_after :: "sequence_error + sequence_validation \<Rightarrow> sequence_state option" where
  "state_after (Inl _) = None"
| "state_after (Inr v) = Some (sv_next_state v)"

lemma state_after_Some: "state_after x = Some st \<Longrightarrow> \<exists>v. x = Okay v \<and> st = sv_next_state v"
  by (cases x) auto

lemma demo_envelope_after: "map_option (map br_hash \<circ> ss_history) (state_after demo_envelope) = Some [80, 90, 101]"
  by code_simp

theorem finality_never_regresses_witness:
  "\<exists>v. demo_envelope = Okay v \<and> map br_hash (ss_history (sv_next_state v)) = [80, 90, 101]
     \<and> (\<exists>f'. ss_finalized (sv_next_state v) = Some f' \<and> (8 < br_number f' \<or> same_block f' (demo_ref 8 80 None)))"
proof -
  obtain v where v: "demo_envelope = Okay v" and h: "map br_hash (ss_history (sv_next_state v)) = [80, 90, 101]"
    using demo_envelope_after state_after_Some [of demo_envelope] by (auto simp del: map_eq_Cons_conv)
  have "\<exists>f'. ss_finalized (sv_next_state v) = Some f' \<and> (br_number (demo_ref 8 80 None) < br_number f' \<or> same_block f' (demo_ref 8 80 None))"
    using finality_never_regresses [OF v [unfolded demo_envelope_def], of "demo_ref 8 80 None" "demo_ref 8 80 None"]
    by (simp add: demo_state_def)
  with v h show ?thesis by (auto simp: demo_ref_def)
qed

text \<open>
  Without the finalized block in the retained history the guarantee fails. In a sparse history with blocks 80
  and 100, finalized at 90, strict validation accepts the removal of the parentless block 100: the coverage
  head falls back to 80 and the finalized head is dropped. A later envelope that replaces block 85 is then accepted.
\<close>

definition sparse_state :: sequence_state where
  "sparse_state = \<lparr>ss_history = [demo_ref 80 800 None, demo_ref 100 1000 None], ss_coverage = Some (demo_ref 100 1000 None),
     ss_safe = None, ss_finalized = Some (demo_ref 90 900 None), ss_log_coverage = None\<rparr>"

definition after_removal :: "sequence_state option" where
  "after_removal = state_after (validate_canonical_sequence_parts sparse_state []
     [(demo_record (StReorged (demo_ref 100 1000 None)), ScCanonical)] RequireCompleteRollback)"

lemma removal_forgets_finality:
  "map_option ss_finalized after_removal = Some None"
  "map_option ss_finalized (Option.bind after_removal (\<lambda>st. state_after (validate_canonical_sequence_parts st
     [CcCanonicalProgress (demo_ref 85 851 None)] [] RequireCompleteRollback))) = Some None"
  "state_after (validate_canonical_sequence_parts sparse_state [CcCanonicalProgress (demo_ref 85 851 None)] [] RequireCompleteRollback) = None"
  by code_simp+

end
