(* ===== verification/Runtime_Tracking.thy ===== *)
theory Runtime_Tracking
  imports Sequence_Props
begin

text \<open>
  The runtime moves its journal and heads the way the validator of canonical envelopes predicts: each step of
  the runtime on a record or control that strict validation accepts ends in the state the validator computes.
\<close>

section \<open>Tracking\<close>

definition tracks :: "runtime_state \<Rightarrow> sequence_state \<Rightarrow> bool" where
  "tracks r st \<longleftrightarrow> map bj_block (ru_journal r) = ss_history st
     \<and> rel_option same_block (ru_coverage_head r) (ss_coverage st)
     \<and> ru_safe_head r = ss_safe st \<and> ru_finalized_head r = ss_finalized st \<and> ru_log_coverage_head r = ss_log_coverage st"

definition covered :: "sequence_state \<Rightarrow> bool" where
  "covered st \<longleftrightarrow> (\<forall>e \<in> set (ss_history st). \<exists>h. ss_coverage st = Some h \<and> (br_number e < br_number h \<or> same_block e h))"

lemma find_position_map: "find_position P (map f xs) = find_position (\<lambda>x. P (f x)) xs"
  by (induction xs) auto

lemma find_rposition_map: "find_rposition P (map f xs) = find_rposition (\<lambda>x. P (f x)) xs"
  by (simp add: find_rposition_def rev_map find_position_map)

lemma take_find_position: "find_position P xs = Some i \<Longrightarrow> take i xs = takeWhile (\<lambda>x. \<not> P x) xs"
  by (induction xs arbitrary: i) (auto split: if_splits)

lemma find_position_None: "find_position P xs = None \<longleftrightarrow> (\<forall>x \<in> set xs. \<not> P x)"
  by (induction xs) auto

lemma drop_find_position: "find_position P xs = Some i \<Longrightarrow> drop i xs = dropWhile (\<lambda>x. \<not> P x) xs"
  by (induction xs arbitrary: i) (auto split: if_splits)

lemma drain_from_number:
  "drain_journal_from_number n r =
     (dropWhile (\<lambda>e. br_number (bj_block e) < n) (ru_journal r),
      r\<lparr>ru_journal := takeWhile (\<lambda>e. br_number (bj_block e) < n) (ru_journal r)\<rparr>)"
proof (cases "find_position (\<lambda>e. n \<le> br_number (bj_block e)) (ru_journal r)")
  case None
  then have "\<forall>e \<in> set (ru_journal r). br_number (bj_block e) < n" by (auto simp: find_position_None not_le)
  then have w: "takeWhile (\<lambda>e. br_number (bj_block e) < n) (ru_journal r) = ru_journal r"
    "dropWhile (\<lambda>e. br_number (bj_block e) < n) (ru_journal r) = []"
    by (auto simp: takeWhile_eq_all_conv dropWhile_eq_Nil_conv)
  show ?thesis by (simp add: drain_journal_from_number_def None w)
next
  case (Some i)
  with take_find_position [OF Some] drop_find_position [OF Some] show ?thesis
    by (simp add: drain_journal_from_number_def drain_journal_from_def not_le)
qed

section \<open>Recording a block\<close>

lemma modify_entry_upsert:
  assumes "upsert_entry (map bj_block js) b = Inr q" and "\<And>e. bj_block (g e) = bj_block e"
  shows "map bj_block (modify_entry b g js) = (case q of Some h \<Rightarrow> h | None \<Rightarrow> map bj_block js @ [b])"
  using assms(1)
proof (induction js arbitrary: q)
  case Nil
  then show ?case by (simp add: assms(2) new_journal_def)
next
  case (Cons j js)
  show ?case
  proof (cases "br_number (bj_block j) = br_number b")
    case True
    with Cons.prems have "q = Some (enrich_block_ref (bj_block j) b # map bj_block js)" "same_block (bj_block j) b"
      by (auto simp: same_block_def split: if_splits)
    then show ?thesis by (simp add: assms(2))
  next
    case False
    with Cons.prems obtain q' where q': "upsert_entry (map bj_block js) b = Inr q'" "q = map_option ((#) (bj_block j)) q'"
      by (auto simp: and_then_okay)
    have "\<not> same_block (bj_block j) b" using False by (simp add: same_block_def)
    with Cons.IH [OF q'(1)] q'(2) show ?thesis by (auto split: option.splits)
  qed
qed

lemma sort_key_append:
  assumes "ascending hs" and "\<forall>e \<in> set hs. br_number e < br_number b"
  shows "sort_key br_number (hs @ [b]) = hs @ [b]"
proof -
  have "sorted (map br_number (hs @ [b]))"
    using assms by (auto simp: ascending_def sorted_append less_imp_le strict_sorted_iff)
  then show ?thesis by (rule sort_key_id_if_sorted)
qed

lemma modify_entry_history:
  assumes "upsert_sequence_history (map bj_block js) b = Inr h" and "ascending (map bj_block js)"
    and "\<And>e. bj_block (g e) = bj_block e"
    and "\<forall>e \<in> set js. same_block (bj_block e) b \<or> br_number (bj_block e) < br_number b \<or> (\<exists>k \<in> set js. same_block (bj_block k) b)"
  shows "map bj_block (modify_entry b g js) = h"
proof -
  obtain q where q: "upsert_entry (map bj_block js) b = Inr q" and h: "h = (case q of Some h \<Rightarrow> h | None \<Rightarrow> sort_key br_number (map bj_block js @ [b]))"
    using assms(1) by (auto simp: upsert_sequence_history_def and_then_okay)
  show ?thesis
  proof (cases q)
    case None
    then have "br_number b \<notin> br_number ` set (map bj_block js)" using upsert_entry_shape [OF q] by simp
    then have "\<forall>e \<in> set (map bj_block js). br_number e < br_number b"
      using assms(4) by (auto simp: same_block_def image_iff) (metis imageI)
    with None show ?thesis using modify_entry_upsert [OF q assms(3)] sort_key_append [OF assms(2)] by (simp add: h)
  next
    case (Some x)
    then show ?thesis using modify_entry_upsert [OF q assms(3)] by (simp add: h)
  qed
qed

lemma length_modify_entry: "length (modify_entry b g js) \<le> Suc (length js)"
  by (induction js) auto

lemma coverage_advance_same: "rel_option same_block c d \<Longrightarrow> rel_option same_block (advance_or_enrich_coverage c b) (advance_or_enrich_coverage d b)"
  by (cases c; cases d) (auto simp: advance_or_enrich_coverage_def same_block_def enrich_block_ref_def)

lemma coverage_advance_twice:
  "same_block e b \<Longrightarrow> rel_option same_block (advance_or_enrich_coverage (advance_or_enrich_coverage c b) e) (advance_or_enrich_coverage c b)"
  by (cases c) (auto simp: advance_or_enrich_coverage_def same_block_def enrich_block_ref_def)

lemma journal_block_same: "same_block (journal_block b r) b"
  by (auto simp: journal_block_def find_Some_iff split: option.splits)

lemma entry_tracks:
  assumes tr: "tracks r st" and up: "upsert_sequence_history (ss_history st) b = Inr h" and asc: "ascending (ss_history st)"
    and pos: "\<forall>e \<in> set (ss_history st). same_block e b \<or> br_number e < br_number b \<or> (\<exists>k \<in> set (ss_history st). same_block k b)"
    and depth: "length (ru_journal r) < depth" and g: "\<And>e. bj_block (g e) = bj_block e"
    and cov: "rel_option same_block cov cov'"
  shows "tracks (trim_journal depth (r\<lparr>ru_journal := modify_entry b g (ru_journal r), ru_coverage_head := cov\<rparr>))
    (st\<lparr>ss_history := h, ss_coverage := cov'\<rparr>)"
proof -
  have j: "map bj_block (ru_journal r) = ss_history st" using tr by (simp add: tracks_def)
  have m: "map bj_block (modify_entry b g (ru_journal r)) = h"
    using up asc pos g by (intro modify_entry_history) (auto simp: j [symmetric])
  have "length (modify_entry b g (ru_journal r)) \<le> depth" using depth length_modify_entry [of b g "ru_journal r"] by simp
  then show ?thesis using tr m cov depth by (simp add: trim_journal_def tracks_def)
qed

lemma coverage_enriched:
  "rel_option same_block c d \<Longrightarrow> rel_option same_block (advance_or_enrich_coverage (advance_or_enrich_coverage c b) (journal_block b r))
      (advance_or_enrich_coverage d b)"
  using coverage_advance_twice [OF journal_block_same, of c b r] coverage_advance_same [of c d b]
  by (auto simp: option_rel_Some1 option_rel_Some2 elim!: option.rel_cases intro: same_block_trans)

lemma record_input_tracks:
  assumes "tracks r st" and "upsert_sequence_history (ss_history st) b = Inr h" and "ascending (ss_history st)"
    and "\<forall>e \<in> set (ss_history st). same_block e b \<or> br_number e < br_number b \<or> (\<exists>k \<in> set (ss_history st). same_block k b)"
    and "length (ru_journal r) < depth"
  shows "tracks (record_journal_input depth b i r) (st\<lparr>ss_history := h, ss_coverage := advance_or_enrich_coverage (ss_coverage st) b\<rparr>)"
    and "tracks (cover_block depth b r) (st\<lparr>ss_history := h, ss_coverage := advance_or_enrich_coverage (ss_coverage st) b\<rparr>)"
proof -
  have cov: "rel_option same_block (ru_coverage_head r) (ss_coverage st)" using assms(1) by (simp add: tracks_def)
  show "tracks (record_journal_input depth b i r) (st\<lparr>ss_history := h, ss_coverage := advance_or_enrich_coverage (ss_coverage st) b\<rparr>)"
    using entry_tracks [OF assms, of "\<lambda>e. e\<lparr>bj_inputs := push_unique i (bj_inputs e)\<rparr>", OF _ coverage_enriched [OF cov]]
    by (simp add: record_journal_input_def Let_def journal_entry_mut_def)
  show "tracks (cover_block depth b r) (st\<lparr>ss_history := h, ss_coverage := advance_or_enrich_coverage (ss_coverage st) b\<rparr>)"
    using entry_tracks [OF assms, of "\<lambda>e. e", OF _ coverage_enriched [OF cov]]
    by (simp add: cover_block_def Let_def journal_entry_mut_def)
qed

lemma note_missed_tracks: "note_missed_range latest b r = (reports, r') \<Longrightarrow> tracks r st \<Longrightarrow> tracks r' st \<and> ru_journal r' = ru_journal r"
  by (auto simp: note_missed_range_def escalate_trust_def transition_health_def Let_def tracks_def split: cache_health.splits if_splits prod.splits)

section \<open>Canonical records\<close>

lemma recover_dropped_tracks:
  assumes "recover_dropped_journals ext dropped reason r c = Some (rep, r', c')"
  shows "ru_journal r' = ru_journal r" and "ru_finalized_head r' = ru_finalized_head r" and "ru_log_coverage_head r' = ru_log_coverage_head r"
    and "ru_safe_head r' = (case ru_safe_head r of None \<Rightarrow> None | Some h \<Rightarrow>
      if dropped \<noteq> [] \<and> Min (set (map (br_number \<circ> bj_block) dropped)) \<le> br_number h then None else Some h)"
    and "dropped = [] \<Longrightarrow> r' = r \<and> rep = None" and "dropped \<noteq> [] \<Longrightarrow> \<exists>x. rep = Some x"
    and "dropped \<noteq> [] \<Longrightarrow> ru_coverage_head r' = (if ru_journal r = [] then None else Some (bj_block (last (ru_journal r))))"
  using assms
  by (auto simp: recover_dropped_journals_def Let_def cancel_resyncs_for_dropped_blocks_def rebase_validation_state_from_def
      split: if_splits bind_splits option.splits)

lemma rebase_tracks [simp]:
  "ru_journal (rebase_validation_state_from n r) = ru_journal r" "ru_coverage_head (rebase_validation_state_from n r) = ru_coverage_head r"
  "ru_safe_head (rebase_validation_state_from n r) = ru_safe_head r" "ru_finalized_head (rebase_validation_state_from n r) = ru_finalized_head r"
  "ru_log_coverage_head (rebase_validation_state_from n r) = ru_log_coverage_head r"
  by (simp_all add: rebase_validation_state_from_def Let_def)

lemma warn_tracks [simp]:
  "warn_under_recovery n r = (w, r') \<Longrightarrow> ru_journal r' = ru_journal r \<and> ru_coverage_head r' = ru_coverage_head r \<and> ru_safe_head r' = ru_safe_head r
     \<and> ru_finalized_head r' = ru_finalized_head r \<and> ru_log_coverage_head r' = ru_log_coverage_head r"
  by (auto simp: warn_under_recovery_def escalate_trust_def transition_health_def split: cache_health.splits if_splits)

lemma saturating_succ: "(f :: u64) \<noteq> - 1 \<Longrightarrow> saturating_add f 1 = f + 1"
  and less_succ: "(f :: u64) \<noteq> - 1 \<Longrightarrow> n < f + 1 \<longleftrightarrow> n \<le> f"
proof -
  assume f: "f \<noteq> - 1"
  then have "f < f + 1" using inc_less_eq_self_iff_eq [of f] by (simp add: not_le)
  then show "saturating_add f 1 = f + 1" by (simp add: saturating_add_def order_less_imp_le)
  show "n < f + 1 \<longleftrightarrow> n \<le> f" using inc_le [of f n] \<open>f < f + 1\<close> by (meson leD leI order_le_less_trans)
qed

lemma child_not_max: "is_child_of b f \<Longrightarrow> br_number f \<noteq> - 1 \<and> br_number b = br_number f + 1"
  by (auto simp: is_child_of_def checked_succ_def split: if_splits)

lemma displaced_tracks:
  assumes d: "displaced_by b r c = (dropped, anchor, reports, r1, c1)" and tr: "tracks r st"
    and rw: "rewind_for st b = (anchor', kept, gone)"
  shows "anchor = anchor' \<and> map bj_block (ru_journal r1) = kept \<and> map bj_block dropped = gone
    \<and> ru_safe_head r1 = ss_safe st \<and> ru_finalized_head r1 = ss_finalized st \<and> ru_log_coverage_head r1 = ss_log_coverage st"
proof -
  have j: "ss_history st = map bj_block (ru_journal r)" and heads: "ss_safe st = ru_safe_head r" "ss_finalized st = ru_finalized_head r"
    "ss_log_coverage st = ru_log_coverage_head r"
    using tr by (auto simp: tracks_def)
  obtain w rw1 where warn: "warn_under_recovery (br_number b) r = (w, rw1)" by (cases "warn_under_recovery (br_number b) r")
  note same = warn_tracks [OF warn]
  show ?thesis
  proof (cases "parent_at (ss_history st) b")
    case (Some i)
    then obtain ph where ph: "br_parent_hash b = Some ph" and
      pos: "find_rposition (\<lambda>e. is_child_of b (bj_block e) \<and> br_hash (bj_block e) = ph) (ru_journal r) = Some i"
      by (auto simp: parent_at_def j find_rposition_map split: option.splits)
    have "i < length (ru_journal r)" using find_rposition_Some [OF pos] by simp
    with Some d rw show ?thesis
      by (auto simp: displaced_by_def rewind_for_def Let_def ph pos drain_journal_after_def drain_journal_from_def j heads take_map drop_map)
  next
    case None
    have nopos: "find_rposition (\<lambda>e. is_child_of b (bj_block e) \<and> br_hash (bj_block e) = ph) (ru_journal r) = None"
      if "br_parent_hash b = Some ph" for ph
      using None that by (simp add: parent_at_def j find_rposition_map)
    show ?thesis
    proof (cases "finalized_parent st b")
      case (Some f)
      then have f: "ru_finalized_head r = Some f" "is_child_of b f" "br_parent_hash b = Some (br_hash f)"
        by (auto simp: finalized_parent_def heads split: option.splits if_splits)
      have less: "(n < saturating_add (br_number f) 1) = (n \<le> br_number f)" for n
        using saturating_succ less_succ child_not_max [OF f(2)] by simp
      show ?thesis
        using d rw same by (auto simp: displaced_by_def rewind_for_def Let_def nopos warn drain_from_number less
            takeWhile_map dropWhile_map comp_def Some None [unfolded j] f j heads)
    next
      case fin: None
      have no: "takeWhile (\<lambda>e. False) js = []" for js :: "block_journal list"
        by (cases js) simp_all
      have nof: "(case ru_finalized_head r of None \<Rightarrow> None | Some f \<Rightarrow>
          if is_child_of b f \<and> ph = br_hash f then Some f else None) = None" if "br_parent_hash b = Some ph" for ph
        using fin that by (auto simp: finalized_parent_def heads split: option.splits if_splits)
      show ?thesis
        using d rw same by (auto simp: displaced_by_def rewind_for_def Let_def nopos nof warn drain_from_number no fin None [unfolded j] j heads
            split: option.splits)
    qed
  qed
qed

lemma retain_head_idem:
  assumes "\<forall>x \<in> set ns. br_number a < x" and "ns \<noteq> []"
  shows "retain_head (Some a) (case h of None \<Rightarrow> None | Some k \<Rightarrow> if Min (set ns) \<le> br_number k then None else Some k) = retain_head (Some a) h"
proof -
  have "br_number a < Min (set ns)" using assms by simp
  then show ?thesis by (auto simp: retain_head_def split: option.splits)
qed

lemma retain_head_None [simp]: "retain_head None h = None"
  by (cases h) (simp_all add: retain_head_def)

lemma clear_heads_as_retain:
  "clear_sequence_heads anchor st = st\<lparr>ss_safe := retain_head anchor (ss_safe st), ss_finalized := retain_head anchor (ss_finalized st)\<rparr>"
  by (cases anchor) (simp_all add: clear_sequence_heads_def clear_sequence_heads_above_def)

lemma rewind_dropped_above:
  assumes "rewind_for st b = (Some a, kept, gone)" and "ascending (ss_history st)"
  shows "\<forall>x \<in> set gone. br_number a < br_number x" and "\<forall>x \<in> set kept. br_number x \<le> br_number a" and "is_child_of b a"
    and "kept @ gone = ss_history st"
proof -
  show "kept @ gone = ss_history st" using assms(1)
    by (auto simp: rewind_for_def Let_def split: option.splits)
  have *: "(\<forall>x \<in> set gone. br_number a < br_number x) \<and> (\<forall>x \<in> set kept. br_number x \<le> br_number a) \<and> is_child_of b a"
  proof (cases "parent_at (ss_history st) b")
    case (Some i)
    then have i: "i < length (ss_history st)" "is_child_of b (ss_history st ! i)"
      using find_rposition_Some by (auto simp: parent_at_def split: option.splits)
    have a: "a = ss_history st ! i" and k: "kept = take i (ss_history st) @ [ss_history st ! i]" and g: "gone = drop (Suc i) (ss_history st)"
      using assms(1) Some i(1) by (auto simp: rewind_for_def Let_def take_Suc_conv_app_nth)
    have "ascending (take i (ss_history st) @ ss_history st ! i # drop (Suc i) (ss_history st))"
      using assms(2) i(1) by (simp add: id_take_nth_drop [symmetric])
    then show ?thesis using i(2) by (auto simp: a k g ascending_append ascending_Cons intro: less_imp_le)
  next
    case None
    then have f: "finalized_parent st b = Some a" "kept = takeWhile (\<lambda>e. br_number e \<le> br_number a) (ss_history st)"
      "gone = dropWhile (\<lambda>e. br_number e \<le> br_number a) (ss_history st)"
      using assms(1) by (auto simp: rewind_for_def Let_def split: option.splits)
    have "br_number a < br_number x" if "x \<in> set (dropWhile (\<lambda>e. br_number e \<le> br_number a) hs)" "ascending hs" for x hs
      using that by (induction hs) (auto simp: ascending_Cons not_le split: if_splits)
    then show ?thesis using f assms(2) by (auto simp: finalized_parent_def dest: set_takeWhileD split: option.splits if_splits)
  qed
  then show "\<forall>x \<in> set gone. br_number a < br_number x" "\<forall>x \<in> set kept. br_number x \<le> br_number a" "is_child_of b a" by auto
qed

lemma switch_tracks:
  assumes sw: "switch_branch ext latest b r c = Some (rep, reports, r1, c1)" and tr: "tracks r st" and asc: "ascending (ss_history st)"
    and rw: "rewind_for st b = (anchor, kept, gone)"
  shows "tracks r1 (clear_sequence_heads anchor (st\<lparr>ss_history := kept, ss_coverage := anchor\<rparr>))"
proof -
  obtain dropped anchor' reps rd cd where d: "displaced_by b r c = (dropped, anchor', reps, rd, cd)" by (metis prod_cases5)
  note dt = displaced_tracks [OF d tr rw]
  let ?rb = "rebase_validation_state_from (case anchor of None \<Rightarrow> 0 | Some a \<Rightarrow> saturating_add (br_number a) 1) rd"
  from sw obtain rec r3 c2 where rec: "recover_dropped_journals ext dropped ParentMismatch ?rb cd = Some (rec, r3, c2)"
    and r1: "ru_journal r1 = ru_journal r3" "ru_coverage_head r1 = anchor" "ru_safe_head r1 = retain_head anchor (ru_safe_head r3)"
      "ru_finalized_head r1 = retain_head anchor (ru_finalized_head r3)" "ru_log_coverage_head r1 = ru_log_coverage_head r3"
    using dt by (auto simp: switch_branch_def d Let_def report_or_cancel_def cancel_resyncs_for_dropped_blocks_def retain_heads_def split: bind_splits option.splits)
  note rt = recover_dropped_tracks [OF rec]
  have safe: "retain_head anchor (ru_safe_head r3) = retain_head anchor (ss_safe st)"
  proof (cases anchor)
    case (Some a)
    have "\<forall>x \<in> set (map (br_number \<circ> bj_block) dropped). br_number a < x"
      using rewind_dropped_above(1) [OF rw [unfolded Some] asc] dt by auto
    with rt(4) dt retain_head_idem [of "map (br_number \<circ> bj_block) dropped" a "ss_safe st"] show ?thesis
      by (cases "dropped = []") (auto simp: Some split: option.splits)
  qed simp
  show ?thesis
    using dt rt(1-3) safe by (simp add: r1 tracks_def clear_heads_as_retain option.rel_refl)
qed

lemma keeps_branch_above:
  assumes "keeps_branch hs h b proven" and "br_number e < br_number h \<or> same_block e h"
  shows "same_block e b \<or> br_number e < br_number b \<or> (\<exists>k \<in> set hs. same_block k b)"
proof -
  have "br_number h < br_number b" if "extends_head h b proven \<or> skips_ahead h b"
    using that child_not_max [of b h] less_succ [of "br_number h" "br_number h"] less_succ [of "br_number h"]
    by (auto simp: extends_head_def skips_ahead_def checked_succ_def dest: less_trans split: if_splits)
  with assms show ?thesis by (auto simp: keeps_branch_def same_block_def list_ex_iff)
qed

lemma kept_branch_tracks:
  assumes rec: "recover_for_canonical_input ext b certified proven r c = Some (rep, reports, r1, c1)"
    and keep: "\<not> opt_is (ss_coverage st) (\<lambda>latest. \<not> keeps_branch (ss_history st) latest b proven)"
    and tr: "tracks r st" and none: "ss_coverage st = None \<Longrightarrow> ss_history st = [] \<and> ru_journal r = []"
  shows "tracks r1 st \<and> ru_journal r1 = ru_journal r"
proof (cases "ss_coverage st")
  case None
  then have "ru_coverage_head r = None" using tr by (auto simp: tracks_def)
  then show ?thesis using rec tr none [OF None] by (simp add: recover_for_canonical_input_def)
next
  case (Some l)
  obtain latest where latest: "ru_coverage_head r = Some latest" "same_block latest l" using tr Some by (auto simp: tracks_def option_rel_Some2)
  have j: "ss_history st = map bj_block (ru_journal r)" using tr by (simp add: tracks_def)
  have "keeps_branch (ss_history st) latest b proven"
    using keep Some latest(2) by (auto simp: opt_is_def keeps_branch_def same_block_def extends_head_def skips_ahead_def is_child_of_def)
  then have k: "same_block latest b \<or> list_ex (\<lambda>e. same_block (bj_block e) b) (ru_journal r) \<or> extends_head latest b proven \<or> skips_ahead latest b"
    by (simp add: keeps_branch_def j list_ex_iff)
  obtain reps rn where nm: "note_missed_range latest b r = (reps, rn)" by (cases "note_missed_range latest b r")
  have "r1 = r \<or> r1 = rn"
    using rec k by (simp add: recover_for_canonical_input_def latest(1) nm split: if_splits)
  then show ?thesis using tr note_missed_tracks [OF nm tr] by blast
qed

lemma replaced_branch_switches:
  assumes "recover_for_canonical_input ext b certified proven r c = Some res" and "\<not> keeps_branch (ss_history st) l b proven"
    and "ru_coverage_head r = Some latest" and "same_block latest l" and "map bj_block (ru_journal r) = ss_history st"
  shows "switch_branch ext latest b r c = Some res"
proof -
  have "\<not> keeps_branch (ss_history st) latest b proven"
    using assms(2,4) by (auto simp: keeps_branch_def same_block_def extends_head_def skips_ahead_def is_child_of_def)
  then show ?thesis
    using assms(1,3) by (simp add: recover_for_canonical_input_def keeps_branch_def assms(5) [symmetric] list_ex_iff)
qed

text \<open>One canonical record.\<close>

lemma canonical_input_tracks:
  assumes tr: "tracks r st" and asc: "ascending (ss_history st)" and cov: "covered st" and depth: "length (ss_history st) < depth"
    and app: "apply_sequence_canonical_block st b proven = Inr (rw, st')"
    and rec: "recover_for_canonical_input ext b certified proven r c = Some (rep, reports, r1, c1)"
  shows "tracks (record_journal_input depth b i r1) st'"
proof -
  have j: "map bj_block (ru_journal r) = ss_history st" using tr by (simp add: tracks_def)
  have nolatest: "ss_history st = [] \<and> ru_journal r = []" if "ss_coverage st = None"
    using cov that j by (auto simp: covered_def)
  show ?thesis
  proof (cases "opt_is (ss_coverage st) (\<lambda>latest. \<not> keeps_branch (ss_history st) latest b proven)")
    case False
    then obtain h where up: "upsert_sequence_history (ss_history st) b = Inr h"
      and st': "st' = st\<lparr>ss_history := h, ss_coverage := advance_or_enrich_coverage (ss_coverage st) b\<rparr>"
      using app by (auto simp: apply_sequence_canonical_block_def Let_def and_then_okay)
    have pos: "\<forall>e \<in> set (ss_history st). same_block e b \<or> br_number e < br_number b \<or> (\<exists>k \<in> set (ss_history st). same_block k b)"
      using False cov keeps_branch_above by (auto simp: opt_is_def covered_def split: option.splits)
    have "tracks r1 st \<and> ru_journal r1 = ru_journal r"
      using rec False tr nolatest by (rule kept_branch_tracks)
    then show ?thesis using record_input_tracks(1) [OF _ up asc pos, of r1 depth i] depth j st' by (metis length_map)
  next
    case True
    then obtain l where l: "ss_coverage st = Some l" and nk: "\<not> keeps_branch (ss_history st) l b proven" by (auto simp: opt_is_def split: option.splits)
    obtain latest where latest: "ru_coverage_head r = Some latest" "same_block latest l" using tr l by (auto simp: tracks_def option_rel_Some2)
    obtain anchor kept gone where rwf: "rewind_for st b = (anchor, kept, gone)" by (metis prod_cases3)
    let ?st1 = "clear_sequence_heads anchor (st\<lparr>ss_history := kept, ss_coverage := anchor\<rparr>)"
    obtain h where up: "upsert_sequence_history kept b = Inr h"
      and st': "st' = ?st1\<lparr>ss_history := h, ss_coverage := advance_or_enrich_coverage (ss_coverage ?st1) b\<rparr>"
      using app True rwf by (auto simp: apply_sequence_canonical_block_def Let_def and_then_okay clear_heads_as_retain)
    have "switch_branch ext latest b r c = Some (rep, reports, r1, c1)"
      using rec nk latest j by (rule replaced_branch_switches)
    from switch_tracks [OF this tr asc rwf] have tr1: "tracks r1 ?st1" .
    have kept: "ascending kept \<and> (\<forall>e \<in> set kept. br_number e < br_number b) \<and> length kept \<le> length (ss_history st)"
    proof (cases anchor)
      case None
      then show ?thesis using rwf by (auto simp: rewind_for_def Let_def split: option.splits)
    next
      case (Some a)
      note ab = rewind_dropped_above [OF rwf [unfolded Some] asc]
      have "br_number a < br_number b" using ab(3) child_not_max [OF ab(3)] less_succ [of "br_number a" "br_number a"] by simp
      then show ?thesis using ab asc by (auto simp: ascending_append dest: le_less_trans) (metis append_eq_conv_conj ascending_sublists(1), metis le_add1 length_append)
    qed
    have "tracks (record_journal_input depth b i r1) (?st1\<lparr>ss_history := h, ss_coverage := advance_or_enrich_coverage (ss_coverage ?st1) b\<rparr>)"
    proof (rule record_input_tracks(1) [OF tr1])
      have "map bj_block (ru_journal r1) = kept" using tr1 by (simp add: tracks_def clear_heads_as_retain)
      then have "length (ru_journal r1) = length kept" by (metis length_map)
      then show "length (ru_journal r1) < depth" using kept depth by simp
    qed (use kept up in \<open>simp_all add: clear_heads_as_retain\<close>)
    then show ?thesis using st' by simp
  qed
qed

section \<open>Coverage controls\<close>

lemma cover_control_tracks:
  assumes tr: "tracks r st" and asc: "ascending (ss_history st)" and cov: "covered st" and depth: "length (ss_history st) < depth"
    and app: "apply_sequence_canonical_block st b proven = Inr (rw, st')"
    and keep: "\<And>l. ss_coverage st = Some l \<Longrightarrow> keeps_branch (ss_history st) l b proven"
  shows "tracks (cover_block depth b r) st'"
proof -
  have no: "\<not> opt_is (ss_coverage st) (\<lambda>latest. \<not> keeps_branch (ss_history st) latest b proven)"
    using keep by (auto simp: opt_is_def split: option.splits)
  then obtain h where up: "upsert_sequence_history (ss_history st) b = Inr h"
    and st': "st' = st\<lparr>ss_history := h, ss_coverage := advance_or_enrich_coverage (ss_coverage st) b\<rparr>"
    using app by (auto simp: apply_sequence_canonical_block_def Let_def and_then_okay)
  have "\<forall>e \<in> set (ss_history st). same_block e b \<or> br_number e < br_number b \<or> (\<exists>k \<in> set (ss_history st). same_block k b)"
    using keep cov keeps_branch_above by (fastforce simp: covered_def)
  moreover have "length (ru_journal r) < depth" using depth tr by (metis length_map tracks_def)
  ultimately show ?thesis using record_input_tracks(2) [OF tr up asc] st' by blast
qed

section \<open>Reorg controls\<close>

lemma enrich_twice:
  "enrich_block_ref a (enrich_block_ref e a) = enrich_block_ref a e"
  "enrich_block_ref (enrich_block_ref e a) (enrich_block_ref a e) = enrich_block_ref e (enrich_block_ref a e)"
  "enrich_block_ref a a = a" "enrich_block_ref (enrich_block_ref a e) e = enrich_block_ref a e"
  by (cases a; cases e; auto simp: enrich_block_ref_def)+

lemma ascending_split:
  "ascending hs \<Longrightarrow> takeWhile (\<lambda>b. br_number b \<le> n) hs = filter (\<lambda>b. br_number b \<le> n) hs
     \<and> dropWhile (\<lambda>b. br_number b \<le> n) hs = filter (\<lambda>b. n < br_number b) hs"
proof (induction hs)
  case (Cons x hs)
  show ?case
  proof (cases "br_number x \<le> n")
    case False
    then have "\<forall>y \<in> set (x # hs). n < br_number y" using Cons.prems by (auto simp: ascending_Cons not_le intro: less_trans)
    then show ?thesis using False by (auto simp: filter_empty_conv filter_id_conv not_le intro!: filter_False [symmetric] filter_True [symmetric])
  qed (use Cons in \<open>auto simp: ascending_Cons\<close>)
qed simp

lemma drop_above_tracks:
  assumes d: "drop_above a r = (warnings, dropped, r1)" and tr: "tracks r st" and asc: "ascending (ss_history st)"
    and nomax: "br_number a \<noteq> - 1" and uniq: "\<forall>e \<in> set (ss_history st). br_number e = br_number a \<longrightarrow> same_block e a"
  shows "map bj_block (ru_journal r1) = filter (\<lambda>b. br_number b \<le> br_number a) (ss_history st)
    \<and> map bj_block dropped = filter (\<lambda>b. br_number a < br_number b) (ss_history st)
    \<and> ru_safe_head r1 = ss_safe st \<and> ru_finalized_head r1 = ss_finalized st \<and> ru_log_coverage_head r1 = ss_log_coverage st"
proof -
  have j: "ss_history st = map bj_block (ru_journal r)" and heads: "ru_safe_head r = ss_safe st" "ru_finalized_head r = ss_finalized st"
    "ru_log_coverage_head r = ss_log_coverage st" using tr by (auto simp: tracks_def)
  show ?thesis
  proof (cases "find_rposition (\<lambda>e. same_block (bj_block e) a) (ru_journal r)")
    case (Some i)
    then have i: "i < length (ru_journal r)" "same_block (bj_block (ru_journal r ! i)) a" using find_rposition_Some by blast+
    have "ascending (take (Suc i) (ss_history st) @ drop (Suc i) (ss_history st))" using asc by simp
    moreover have tk: "take (Suc i) (ss_history st) = take i (ss_history st) @ [bj_block (ru_journal r ! i)]"
      using i(1) by (simp add: j take_Suc_conv_app_nth)
    ultimately have "\<forall>e \<in> set (take (Suc i) (ss_history st)). br_number e \<le> br_number a" "\<forall>e \<in> set (drop (Suc i) (ss_history st)). br_number a < br_number e"
      using i(2) by (auto simp: ascending_append ascending_Cons same_block_def intro: less_imp_le)
    then have "filter (\<lambda>b. br_number b \<le> br_number a) (take (Suc i) (ss_history st) @ drop (Suc i) (ss_history st)) = take (Suc i) (ss_history st)"
      "filter (\<lambda>b. br_number a < br_number b) (take (Suc i) (ss_history st) @ drop (Suc i) (ss_history st)) = drop (Suc i) (ss_history st)"
      by (simp_all only: filter_append filter_id_conv filter_empty_conv append_Nil append_Nil2) (auto simp: filter_id_conv filter_empty_conv not_le not_less)
    then have "filter (\<lambda>b. br_number b \<le> br_number a) (ss_history st) = take (Suc i) (ss_history st)"
      "filter (\<lambda>b. br_number a < br_number b) (ss_history st) = drop (Suc i) (ss_history st)" by (simp_all only: append_take_drop_id)
    moreover have "dropped = drop (Suc i) (ru_journal r)" "r1 = r\<lparr>ru_journal := take (Suc i) (ru_journal r)\<rparr>"
      using d Some by (auto simp: drop_above_def drain_journal_after_def drain_journal_from_def)
    ultimately show ?thesis using heads by (simp add: j take_map drop_map)
  next
    case None
    obtain w r0 where w: "(if ru_journal r = [] \<or> br_number a < br_number (bj_block (hd (ru_journal r)))
        then warn_under_recovery (saturating_add (br_number a) 1) r else (None, r)) = (w, r0)" by (metis surj_pair)
    have same: "ru_journal r0 = ru_journal r" "ru_safe_head r0 = ru_safe_head r" "ru_finalized_head r0 = ru_finalized_head r"
      "ru_log_coverage_head r0 = ru_log_coverage_head r"
      using w warn_tracks by (auto split: if_splits)
    have less: "(n < saturating_add (br_number a) 1) = (n \<le> br_number a)" for n
      using saturating_succ less_succ nomax by simp
    show ?thesis
      using d same heads ascending_split [OF asc, of "br_number a"]
      by (auto simp: drop_above_def None w Let_def drain_from_number less j takeWhile_map dropWhile_map comp_def)
  qed
qed

lemma find_mid: "\<forall>x \<in> set xs. \<not> P x \<Longrightarrow> P k \<Longrightarrow> find P (xs @ k # ys) = Some k"
  by (induction xs) auto

lemma find_map: "find P (map f xs) = map_option f (find (\<lambda>x. P (f x)) xs)"
  by (induction xs) auto

lemma upsert_mid:
  assumes "upsert_sequence_history (xs @ k # ys) b = Inr h" and "same_block k b" and "\<forall>x \<in> set xs. br_number x \<noteq> br_number b"
  shows "h = xs @ enrich_block_ref k b # ys"
proof -
  have "upsert_entry (xs @ k # ys) b = Inr z \<Longrightarrow> z = Some (xs @ enrich_block_ref k b # ys)" for z
    using assms(2,3) by (induction xs arbitrary: z) (auto simp: same_block_def and_then_okay split: if_splits)
  then show ?thesis using assms(1) by (auto simp: upsert_sequence_history_def and_then_okay)
qed

lemma modify_entry_mid:
  "map bj_block js = xs @ k # ys \<Longrightarrow> same_block k b \<Longrightarrow> \<forall>x \<in> set xs. \<not> same_block x b \<Longrightarrow>
   map bj_block (modify_entry b (\<lambda>e. e) js) = xs @ enrich_block_ref k b # ys"
  by (induction js arbitrary: xs) (auto simp: Cons_eq_append_conv)

lemma modify_entry_new:
  "\<forall>x \<in> set js. \<not> same_block (bj_block x) b \<Longrightarrow> map bj_block (modify_entry b (\<lambda>e. e) js) = map bj_block js @ [b]"
  by (induction js) (auto simp: new_journal_def)

text \<open>An ancestor is either new at the top of the history, or one of its blocks.\<close>

lemma ancestor_cases:
  assumes h1: "upsert_sequence_history hs a = Inr h1" and asc: "ascending hs" and below: "\<forall>e \<in> set hs. br_number e < br_number a \<or> same_block e a"
  obtains "\<forall>e \<in> set hs. br_number e < br_number a" "h1 = hs @ [a]"
    | xs e ys where "hs = xs @ e # ys" "same_block e a" "h1 = xs @ enrich_block_ref e a # ys" "\<forall>x \<in> set xs. br_number x < br_number a"
proof -
  obtain q where q: "upsert_entry hs a = Inr q" and h1q: "h1 = (case q of Some h \<Rightarrow> h | None \<Rightarrow> sort_key br_number (hs @ [a]))"
    using h1 by (auto simp: upsert_sequence_history_def and_then_okay)
  show thesis
  proof (cases q)
    case None
    then have "br_number a \<notin> br_number ` set hs" using upsert_entry_shape [OF q] by simp
    then have lt: "\<forall>e \<in> set hs. br_number e < br_number a" using below by (metis imageI same_block_def)
    with None show thesis using sort_key_append [OF asc lt] that(1) by (simp add: h1q)
  next
    case (Some h)
    then obtain xs e ys where e: "hs = xs @ e # ys" "h = xs @ enrich_block_ref e a # ys" "same_block e a" using upsert_entry_shape [OF q] by auto
    then have "\<forall>x \<in> set xs. br_number x < br_number a" using asc by (auto simp: ascending_append same_block_def)
    with e Some show thesis using that(2) by (simp add: h1q)
  qed
qed

lemma drop_above_coverage: "drop_above a r = (w, d, r1) \<Longrightarrow> ru_coverage_head r1 = ru_coverage_head r"
  using warn_tracks
  by (fastforce simp: drop_above_def drain_journal_after_def drain_journal_from_def drain_from_number Let_def split: option.splits prod.splits if_splits)

lemma rewound_history:
  assumes h1: "upsert_sequence_history (map bj_block js) a = Inr h1" and h2: "upsert_sequence_history h1 a2 = Inr h2"
    and a2: "a2 = (case find (\<lambda>b. same_block b a) h1 of Some k \<Rightarrow> enrich_block_ref a k | None \<Rightarrow> a)"
    and asc: "ascending (map bj_block js)" and below: "\<forall>e \<in> set (map bj_block js). br_number e < br_number a \<or> same_block e a"
  shows "map bj_block (modify_entry a2 (\<lambda>e. e) js) = h2 \<and> same_block a2 a
    \<and> a2 = (case find (\<lambda>e. same_block (bj_block e) a) js of Some e \<Rightarrow> enrich_block_ref a (bj_block e) | None \<Rightarrow> a)"
  using h1 asc below
proof (cases rule: ancestor_cases)
  case 1
  then have no: "\<forall>x \<in> set js. \<not> same_block (bj_block x) a" by (auto simp: same_block_def)
  then have f: "find (\<lambda>e. same_block (bj_block e) a) js = None" by (auto simp: find_None_iff)
  have "a2 = a" using find_mid [of "map bj_block js" "\<lambda>b. same_block b a" a "[]"] no by (simp add: a2 1 enrich_twice)
  moreover have "h2 = map bj_block js @ [a]"
    using upsert_mid [of "map bj_block js" a "[]" a h2] h2 1 \<open>a2 = a\<close> by (fastforce simp: enrich_twice)
  ultimately show ?thesis using modify_entry_new [OF no] f by simp
next
  case (2 xs e ys)
  then have no: "\<forall>x \<in> set xs. \<not> same_block x a" by (auto simp: same_block_def)
  have "find (\<lambda>b. same_block b a) (map bj_block js) = Some e" using find_mid [OF no 2(2)] 2(1) by simp
  then have f: "map_option bj_block (find (\<lambda>x. same_block (bj_block x) a) js) = Some e" by (simp add: find_map)
  have a2e: "a2 = enrich_block_ref a e" using find_mid [OF no, of "enrich_block_ref e a" ys] 2 by (simp add: a2 enrich_twice)
  have "\<forall>x \<in> set xs. br_number x \<noteq> br_number a2" using 2(4) a2e by auto
  then have "h2 = xs @ enrich_block_ref (enrich_block_ref e a) a2 # ys" using upsert_mid [of xs "enrich_block_ref e a" ys a2 h2] h2 2 a2e by simp
  moreover have "map bj_block (modify_entry a2 (\<lambda>e. e) js) = xs @ enrich_block_ref e a2 # ys" using 2 no a2e by (intro modify_entry_mid) auto
  ultimately show ?thesis using f by (auto simp: a2e enrich_twice)
qed

text \<open>One reorg control that passed validation.\<close>

lemma validated_reorg:
  assumes "validate_reorg_control st a old new = Inr ()" and "ascending (ss_history st)"
  shows "br_number a \<noteq> - 1" and "\<forall>e \<in> set (ss_history st). br_number e = br_number a \<longrightarrow> same_block e a"
    and "\<forall>h. ss_coverage st = Some h \<longrightarrow> \<not> same_block h a"
proof -
  have "br_number a < br_number old" using assms(1) by (auto simp: validate_reorg_control_def)
  then show "br_number a \<noteq> - 1" by auto
  have cov: "\<forall>h. ss_coverage st = Some h \<longrightarrow> same_block old h" using assms(1) by (auto simp: validate_reorg_control_def opt_ok_def)
  then show "\<forall>h. ss_coverage st = Some h \<longrightarrow> \<not> same_block h a" using \<open>br_number a < br_number old\<close> by (auto simp: same_block_def)
  have known: "opt_ok (case ss_coverage st of
      Some h \<Rightarrow> if br_number h = br_number a then Some h else find (\<lambda>e. br_number e = br_number a) (ss_history st)
    | None \<Rightarrow> find (\<lambda>e. br_number e = br_number a) (ss_history st)) (\<lambda>k. block_refs_compatible k a)"
    using assms(1) by (simp add: validate_reorg_control_def validate_sequence_known_identity_def)
  show "\<forall>e \<in> set (ss_history st). br_number e = br_number a \<longrightarrow> same_block e a"
  proof (intro ballI impI)
    fix e assume e: "e \<in> set (ss_history st)" "br_number e = br_number a"
    obtain k where k: "find (\<lambda>e. br_number e = br_number a) (ss_history st) = Some k" using e by (cases "find (\<lambda>e. br_number e = br_number a) (ss_history st)") (auto simp: find_None_iff)
    have "k \<in> set (ss_history st)" "br_number k = br_number a" using find_Some [OF k] by auto
    then have "k = e" using e ascending_unique [OF assms(2)] by simp
    moreover have "block_refs_compatible k a"
      using known k cov \<open>br_number a < br_number old\<close> by (auto simp: opt_ok_def same_block_def split: option.splits if_splits)
    ultimately show "same_block e a" by (simp add: block_refs_compatible_def)
  qed
qed

lemma reorg_control_tracks:
  assumes tr: "tracks r st" and asc: "ascending (ss_history st)" and depth: "length (ss_history st) < depth" and st: "sa_state acc = st"
    and v: "validate_reorg_control st a old new = Inr ()" and rw: "rewind_to a old control asserted acc = Inr acc'"
    and ap: "apply_reorg_control ext depth a old qs r c = Some (qs', reports, r', c')"
  shows "tracks r' (sa_state acc')"
proof -
  note va = validated_reorg [OF v asc]
  let ?above = "saturating_add (br_number a) 1" and ?kept = "filter (\<lambda>b. br_number b \<le> br_number a) (ss_history st)"
  obtain warnings dropped r2 where da: "drop_above a (rebase_validation_state_from ?above r) = (warnings, dropped, r2)" by (metis prod_cases3)
  have "tracks (rebase_validation_state_from ?above r) st" using tr by (simp add: tracks_def)
  note dt = drop_above_tracks [OF da this asc va(1,2)]
  from ap obtain rec r3 c2 rep r4 where rec: "recover_dropped_journals ext dropped Explicit r2 (invalidate_cached_block_hashes_from ?above c) = Some (rec, r3, c2)"
    and roc: "report_or_cancel old Explicit rec r3 = (rep, r4)" and r': "r' = snd (restart_at depth a (retain_heads (Some a) (count_recovered r4)))"
    by (auto simp: apply_reorg_control_def Let_def da split: bind_splits prod.splits)
  have r4: "ru_journal r4 = ru_journal r3" "ru_safe_head r4 = ru_safe_head r3" "ru_finalized_head r4 = ru_finalized_head r3"
    "ru_log_coverage_head r4 = ru_log_coverage_head r3" "ru_coverage_head r4 = ru_coverage_head r3"
    using roc by (auto simp: report_or_cancel_def cancel_resyncs_for_dropped_blocks_def split: option.splits)
  note rt = recover_dropped_tracks [OF rec]
  from rw obtain h1 a2 h2 where h1: "upsert_sequence_history ?kept a = Inr h1" and h2: "upsert_sequence_history h1 a2 = Inr h2"
    and a2: "a2 = (case find (\<lambda>b. same_block b a) h1 of Some k \<Rightarrow> enrich_block_ref a k | None \<Rightarrow> a)"
    and st': "sa_state acc' = clear_sequence_heads_above a2 (st\<lparr>ss_history := h2, ss_coverage := Some a2\<rparr>)"
    using va(3) by (auto simp: rewind_to_def Let_def and_then_okay st split: option.splits if_splits)
  have kept: "map bj_block (ru_journal r3) = ?kept" using rt(1) dt by simp
  have "\<forall>e \<in> set ?kept. br_number e < br_number a \<or> same_block e a" using va(2) by (auto simp: order.order_iff_strict)
  with rewound_history [of "ru_journal r3" a h1 a2 h2] h1 h2 a2 kept ascending_sublists(3) [OF asc]
  have hist: "map bj_block (modify_entry a2 (\<lambda>e. e) (ru_journal r3)) = h2" "same_block a2 a"
    and a2j: "a2 = (case find (\<lambda>e. same_block (bj_block e) a) (ru_journal r3) of Some e \<Rightarrow> enrich_block_ref a (bj_block e) | None \<Rightarrow> a)"
    by auto
  have last3: "same_block h a \<Longrightarrow> enrich_block_ref a2 h = a2" if "ru_coverage_head r3 = Some h" for h
  proof (cases "dropped = []")
    case True
    then have "ru_coverage_head r = Some h" using rt(5) that da by (auto simp: drop_above_coverage)
    then have "\<not> same_block h a" using tr va(3) by (auto simp: tracks_def option_rel_Some1 same_block_def)
    then show "same_block h a \<Longrightarrow> ?thesis" by blast
  next
    case False
    assume h: "same_block h a"
    have "ru_journal r3 \<noteq> []" "h = bj_block (last (ru_journal r3))" using rt(1,7) False that by (auto split: if_splits)
    then have "h \<in> set ?kept" using kept by (metis last_in_set list.map_disc_iff last_map)
    obtain e where e: "find (\<lambda>b. same_block b a) ?kept = Some e" using h \<open>h \<in> set ?kept\<close>
      by (cases "find (\<lambda>b. same_block b a) ?kept") (auto simp: find_None_iff)
    have "e \<in> set ?kept" "same_block e a" using find_Some [OF e] by auto
    then have "e = h" using ascending_unique [OF ascending_sublists(3) [OF asc] _ \<open>h \<in> set ?kept\<close>] h by (simp add: same_block_def)
    moreover have "map_option bj_block (find (\<lambda>x. same_block (bj_block x) a) (ru_journal r3)) = Some e"
      using e by (simp only: kept [symmetric] find_map)
    ultimately have "a2 = enrich_block_ref a h" by (auto simp: a2j)
    then show ?thesis by (simp add: enrich_twice)
  qed
  define r5 where "r5 = retain_heads (Some a) (count_recovered r4)"
  have r5: "ru_journal r5 = ru_journal r3" "ru_coverage_head r5 = ru_coverage_head r3" "ru_safe_head r5 = retain_head (Some a) (ru_safe_head r3)"
    "ru_finalized_head r5 = retain_head (Some a) (ru_finalized_head r3)" "ru_log_coverage_head r5 = ru_log_coverage_head r3"
    by (simp_all add: r5_def retain_heads_def count_recovered_def r4)
  have "enriched_ancestor a r5 = (case ru_coverage_head r3 of Some h \<Rightarrow> if same_block h a then enrich_block_ref a2 h else a2 | None \<Rightarrow> a2)"
    by (simp only: enriched_ancestor_def Let_def r5 a2j [symmetric])
  then have anc: "enriched_ancestor a r5 = a2" using last3 by (simp split: option.splits)
  have safe: "retain_head (Some a) (ru_safe_head r3) = retain_head (Some a) (ss_safe st)"
  proof (cases "dropped = []")
    case False
    have "\<forall>x \<in> set (map (br_number \<circ> bj_block) dropped). br_number a < x"
    proof -
      have "\<forall>b \<in> set (map bj_block dropped). br_number a < br_number b" using dt by simp
      then show ?thesis by auto
    qed
    with False show ?thesis using retain_head_idem [of "map (br_number \<circ> bj_block) dropped" a "ss_safe st"] rt(4) dt by (auto split: option.splits)
  qed (use rt(5) dt in auto)
  have same: "retain_head (Some a2) h = retain_head (Some a) h" for h using hist(2) by (auto simp: retain_head_def same_block_def split: option.splits)
  have len: "length (modify_entry a2 (\<lambda>e. e) (ru_journal r3)) \<le> depth"
    using length_modify_entry [of a2 "\<lambda>e. e" "ru_journal r3"] kept depth by (metis (no_types, lifting) Suc_leI dual_order.trans length_filter_le length_map less_Suc_eq_le order_le_less_trans)
  show ?thesis
    using rt(2,3) dt hist(1) safe len journal_block_same depth
    by (simp add: r' [folded r5_def] restart_at_def Let_def anc st' tracks_def clear_sequence_heads_above_def same r5
        journal_entry_mut_def trim_journal_def)
qed

section \<open>Removed records\<close>

lemma cancel_only_tracks: "cancel_only b reason r = (rep, r') \<Longrightarrow> tracks r st \<Longrightarrow> tracks r' st"
  by (auto simp: cancel_only_def cancel_resyncs_for_dropped_blocks_def tracks_def)

lemma same_drops_record:
  "bd_contains (record_drained bs bd) b \<longleftrightarrow> block_key b \<in> block_key ` set bs \<or> bd_contains bd b"
  "bd_contains (record_identity k bd) b \<longleftrightarrow> block_key b = block_key k \<or> bd_contains bd b"
  by (auto simp: record_drained_def record_identity_def bd_contains_def)

lemma block_key_eq: "block_key a = block_key b \<longleftrightarrow> same_block a b"
  by (simp add: block_key_def same_block_def)

lemma anchor_below_removal:
  assumes "tracks r st" and "checked_pred (br_number d) = Some n" and "br_number d' = br_number d" and "br_parent_hash d' = br_parent_hash d"
  shows "anchor_below i d' r = snd (removal_anchor st n (take i (ss_history st)) d)"
proof -
  have j: "ss_history st = map bj_block (ru_journal r)" and heads: "ru_safe_head r = ss_safe st" "ru_finalized_head r = ss_finalized st"
    using assms(1) by (auto simp: tracks_def)
  have fnd: "map_option bj_block (find (\<lambda>e. br_number (bj_block e) = n) (rev (take i (ru_journal r)))) =
      find (\<lambda>h. br_number h = n) (rev (take i (ss_history st)))"
    by (simp add: j take_map rev_map find_map)
  have cp: "checked_pred (br_number d') = Some n" using assms(2,3) by (simp only:)
  show ?thesis by (simp only: anchor_below_def removal_anchor_def Let_def cp option.case heads snd_conv assms(4) fnd)
qed

lemma dropped_above_anchor:
  assumes asc: "ascending hs" and i: "i < length hs" "same_block (hs ! i) d" and n: "br_number d \<noteq> 0"
    and cov: "or_else (snd (removal_anchor st (br_number d - 1) (take i hs) d)) (if take i hs = [] then None else Some (last (take i hs))) = Some h"
  shows "\<forall>x \<in> set (drop i hs). br_number h < br_number x"
proof -
  have "ascending (take i hs @ hs ! i # drop (Suc i) hs)" using asc i by (simp add: id_take_nth_drop [symmetric])
  then have ge: "\<forall>x \<in> set (drop i hs). br_number d \<le> br_number x" and lt: "\<forall>x \<in> set (take i hs). br_number x < br_number d"
    using i by (auto simp: ascending_append ascending_Cons same_block_def Cons_nth_drop_Suc [symmetric] intro: less_imp_le)
  have pred: "br_number d - 1 < br_number d" using n less_eq_dec_self_iff_eq [of "br_number d"] by (simp add: not_le)
  have "br_number h < br_number d"
  proof (cases "removal_anchor st (br_number d - 1) (take i hs) d")
    case (Pair ret anchor)
    show ?thesis
    proof (cases anchor)
      case None
      then show ?thesis using cov Pair lt by (auto split: if_splits)
    next
      case (Some a)
      then have "h = a" using cov Pair by simp
      moreover have "br_number a = br_number d - 1"
        using removal_anchor_retained [of st "br_number d - 1" "take i hs" d _ anchor] removal_anchor_unretained [of st "br_number d - 1" "take i hs" d a] Pair Some
        by (cases ret) (auto simp: same_block_def)
      ultimately show ?thesis using pred by simp
    qed
  qed
  then show ?thesis using ge by (auto intro: less_le_trans)
qed

lemma drop_exact_tracks:
  assumes tr: "tracks r (sa_state acc)" and asc: "ascending (ss_history (sa_state acc))"
    and pos: "find_position (\<lambda>b. same_block b d) (ss_history (sa_state acc)) = Some i"
    and d': "br_number d' = br_number d" "br_hash d' = br_hash d" "br_parent_hash d' = br_parent_hash d" and n: "br_number d \<noteq> 0"
    and bd: "\<forall>b. bd_contains bd b = bd_contains (sa_dropped acc) b"
    and db: "drop_block ext (Some i) d' reason bd r c = Some (rep, reports, bd', r', c')"
  shows "tracks r' (sa_state (remove_known_block i d acc)) \<and> (\<forall>b. bd_contains bd' b = bd_contains (sa_dropped (remove_known_block i d acc)) b)"
proof -
  let ?st = "sa_state acc" and ?hs = "ss_history (sa_state acc)" and ?n = "br_number d - 1"
  have j: "map bj_block (ru_journal r) = ?hs" using tr by (simp add: tracks_def)
  have i: "i < length ?hs" "same_block (?hs ! i) d" using find_position_Some [OF pos] by auto
  obtain ret anchor where ra: "removal_anchor ?st ?n (take i ?hs) d = (ret, anchor)" by (cases "removal_anchor ?st ?n (take i ?hs) d")
  have ab: "anchor_below i d' r = anchor" using anchor_below_removal [OF tr, of d ?n d' i] d' n ra by (simp add: checked_pred_def)
  define cov where "cov = or_else anchor (if take i ?hs = [] then None else Some (last (take i ?hs)))"
  let ?dropped = "drop i (ru_journal r)"
  have ne: "?dropped \<noteq> []" using i(1) j by (metis drop_eq_Nil length_map not_le)
  from db obtain r3 c2 where rec: "recover_dropped_journals ext ?dropped reason
      (rebase_validation_state_from (br_number d') (r\<lparr>ru_journal := take i (ru_journal r)\<rparr>)) (invalidate_cached_block_hashes_from (br_number d') c) = Some (rep, r3, c2)"
    and bd': "bd' = record_identity d' (record_drained (map bj_block ?dropped) bd)"
    and r': "r' = (let r4 = (case anchor of None \<Rightarrow> r3 | Some a \<Rightarrow> r3\<lparr>ru_coverage_head := Some a\<rparr>) in retain_heads (ru_coverage_head r4) r4)"
    using ne by (auto simp: drop_block_def Let_def drain_journal_from_def ab split: bind_splits)
  note rt = recover_dropped_tracks [OF rec]
  have "ru_coverage_head r3 = (if take i ?hs = [] then None else Some (last (take i ?hs)))"
    using rt(7) [OF ne] by (auto simp: j [symmetric] take_map last_map)
  then have covr: "ru_coverage_head (case anchor of None \<Rightarrow> r3 | Some a \<Rightarrow> r3\<lparr>ru_coverage_head := Some a\<rparr>) = cov"
    by (cases anchor) (simp_all add: cov_def)
  have heads: "ru_safe_head r = ss_safe ?st" "ru_finalized_head r = ss_finalized ?st" "ru_log_coverage_head r = ss_log_coverage ?st"
    using tr by (auto simp: tracks_def)
  have safe: "retain_head cov (ru_safe_head r3) = retain_head cov (ss_safe ?st)"
  proof (cases cov)
    case (Some h)
    then have "\<forall>x \<in> set (drop i ?hs). br_number h < br_number x"
      using dropped_above_anchor [OF asc i n, of ?st h] ra by (simp add: cov_def)
    then have "\<forall>x \<in> set (map (br_number \<circ> bj_block) ?dropped). br_number h < x" by (auto simp: j [symmetric] drop_map)
    from retain_head_idem [OF this, of "ss_safe ?st"] ne rt(4) heads show ?thesis by (auto simp: Some split: option.splits)
  qed simp
  have "tracks r' (clear_sequence_heads cov (?st\<lparr>ss_history := take i ?hs, ss_coverage := cov\<rparr>))"
    using rt(1-3) safe covr heads
    by (cases anchor) (auto simp: r' Let_def tracks_def retain_heads_def clear_heads_as_retain take_map j [symmetric] option.rel_refl)
  moreover have "bd_contains bd' b = bd_contains (record_drained (drop i ?hs) (sa_dropped acc)) b" for b
  proof -
    have "block_key d' \<in> block_key ` set (drop i ?hs)"
      using i d' by (auto simp: block_key_def same_block_def Cons_nth_drop_Suc [symmetric])
    then show ?thesis using bd by (auto simp: bd' same_drops_record drop_map [symmetric] j)
  qed
  ultimately show ?thesis by (simp add: remove_known_block_def Let_def ra cov_def)
qed

lemma removed_record_steps:
  assumes "removed_record policy oldest rc signal acc = Inr acc'"
  obtains incoming acc1 where "resolve_record_block_payload_metadata rc signal = Inr incoming" "br_number incoming \<noteq> 0"
    "note_removal (known_or (sa_state acc) incoming) acc = Inr acc1" "settle_removal policy oldest (known_or (sa_state acc) incoming) acc1 = Inr acc'"
  using assms by (auto simp: removed_record_def Let_def and_then_okay)

lemma known_dropped_identity:
  fixes r signal
  defines "k \<equiv> known_dropped_block (find_position (\<lambda>e. same_block (bj_block e) signal) (ru_journal r)) signal r"
  shows "br_number k = br_number signal \<and> br_hash k = br_hash signal"
  unfolding k_def
  by (auto simp: known_dropped_block_def same_block_def dest!: find_position_Some split: option.splits if_splits)

lemma known_dropped_same:
  assumes j: "map bj_block (ru_journal r) = ss_history st" and pos: "find_position (\<lambda>e. same_block (bj_block e) signal) (ru_journal r) = Some i"
    and "br_number inc = br_number signal" "br_hash inc = br_hash signal" "br_parent_hash inc = br_parent_hash signal"
  shows "br_parent_hash (known_dropped_block (Some i) signal r) = br_parent_hash (known_or st inc)"
proof -
  note fp = find_position_Some [OF pos]
  have sb: "same_block b inc = same_block b signal" for b using assms(3,4) by (simp add: same_block_def)
  have "find (\<lambda>k. same_block k inc) (ss_history st) = Some (bj_block (ru_journal r ! i))"
    using fp by (auto simp: j [symmetric] find_map sb find_Some_iff)
  then show ?thesis using assms(5) by (simp add: known_dropped_block_def known_or_def enrich_block_ref_def)
qed

lemma removed_tracks:
  assumes tr: "tracks r (sa_state acc)" and asc: "ascending (ss_history (sa_state acc))" and pol: "requires_complete_rollback policy"
    and bd: "\<forall>b. bd_contains bd b = bd_contains (sa_dropped acc) b" and sig: "reorg_signal_block rc = Some (signal, reason)"
    and v: "removed_record policy oldest rc signal acc = Inr acc'"
    and rec: "recover_for_reorged_input ext rc bd r c = Some (rep, reports, bd', r', c')"
  shows "tracks r' (sa_state acc') \<and> (\<forall>b. bd_contains bd' b = bd_contains (sa_dropped acc') b)"
  using v
proof (rule removed_record_steps)
  fix incoming acc1
  let ?st = "sa_state acc" and ?d = "known_or (sa_state acc) incoming"
  assume inc: "resolve_record_block_payload_metadata rc signal = Inr incoming" and n0: "br_number incoming \<noteq> 0"
    and note1: "note_removal ?d acc = Inr acc1" and settle: "settle_removal policy oldest ?d acc1 = Inr acc'"
  have acc1: "sa_state acc1 = ?st" "sa_dropped acc1 = sa_dropped acc" using note1 by (auto simp: note_removal_def and_then_okay)
  have j: "map bj_block (ru_journal r) = ss_history ?st" and cov: "rel_option same_block (ru_coverage_head r) (ss_coverage ?st)"
    using tr by (simp_all add: tracks_def)
  have inc': "br_number incoming = br_number signal" "br_hash incoming = br_hash signal" "br_parent_hash incoming = br_parent_hash signal"
    using inc by (auto simp: resolve_record_block_payload_metadata_def split: reactive_input.splits option.splits if_splits)
  have sb: "same_block b incoming = same_block b signal" for b using inc' by (simp add: same_block_def)
  have d: "br_number ?d = br_number signal" "br_hash ?d = br_hash signal"
    using inc' by (auto simp: known_or_def same_block_def dest!: find_Some split: option.splits if_splits)
  have sd: "same_block b ?d = same_block b signal" for b using d by (simp add: same_block_def)
  let ?pos = "find_position (\<lambda>e. same_block (bj_block e) signal) (ru_journal r)"
  have pos: "find_position (\<lambda>b. same_block b ?d) (ss_history ?st) = ?pos" by (simp add: j [symmetric] find_position_map sd)
  have contains: "bd_contains bd signal = bd_contains (sa_dropped acc) ?d" using bd d by (simp add: bd_contains_def block_key_def)
  have rk: "replacement_known ?pos (known_dropped_block ?pos signal r) r =
      (?pos = None \<and> (list_ex (\<lambda>b. br_number b = br_number ?d \<and> br_hash b \<noteq> br_hash ?d) (ss_history ?st)
        \<or> opt_is (ss_coverage ?st) (\<lambda>h. br_number h = br_number ?d \<and> br_hash h \<noteq> br_hash ?d)))" (is "_ = (_ \<and> ?known)")
    using cov d known_dropped_identity [of signal r]
    by (auto simp: replacement_known_def j [symmetric] list_ex_iff opt_is_def same_block_def option_rel_Some1 option_rel_Some2 split: option.splits)
  show ?thesis
  proof (cases "bd_contains bd signal")
    case True
    then have "acc' = acc1" "\<exists>rep'. cancel_only signal reason r = (rep', r')" "bd' = bd"
      using settle rec contains acc1 by (auto simp: settle_removal_def recover_for_reorged_input_def sig Let_def split: prod.splits)
    then show ?thesis using cancel_only_tracks tr bd acc1 by auto
  next
    case False
    have strict: "?known" if "?pos = None"
      using settle False contains acc1 that pos pol by (auto simp: settle_removal_def Let_def split: if_splits)
    show ?thesis
    proof (cases ?pos)
      case None
      then have "acc' = acc1" using settle False contains acc1 strict pos by (auto simp: settle_removal_def Let_def split: if_splits)
      moreover have "\<exists>rep'. cancel_only (known_dropped_block ?pos signal r) reason r = (rep', r')" "bd' = bd"
        using rec False None strict rk by (auto simp: recover_for_reorged_input_def sig Let_def split: prod.splits)
      ultimately show ?thesis using cancel_only_tracks tr bd acc1 by auto
    next
      case (Some i)
      then have "acc' = remove_known_block i ?d acc1" using settle False contains acc1 pos by (auto simp: settle_removal_def Let_def)
      moreover have "drop_block ext (Some i) (known_dropped_block ?pos signal r) reason bd r c = Some (rep, reports, bd', r', c')"
        using rec False Some rk by (simp add: recover_for_reorged_input_def sig Let_def)
      ultimately show ?thesis
        using drop_exact_tracks [of r acc1 ?d i "known_dropped_block ?pos signal r" bd ext reason c rep reports bd' r' c'] tr asc bd acc1 pos Some n0 inc'(1)
          known_dropped_same [OF j Some inc'] known_dropped_identity [of signal r] d by simp
    qed
  qed
qed

end
