(* ===== verification/Spec2Isabelle.thy ===== *)
theory Spec2Isabelle
  imports Freshness_Props Versioned Log_Filters Reorg_Rollback Runtime_Tracking
begin

text \<open>
  Verification library of \<^verbatim>\<open>evm-fork-cache\<close>, a Rust crate that keeps a forked EVM state in memory, feeds it
  from a chain, hands out immutable snapshots of it for parallel simulation, and repairs it when the
  chain moves. File names below are relative to \<^verbatim>\<open>src/src\<close> of the repository.

  \<^bold>\<open>The program.\<close> \<open>EvmCache\<close> (\<^verbatim>\<open>cache/mod.rs\<close>) has two layers: an overlay of accounts written by
  executions and by \<open>insert_account_info\<close> (layer 1, \<open>db_accounts\<close>), and a shared backend of accounts and slots
  fetched lazily from the chain (layer 2, \<open>bk_accounts\<close> and \<open>bk_storage\<close>). A \<open>StateUpdate\<close>
  (\<^verbatim>\<open>state_update.rs\<close>) is written through both layers and reported as a \<open>StateDiff\<close>. \<open>snapshot\<close>
  (\<^verbatim>\<open>cache/snapshot.rs\<close>) freezes layer 1 on top of a memoised copy-on-write base of layer 2, and
  \<open>EvmOverlay\<close> (\<^verbatim>\<open>cache/overlay.rs\<close>) is a private database over such a snapshot. The freshness controller
  (\<^verbatim>\<open>freshness.rs\<close>) simulates on an overlay at once, lets a background validator compare the volatile
  slots the simulation read with the chain, and queues the corrections for the cache.

  \<^bold>\<open>Theories.\<close>

  \<^item> \<open>Prelude\<close>: word types, hash maps and hash sets as lists in the order a map iterates, results, the
    collections of simp rules.
  \<^item> \<open>State_Update\<close>, \<open>Evm_Cache\<close>, \<open>Cache_Apply\<close>: the update vocabulary with its saturating deltas, the
    two-layer state with its reads and writes, \<open>apply_update\<close>, the batched \<open>apply_updates\<close> with its slot-run
    fast path, injection, \<open>verify_slots\<close>, purges, checkpoints. \<open>Cache_Laws\<close> states the interface of a layered
    slot store as the locale \<open>slot_store\<close> and interprets it on the cache; \<open>Cache_Batch\<close> proves the fast path
    equal to the one-by-one reference; \<open>Cache_Props\<close>, \<open>Cache_Props2\<close> and \<open>Cache_Verify\<close> hold the properties:
    refinement of an abstract map from slots to values, exact diffs, cold-awareness, masked writes,
    purge accounting, the generation counter, healing by verification.
  \<^item> \<open>Access_Set\<close>: read sets (\<^verbatim>\<open>access_set.rs\<close>) and their EIP-2930 form.
  \<^item> \<open>Snapshot\<close>, with \<open>Snapshot_Laws\<close>, \<open>Snapshot_Props\<close>, \<open>Snapshot_Clone\<close>: the memoised base, its coherence
    invariant, that a snapshot reads what the cache reads, and its equivalence with the deep clone.
  \<^item> \<open>Block_Context\<close>, \<open>Block_Context_Props\<close>: pin, block environment and its source, header checks, the cache of
    block hashes.
  \<^item> \<open>Code_Seeds\<close>, with \<open>Code_Seed_Laws\<close>, \<open>Code_Seed_Props\<close>: seeded, etched and overridden code, its
    verification against the chain, prepared account patches.
  \<^item> \<open>Cache_Machine\<close>, \<open>Machine_Props\<close>: the cache as a step relation over every modelled operation, lazy fetches
    and EVM commits; the invariants hold in every reachable state.
  \<^item> \<open>Overlay\<close>, \<open>Overlay_Props\<close>: the overlay database and its record of missing state.
  \<^item> \<open>Float64\<close>, \<open>Slot_Observations\<close>, \<open>Slot_Observation_Props\<close>, \<open>Versioned\<close>: the observation tracker with its
    prediction in rounded double precision, and its file (\<^verbatim>\<open>cache/slot_observations.rs\<close>,
    \<^verbatim>\<open>cache/versioned.rs\<close>).
  \<^item> \<open>Freshness\<close>, with \<open>Freshness_Laws\<close>, \<open>Freshness_Rounds\<close>, \<open>Freshness_Loop\<close>, \<open>Freshness_Control\<close>,
    \<open>Freshness_Props\<close>: registry, clocks, policies, the controller and the validator. A trusted verdict is proved
    right with respect to every world the fetcher answers for.

  \<^bold>\<open>Conventions.\<close> Machine integers are words and wrap where the release build wraps. A Rust panic is
  \<open>None\<close> of an outer \<open>option\<close>, an \<open>Err\<close> is \<open>Inl\<close>. Hash maps are association lists with distinct keys, so a
  theorem about all such lists is a theorem about every iteration order; sets the code builds locally
  are iterated in insertion order, and no property depends on that order. Shared cells
  (\<open>Arc<Mutex<_>>\<close>) are fields of an explicit state that the operations return updated. \<open>Arc\<close> sharing and
  log output are not observable and not modelled.

  \<^bold>\<open>Parameters.\<close> Code outside the repository is an argument of the definitions: \<open>revm_ext\<close> (the hash of code, the
  empty hash), \<open>keccak\<close>, the EVM (\<open>revm_evm\<close>, a finite tree of database questions for each transaction),
  the external database under an overlay, the storage and account fetchers, bincode. What is assumed of
  them is a hypothesis of the theorem that needs it and is discharged on a concrete instance by its
  witness. \<open>reports_reads\<close> says an execution reports the slots whose answers it depends on; slots of an account
  touched only by a reverted inner call are the known exception of revm's journal, so the validator's
  guarantee is relative to it. \<open>Bytecode::new_raw\<close> is taken to accept any bytes. \<open>set_pinned_block\<close> of the
  backend is recorded as the last pin sent.

  \<^bold>\<open>Bounds.\<close> The only loop of the models that is not structural is the fixed point of \<open>run_validator\<close>. It is a
  total function by the measure \<open>max_validation_rounds - round\<close>, the cap of the source, and it is proved to
  return a verdict. No fuel is used.

  \<^bold>\<open>Not modelled.\<close> The transport and async parts of the reactive runtime, the cold-start driver, bulk extraction
  programs, event decoders, deployment, multicall, mapping probes, inspectors and tracing, the file formats
  above the versioned framing, the prefetch registry: they are provider I/O, EVM bytecode and executions,
  or serde layouts. They change the cache only through the operations modelled here.
\<close>

end
